(* ===== verification/Prelude.thy ===== *)
theory Prelude
  imports Main "HOL-Library.Word"
begin

text \<open>
  Shared vocabulary of the development: the primitive types of the program (UUIDs,
  timestamps), results that may be exceptions, the statement forms the workers send to the
  database (filtered SELECT, ORDER BY, LIMIT, bulk UPDATE, INSERT with an ON CONFLICT arbiter)
  on tables kept as lists of rows, and two contracts every component relies on: the
  insert-once gate and the invariant rule of a step relation.
\<close>

section \<open>Types\<close>

text \<open>A UUID is a 128-bit integer; a timestamp is a number of microseconds since the epoch
  in UTC, the resolution of Python's \<open>datetime\<close>.\<close>

type_synonym uuid = "128 word"
type_synonym datetime = int

named_theorems tx_defs \<open>definitions of database transactions\<close>
named_theorems row_defs \<open>definitions of row predicates and row updates\<close>

section \<open>Results\<close>

text \<open>A computation that may raise returns \<open>Inl\<close> of the exception or \<open>Inr\<close> of the value.\<close>

definition and_then :: "'e + 'a \<Rightarrow> ('a \<Rightarrow> 'e + 'b) \<Rightarrow> 'e + 'b" where
  "and_then m f = (case m of Inl e \<Rightarrow> Inl e | Inr x \<Rightarrow> f x)"

lemma and_then_simps [simp]:
  "and_then (Inl e) f = Inl e"
  "and_then (Inr x) f = f x"
  by (simp_all add: and_then_def)

lemma and_then_Inr_iff: "and_then m f = Inr y \<longleftrightarrow> (\<exists>x. m = Inr x \<and> f x = Inr y)"
  by (cases m) simp_all

lemma and_then_Inl_iff:
  "and_then m f = Inl e \<longleftrightarrow> m = Inl e \<or> (\<exists>x. m = Inr x \<and> f x = Inl e)"
  by (cases m) simp_all

section \<open>Statements on tables\<close>

text \<open>
  A table is the list of its rows in the order a scan meets them. The order is not fixed by
  anything in the model: statements quantify over every list, so ties of an ORDER BY fall as
  the scan has them.
\<close>

definition update_where :: "('r \<Rightarrow> bool) \<Rightarrow> ('r \<Rightarrow> 'r) \<Rightarrow> 'r list \<Rightarrow> 'r list" where
  "update_where p f t = map (\<lambda>r. if p r then f r else r) t"

definition get_by :: "('r \<Rightarrow> 'k) \<Rightarrow> 'k \<Rightarrow> 'r list \<Rightarrow> 'r option" where
  "get_by key k t = find (\<lambda>r. key r = k) t"

definition select_limit :: "('r \<Rightarrow> bool) \<Rightarrow> ('r \<Rightarrow> 'k::linorder) \<Rightarrow> nat \<Rightarrow> 'r list \<Rightarrow> 'r list" where
  "select_limit p key n t = take n (sort_key key (filter p t))"

lemma set_update_where:
  "set (update_where p f t) = (\<lambda>r. if p r then f r else r) ` set t"
  by (simp add: update_where_def)

lemma ball_update_where:
  "(\<forall>r \<in> set (update_where p f t). Q r) \<longleftrightarrow> (\<forall>r \<in> set t. if p r then Q (f r) else Q r)"
  by (auto simp: set_update_where)

lemma in_update_whereE:
  assumes "r \<in> set (update_where p f t)"
  obtains r0 where "r0 \<in> set t" and "r = (if p r0 then f r0 else r0)"
  using assms by (auto simp: set_update_where)

lemma map_update_where:
  "(\<And>r. g (f r) = g r) \<Longrightarrow> map g (update_where p f t) = map g t"
  by (simp add: update_where_def)

lemma image_update_where:
  "(\<And>r. g (f r) = g r) \<Longrightarrow> g ` set (update_where p f t) = g ` set t"
  by (metis map_update_where set_map)

lemma update_where_append [simp]:
  "update_where p f (t @ u) = update_where p f t @ update_where p f u"
  by (simp add: update_where_def)

lemma update_where_none:
  "(\<And>r. r \<in> set t \<Longrightarrow> \<not> p r) \<Longrightarrow> update_where p f t = t"
  unfolding update_where_def by (rule map_idI) auto

lemma update_where_idle:
  "(\<And>r. r \<in> set t \<Longrightarrow> p r \<Longrightarrow> f r = r) \<Longrightarrow> update_where p f t = t"
  unfolding update_where_def by (rule map_idI) auto

lemma length_update_where [simp]: "length (update_where p f t) = length t"
  by (simp add: update_where_def)

lemma update_where_Nil [simp]: "update_where p f [] = []"
  by (simp add: update_where_def)

lemma update_where_Cons [simp]:
  "update_where p f (r # t) = (if p r then f r else r) # update_where p f t"
  by (simp add: update_where_def)

lemma get_by_Some_in: "get_by key k t = Some r \<Longrightarrow> r \<in> set t \<and> key r = k"
  by (auto simp: get_by_def find_Some_iff)

lemma get_by_None_iff: "get_by key k t = None \<longleftrightarrow> k \<notin> key ` set t"
  by (auto simp: get_by_def find_None_iff)

lemma get_by_Some_iff:
  assumes "distinct (map key t)"
  shows "get_by key k t = Some r \<longleftrightarrow> r \<in> set t \<and> key r = k"
proof
  assume r: "r \<in> set t \<and> key r = k"
  then obtain s where s: "get_by key k t = Some s"
    using get_by_None_iff [of key k t] by (cases "get_by key k t") auto
  from assms have "inj_on key (set t)" by (simp add: distinct_map)
  with r get_by_Some_in [OF s] have "s = r" by (auto dest: inj_onD)
  with s show "get_by key k t = Some r" by simp
qed (rule get_by_Some_in)

lemma get_by_update_where:
  assumes "\<And>r. key (f r) = key r"
  shows "get_by key k (update_where p f t)
    = map_option (\<lambda>r. if p r then f r else r) (get_by key k t)"
  by (induction t) (auto simp: get_by_def assms)

lemma get_by_append:
  "get_by key k (t @ u) = (case get_by key k t of None \<Rightarrow> get_by key k u | Some r \<Rightarrow> Some r)"
  by (induction t) (auto simp: get_by_def)

lemma get_by_Nil [simp]: "get_by key k [] = None"
  by (simp add: get_by_def)

lemma get_by_Cons [simp]:
  "get_by key k (r # t) = (if key r = k then Some r else get_by key k t)"
  by (simp add: get_by_def)

lemma select_limit_subset: "set (select_limit p key n t) \<subseteq> {r \<in> set t. p r}"
  by (auto simp: select_limit_def dest: in_set_takeD)

lemma select_limit_length: "length (select_limit p key n t) \<le> n"
  by (simp add: select_limit_def)

lemma select_limit_sorted: "sorted (map key (select_limit p key n t))"
  unfolding select_limit_def take_map [symmetric]
  by (intro sorted_wrt_take) simp

lemma select_limit_all:
  "length (select_limit p key n t) < n \<Longrightarrow> set (select_limit p key n t) = {r \<in> set t. p r}"
  by (auto simp: select_limit_def)

lemma select_limit_distinct:
  "distinct (map g t) \<Longrightarrow> distinct (map g (select_limit p key n t))"
  unfolding select_limit_def take_map [symmetric]
  by (intro distinct_take) (simp add: distinct_map inj_on_def)

text \<open>LIMIT keeps the first rows: a row that qualifies and is left out comes, in the ORDER BY
  key, at or after every row returned.\<close>

lemma select_limit_first:
  assumes "r \<in> set (select_limit p key n t)"
    and "s \<in> set t" and "p s" and "s \<notin> set (select_limit p key n t)"
  shows "key r \<le> key s"
proof -
  let ?l = "sort_key key (filter p t)"
  have "s \<in> set (drop n ?l)"
  proof -
    have "set ?l = set (take n ?l) \<union> set (drop n ?l)"
      by (metis append_take_drop_id set_append)
    moreover have "s \<in> set ?l" using assms(2,3) by simp
    ultimately show ?thesis using assms(4) unfolding select_limit_def by blast
  qed
  moreover have "sorted (map key (take n ?l @ drop n ?l))" by simp
  ultimately show ?thesis
    using assms(1) unfolding select_limit_def map_append sorted_append by auto
qed

section \<open>INSERT with an ON CONFLICT DO NOTHING arbiter\<close>

text \<open>
  The arbiter names one unique constraint. A row that meets an existing one under that key is
  not inserted and nothing is raised; any other violated constraint (\<open>bad\<close>: another unique
  key, a foreign key) raises the given error; otherwise the row is added. The flag says
  whether a row was inserted (\<open>rowcount\<close>, or \<open>RETURNING\<close> giving a row).
\<close>

definition insert_row ::
  "('r \<Rightarrow> 'u) \<Rightarrow> ('r list \<Rightarrow> 'r \<Rightarrow> bool) \<Rightarrow> 'e \<Rightarrow> 'r \<Rightarrow> 'r list \<Rightarrow> 'e + bool \<times> 'r list" where
  "insert_row arb bad e row t =
     (if arb row \<in> arb ` set t then Inr (False, t)
      else if bad t row then Inl e
      else Inr (True, t @ [row]))"

lemma insert_row_cases:
  assumes "insert_row arb bad e row t = Inr (b, t')"
  obtains (conflict) "b = False" "t' = t" "arb row \<in> arb ` set t"
  | (inserted) "b = True" "t' = t @ [row]" "arb row \<notin> arb ` set t" "\<not> bad t row"
  using assms by (auto simp: insert_row_def split: if_splits)

lemma insert_row_distinct:
  assumes "insert_row arb bad e row t = Inr (b, t')" and "distinct (map arb t)"
  shows "distinct (map arb t')"
  using assms by (cases rule: insert_row_cases) auto

subsection \<open>The insert-once gate\<close>

text \<open>
  Three places of the program let several workers race to insert one row and rely on exactly
  one of them winning: the fingerprint of a job, the attempt number of a run, and the
  idempotency key of a payment. The contract: a key that is present makes every later
  insertion a no-op that reports defeat, an insertion that reports victory met no such key
  and leaves it present, and no insertion removes a key.
\<close>

locale insert_gate =
  fixes has :: "'k \<Rightarrow> 's \<Rightarrow> bool"
    and put :: "'r \<Rightarrow> 's \<Rightarrow> 'e + bool \<times> 's"
    and key_of :: "'r \<Rightarrow> 'k"
  assumes put_present: "has (key_of r) s \<Longrightarrow> put r s = Inr (b, s') \<Longrightarrow> \<not> b \<and> s' = s"
    and put_wins: "put r s = Inr (True, s') \<Longrightarrow> \<not> has (key_of r) s \<and> has (key_of r) s'"
    and put_keeps: "put r s = Inr (b, s') \<Longrightarrow> has k s \<Longrightarrow> has k s'"
begin

fun puts :: "'r list \<Rightarrow> 's \<Rightarrow> bool list \<times> 's" where
  "puts [] s = ([], s)"
| "puts (r # rs) s =
     (case put r s of
        Inl e \<Rightarrow> let (bs, s') = puts rs s in (False # bs, s')
      | Inr (b, s1) \<Rightarrow> let (bs, s') = puts rs s1 in (b # bs, s'))"

lemma puts_length: "length (fst (puts rs s)) = length rs"
  by (induction rs arbitrary: s) (auto simp: split_beta split: sum.splits)

lemma puts_present:
  assumes "has k s" and "\<forall>r \<in> set rs. key_of r = k"
  shows "True \<notin> set (fst (puts rs s)) \<and> snd (puts rs s) = s"
  using assms
proof (induction rs)
  case (Cons r rs)
  then show ?case
    using put_present [of r s] by (cases "put r s") (auto simp: split_beta)
qed simp

lemma puts_one_winner:
  assumes "\<forall>r \<in> set rs. key_of r = k"
  shows "count_list (fst (puts rs s)) True \<le> 1"
  using assms
proof (induction rs arbitrary: s)
  case Nil
  then show ?case by simp
next
  case (Cons r rs)
  show ?case
  proof (cases "put r s")
    case (Inl e)
    with Cons show ?thesis by (simp add: split_beta)
  next
    case (Inr p)
    obtain b s1 where p: "p = (b, s1)" by (cases p)
    show ?thesis
    proof (cases b)
      case True
      with Inr p have "has (key_of r) s1" by (auto dest: put_wins)
      with Cons.prems have "True \<notin> set (fst (puts rs s1))"
        using puts_present [of k s1 rs] by auto
      then have "count_list (fst (puts rs s1)) True = 0"
        by (simp add: count_list_0_iff)
      with Inr p True show ?thesis by (simp add: split_beta)
    next
      case False
      with Inr p Cons show ?thesis by (simp add: split_beta)
    qed
  qed
qed

end

section \<open>Invariants of a step relation\<close>

locale inductive_invariant =
  fixes start :: "'s \<Rightarrow> bool"
    and move :: "'s \<Rightarrow> 's \<Rightarrow> bool"
    and inv :: "'s \<Rightarrow> bool"
  assumes inv_start: "start s \<Longrightarrow> inv s"
    and inv_move: "inv s \<Longrightarrow> move s t \<Longrightarrow> inv t"
begin

lemma inv_moves:
  assumes "move\<^sup>*\<^sup>* s t" and "inv s"
  shows "inv t"
  using assms by (induction rule: rtranclp_induct) (auto intro: inv_move)

lemma inv_reachable:
  assumes "start s" and "move\<^sup>*\<^sup>* s t"
  shows "inv t"
  using inv_moves [OF assms(2) inv_start [OF assms(1)]] .

end

end
