(* ===== verification/PyLib.thy ===== *)
theory PyLib
  imports Complex_Main Prelude
begin

text \<open>
  The Python values and standard-library operations the program uses: JSON documents (the
  JSONB columns), truthiness, \<open>str\<close> of integers and UUIDs, \<open>str.strip\<close> and \<open>str.upper\<close>,
  the grammar of \<open>Decimal(str)\<close>, and the conversion of a float number of seconds to the
  microseconds of a \<open>timedelta\<close>. Text is ASCII; a float is the rational number it denotes.
\<close>

section \<open>JSON documents\<close>

datatype json =
    JNull
  | JBool bool
  | JInt int
  | JFloat rat
  | JStr string
  | JArr "json list"
  | JObj "(string \<times> json) list"

fun py_truthy :: "json \<Rightarrow> bool" where
  "py_truthy JNull = False"
| "py_truthy (JBool b) = b"
| "py_truthy (JInt i) = (i \<noteq> 0)"
| "py_truthy (JFloat q) = (q \<noteq> 0)"
| "py_truthy (JStr s) = (s \<noteq> [])"
| "py_truthy (JArr xs) = (xs \<noteq> [])"
| "py_truthy (JObj kvs) = (kvs \<noteq> [])"

text \<open>The number a value is in arithmetic and comparisons (a \<open>bool\<close> is an \<open>int\<close>); \<open>None\<close>
  for the types that make them raise TypeError.\<close>

fun py_number :: "json \<Rightarrow> rat option" where
  "py_number (JBool b) = Some (if b then 1 else 0)"
| "py_number (JInt i) = Some (of_int i)"
| "py_number (JFloat q) = Some q"
| "py_number _ = None"

fun json_fields :: "json \<Rightarrow> (string \<times> json) list option" where
  "json_fields (JObj kvs) = Some kvs"
| "json_fields _ = None"

section \<open>Characters and strings\<close>

definition char_code :: "char \<Rightarrow> nat" where
  "char_code c = of_char c"

definition is_digit :: "char \<Rightarrow> bool" where
  "is_digit c \<longleftrightarrow> 48 \<le> char_code c \<and> char_code c \<le> 57"

definition is_space :: "char \<Rightarrow> bool" where
  "is_space c \<longleftrightarrow> char_code c = 32 \<or> (9 \<le> char_code c \<and> char_code c \<le> 13)
     \<or> (28 \<le> char_code c \<and> char_code c \<le> 31)"

definition to_upper :: "char \<Rightarrow> char" where
  "to_upper c = (if 97 \<le> char_code c \<and> char_code c \<le> 122 then char_of (char_code c - 32) else c)"

definition to_lower :: "char \<Rightarrow> char" where
  "to_lower c = (if 65 \<le> char_code c \<and> char_code c \<le> 90 then char_of (char_code c + 32) else c)"

definition str_upper :: "string \<Rightarrow> string" where
  "str_upper s = map to_upper s"

definition str_lower :: "string \<Rightarrow> string" where
  "str_lower s = map to_lower s"

definition str_strip :: "string \<Rightarrow> string" where
  "str_strip s = rev (dropWhile is_space (rev (dropWhile is_space s)))"

lemmas str_defs = str_upper_def str_lower_def str_strip_def to_upper_def to_lower_def
  is_space_def is_digit_def char_code_def

lemma length_str_upper [simp]: "length (str_upper s) = length s"
  by (simp add: str_upper_def)

lemma str_strip_ends:
  "str_strip s \<noteq> [] \<Longrightarrow> \<not> is_space (last (str_strip s))"
  unfolding str_strip_def
  by (metis hd_dropWhile last_rev rev.simps(1))

section \<open>Decimal rendering of integers\<close>

definition dec_digit :: "nat \<Rightarrow> char" where
  "dec_digit n = ''0123456789'' ! n"

fun nat_str :: "nat \<Rightarrow> string" where
  "nat_str n = (if n < 10 then [dec_digit n] else nat_str (n div 10) @ [dec_digit (n mod 10)])"

declare nat_str.simps [simp del]

definition int_str :: "int \<Rightarrow> string" where
  "int_str i = (if i < 0 then CHR ''-'' # nat_str (nat (- i)) else nat_str (nat i))"

definition digits_val :: "string \<Rightarrow> nat" where
  "digits_val s = foldl (\<lambda>n c. 10 * n + (char_code c - 48)) 0 s"

lemma less_10_cases: "n < 10 \<Longrightarrow> n \<in> {0, 1, 2, 3, 4, 5, 6, 7, 8, 9 :: nat}"
  by auto

lemma dec_digit_val: "n < 10 \<Longrightarrow> char_code (dec_digit n) = 48 + n"
  by (drule less_10_cases) (auto simp: dec_digit_def char_code_def)

lemma digits_val_nat_str: "digits_val (nat_str n) = n"
proof (induction n rule: nat_str.induct)
  case (1 n)
  show ?case
  proof (cases "n < 10")
    case True
    then show ?thesis by (subst nat_str.simps) (simp add: digits_val_def dec_digit_val)
  next
    case False
    then have "digits_val (nat_str (n div 10)) = n div 10" by (rule "1.IH")
    moreover have "n mod 10 < 10" by simp
    ultimately show ?thesis using False
      by (subst nat_str.simps) (simp add: digits_val_def dec_digit_val del: mod_less_divisor)
  qed
qed

lemma nat_str_digits: "c \<in> set (nat_str n) \<Longrightarrow> is_digit c"
proof (induction n rule: nat_str.induct)
  case (1 n)
  then show ?case
    by (subst (asm) (2) nat_str.simps)
      (auto simp: is_digit_def dec_digit_val split: if_splits)
qed

lemma nat_str_nonempty: "nat_str n \<noteq> []"
  by (subst nat_str.simps) simp

lemma nat_str_inject [simp]: "nat_str m = nat_str n \<longleftrightarrow> m = n"
  by (metis digits_val_nat_str)

lemma int_str_inject [simp]: "int_str i = int_str j \<longleftrightarrow> i = j"
proof -
  have "CHR ''-'' \<notin> set (nat_str n)" for n
    using nat_str_digits [of "CHR ''-''" n] by (auto simp: is_digit_def char_code_def)
  then have "CHR ''-'' # s \<noteq> nat_str n" for s n
    by (metis list.set_intros(1))
  then show ?thesis
    by (auto simp: int_str_def dest: sym)
qed

section \<open>UUIDs\<close>

definition hex_digit :: "nat \<Rightarrow> char" where
  "hex_digit n = ''0123456789abcdef'' ! n"

primrec hex_digits :: "nat \<Rightarrow> nat \<Rightarrow> string" where
  "hex_digits 0 n = []"
| "hex_digits (Suc w) n = hex_digits w (n div 16) @ [hex_digit (n mod 16)]"

text \<open>\<open>str(uuid)\<close>: the 32 hexadecimal digits in groups of 8, 4, 4, 4 and 12.\<close>

definition uuid_str :: "uuid \<Rightarrow> string" where
  "uuid_str u = (let h = hex_digits 32 (unat u) in
     take 8 h @ ''-'' @ take 4 (drop 8 h) @ ''-'' @ take 4 (drop 12 h) @ ''-''
       @ take 4 (drop 16 h) @ ''-'' @ drop 20 h)"

definition hex_val :: "char \<Rightarrow> nat option" where
  "hex_val c =
     (if is_digit c then Some (char_code c - 48)
      else if 97 \<le> char_code c \<and> char_code c \<le> 102 then Some (char_code c - 87)
      else if 65 \<le> char_code c \<and> char_code c \<le> 70 then Some (char_code c - 55)
      else None)"

fun hex_parse :: "nat \<Rightarrow> string \<Rightarrow> nat option" where
  "hex_parse n [] = Some n"
| "hex_parse n (c # cs) = (case hex_val c of None \<Rightarrow> None | Some d \<Rightarrow> hex_parse (16 * n + d) cs)"

text \<open>\<open>uuid.UUID(s)\<close>: braces at the ends and hyphens anywhere are dropped; the rest must be 32
  hexadecimal digits, else ValueError (\<open>None\<close>).\<close>

definition uuid_parse :: "string \<Rightarrow> uuid option" where
  "uuid_parse s =
     (let brace = (\<lambda>c. c = CHR ''{'' \<or> c = CHR ''}'');
          h = filter (\<lambda>c. c \<noteq> CHR ''-'') (rev (dropWhile brace (rev (dropWhile brace s))))
      in if length h \<noteq> 32 then None else map_option of_nat (hex_parse 0 h))"

lemma length_hex_digits [simp]: "length (hex_digits w n) = w"
  by (induction w arbitrary: n) simp_all

lemma less_16_cases:
  "n < 16 \<Longrightarrow> n \<in> {0, 1, 2, 3, 4, 5, 6, 7, 8, 9, 10, 11, 12, 13, 14, 15 :: nat}"
  by (simp; presburger)

lemma hex_val_hex_digit: "n < 16 \<Longrightarrow> hex_val (hex_digit n) = Some n"
  by (drule less_16_cases)
    (auto simp: hex_digit_def hex_val_def is_digit_def char_code_def)

lemma hex_digit_plain: "n < 16 \<Longrightarrow> hex_digit n \<notin> {CHR ''-'', CHR ''{'', CHR ''}''}"
  by (drule less_16_cases) (auto simp: hex_digit_def)

lemma hex_digits_plain: "c \<in> set (hex_digits w n) \<Longrightarrow> c \<notin> {CHR ''-'', CHR ''{'', CHR ''}''}"
  using hex_digit_plain by (induction w arbitrary: n) force+

lemma hex_parse_append:
  "hex_parse n (s @ [c]) =
     (case hex_parse n s of None \<Rightarrow> None
      | Some m \<Rightarrow> (case hex_val c of None \<Rightarrow> None | Some d \<Rightarrow> Some (16 * m + d)))"
  by (induction s arbitrary: n) (auto split: option.splits)

lemma hex_parse_digits: "hex_parse 0 (hex_digits w n) = Some (n mod 16 ^ w)"
proof (induction w arbitrary: n)
  case 0
  then show ?case by simp
next
  case (Suc w)
  have "hex_val (hex_digit (n mod 16)) = Some (n mod 16)"
    by (rule hex_val_hex_digit) simp
  with Suc show ?case
    by (simp add: hex_parse_append mod_mult2_eq)
qed

lemma uuid_str_digits:
  "filter (\<lambda>c. c \<noteq> CHR ''-'') (uuid_str u) = hex_digits 32 (unat u)"
proof -
  let ?h = "hex_digits 32 (unat u)"
  have keep: "filter (\<lambda>c. c \<noteq> CHR ''-'') xs = xs" if "set xs \<subseteq> set ?h" for xs
    using that by (auto intro!: filter_True dest: subsetD hex_digits_plain)
  have "take 8 ?h @ take 4 (drop 8 ?h) @ take 4 (drop 12 ?h) @ take 4 (drop 16 ?h) @ drop 20 ?h = ?h"
    by (rule nth_equalityI) (auto simp: nth_append)
  then show ?thesis
    by (simp add: uuid_str_def Let_def keep order_trans [OF set_take_subset set_drop_subset]
        set_take_subset set_drop_subset)
qed

lemma length_uuid_str [simp]: "length (uuid_str u) = 36"
  by (simp add: uuid_str_def Let_def)

lemma unat_uuid_bound: "unat (u :: uuid) mod 16 ^ 32 = unat u"
proof -
  have "unat u < 2 ^ LENGTH(128)" by (rule unsigned_less)
  then show ?thesis by simp
qed

lemma uuid_str_inject [simp]: "uuid_str u = uuid_str v \<longleftrightarrow> u = v"
proof
  assume "uuid_str u = uuid_str v"
  then have "hex_digits 32 (unat u) = hex_digits 32 (unat v)"
    by (metis uuid_str_digits)
  then have "unat u mod 16 ^ 32 = unat v mod 16 ^ 32"
    by (metis hex_parse_digits option.inject)
  then show "u = v" by (simp only: unat_uuid_bound word_unat_eq_iff)
qed simp

lemma uuid_str_plain: "c \<in> set (uuid_str u) \<Longrightarrow> c \<noteq> CHR ''{'' \<and> c \<noteq> CHR ''}''"
  by (auto simp: uuid_str_def Let_def dest!: in_set_takeD in_set_dropD hex_digits_plain)

lemma dropWhile_absent: "(\<And>c. c \<in> set s \<Longrightarrow> \<not> P c) \<Longrightarrow> dropWhile P s = s"
  by (cases s) auto

text \<open>\<open>UUID(str(u)) == u\<close>: the round trip the recovery worker relies on when it parses the
  identifiers of \<open>depends_on\<close>.\<close>

lemma uuid_parse_uuid_str [simp]: "uuid_parse (uuid_str u) = Some u"
proof -
  let ?brace = "\<lambda>c. c = CHR ''{'' \<or> c = CHR ''}''"
  have "dropWhile ?brace (rev (dropWhile ?brace (uuid_str u))) = rev (uuid_str u)"
    by (subst (1 2) dropWhile_absent) (auto dest: uuid_str_plain)
  then show ?thesis
    by (simp add: uuid_parse_def Let_def uuid_str_digits hex_parse_digits
        unat_uuid_bound [simplified])
qed

section \<open>Decimal numbers\<close>

text \<open>\<open>DFin neg coeff e\<close> is \<open>coeff * 10 ^ e\<close>, negated when \<open>neg\<close>.\<close>

datatype decimal = DFin bool nat int | DInf bool | DNaN bool

definition split_sign :: "string \<Rightarrow> bool \<times> string" where
  "split_sign s =
     (case s of [] \<Rightarrow> (False, [])
      | c # cs \<Rightarrow> if c = CHR ''-'' then (True, cs) else if c = CHR ''+'' then (False, cs) else (False, s))"

definition all_digits :: "string \<Rightarrow> bool" where
  "all_digits s \<longleftrightarrow> list_all is_digit s"

text \<open>The exponent part: absent, or \<open>e\<close>, an optional sign and at least one digit, to the end.\<close>

definition dec_exponent :: "string \<Rightarrow> int option" where
  "dec_exponent s =
     (case s of [] \<Rightarrow> Some 0
      | c # cs \<Rightarrow>
          (let (neg, ds) = split_sign cs in
           if c = CHR ''e'' \<and> ds \<noteq> [] \<and> all_digits ds
           then Some (if neg then - int (digits_val ds) else int (digits_val ds)) else None))"

definition dec_finite :: "bool \<Rightarrow> string \<Rightarrow> decimal option" where
  "dec_finite neg s =
     (let ip = takeWhile is_digit s; r = dropWhile is_digit s;
          fp = (if r \<noteq> [] \<and> hd r = CHR ''.'' then takeWhile is_digit (tl r) else []);
          r' = (if r \<noteq> [] \<and> hd r = CHR ''.'' then dropWhile is_digit (tl r) else r)
      in if ip @ fp = [] then None
         else map_option (\<lambda>e. DFin neg (digits_val (ip @ fp)) (e - int (length fp))) (dec_exponent r'))"

text \<open>\<open>Decimal(s)\<close>: surrounding blanks are stripped, underscores dropped, letters are case-
  insensitive; \<open>None\<close> is the InvalidOperation of a string outside the grammar.\<close>

definition dec_parse :: "string \<Rightarrow> decimal option" where
  "dec_parse s0 =
     (let (neg, s) = split_sign (str_lower (filter (\<lambda>c. c \<noteq> CHR ''_'') (str_strip s0))) in
      if s = ''inf'' \<or> s = ''infinity'' then Some (DInf neg)
      else if take 3 s = ''nan'' \<and> all_digits (drop 3 s) then Some (DNaN neg)
      else if take 4 s = ''snan'' \<and> all_digits (drop 4 s) then Some (DNaN neg)
      else dec_finite neg s)"

text \<open>\<open>d <= 0\<close>; ordering a NaN raises InvalidOperation (\<open>None\<close>).\<close>

fun dec_nonpositive :: "decimal \<Rightarrow> bool option" where
  "dec_nonpositive (DFin neg coeff e) = Some (neg \<or> coeff = 0)"
| "dec_nonpositive (DInf neg) = Some neg"
| "dec_nonpositive (DNaN neg) = None"

section \<open>Durations\<close>

text \<open>\<open>timedelta(seconds=x)\<close> rounds to the nearest microsecond, ties to even; adding it to a
  timestamp outside the years 1 to 9999 raises OverflowError (\<open>None\<close>).\<close>

definition round_half_even :: "rat \<Rightarrow> int" where
  "round_half_even q =
     (let f = \<lfloor>q\<rfloor>; d = q - of_int f in
      if d < 1 / 2 then f else if d > 1 / 2 then f + 1 else if even f then f else f + 1)"

definition microseconds :: "rat \<Rightarrow> int" where
  "microseconds s = round_half_even (s * 1000000)"

definition datetime_min :: datetime where
  "datetime_min = -62135596800000000"

definition datetime_max :: datetime where
  "datetime_max = 253402300799999999"

definition add_seconds :: "datetime \<Rightarrow> rat \<Rightarrow> datetime option" where
  "add_seconds t s =
     (let u = t + microseconds s in
      if datetime_min \<le> u \<and> u \<le> datetime_max then Some u else None)"

lemma round_half_even_mono: "p \<le> q \<Longrightarrow> round_half_even p \<le> round_half_even q"
proof -
  assume le: "p \<le> q"
  then have fl: "\<lfloor>p\<rfloor> \<le> \<lfloor>q\<rfloor>" by (rule floor_mono)
  show ?thesis
  proof (cases "\<lfloor>p\<rfloor> = \<lfloor>q\<rfloor>")
    case True
    with le show ?thesis by (auto simp: round_half_even_def Let_def)
  next
    case False
    with fl have "\<lfloor>p\<rfloor> + 1 \<le> \<lfloor>q\<rfloor>" by simp
    then show ?thesis by (auto simp: round_half_even_def Let_def)
  qed
qed

lemma round_half_even_int [simp]: "round_half_even (of_int i) = i"
  by (simp add: round_half_even_def)

lemma microseconds_mono: "s \<le> t \<Longrightarrow> microseconds s \<le> microseconds t"
  by (simp add: microseconds_def round_half_even_mono)

lemma microseconds_nonneg: "0 \<le> s \<Longrightarrow> 0 \<le> microseconds s"
  using microseconds_mono [of 0 s] round_half_even_int [of 0]
  by (simp add: microseconds_def)

end
