(* ===== verification/Errors.thy ===== *)
theory Errors
  imports PyLib
begin

text \<open>
  The exceptions of \<open>app/core/exceptions.py\<close> and the built-in and driver exceptions the code
  paths raise, with their message texts, and the record of external functions: what the
  program calls that is not in the repository (the hash, croniter, pytz, the database driver's
  parameter binding, the interpreter's \<open>repr\<close>). Every definition that uses one takes the
  record as an argument.
\<close>

section \<open>Exceptions\<close>

datatype exn =
    SubscriptionNotFoundError string
  | SubscriptionValidationError string
  | InvalidSubscriptionStateError string string
  | JobNotFoundError string
  | InvalidJobStateError string string
  | ConfigurationError string
  | BunqPaymentError int string
  | BunqTransientError string
  | BunqAmbiguousError string
  | LeaderElectionError string
  | IdempotencyConflictError string
  | ValueError string
  | TypeError
  | AttributeError
  | KeyError
  | IndexError
  | OverflowError
  | InvalidOperation
  | RuntimeError
  | JSONDecodeError
  | IntegrityError
  | DataError
  | MultipleResultsFound
  | UnknownTimeZoneError
  | CroniterError
  | OtherException nat

text \<open>The subclasses of \<open>SchedulerError\<close>.\<close>

fun is_scheduler_error :: "exn \<Rightarrow> bool" where
  "is_scheduler_error (SubscriptionNotFoundError _) = True"
| "is_scheduler_error (SubscriptionValidationError _) = True"
| "is_scheduler_error (InvalidSubscriptionStateError _ _) = True"
| "is_scheduler_error (JobNotFoundError _) = True"
| "is_scheduler_error (InvalidJobStateError _ _) = True"
| "is_scheduler_error (ConfigurationError _) = True"
| "is_scheduler_error (BunqPaymentError _ _) = True"
| "is_scheduler_error (BunqTransientError _) = True"
| "is_scheduler_error (BunqAmbiguousError _) = True"
| "is_scheduler_error (LeaderElectionError _) = True"
| "is_scheduler_error (IdempotencyConflictError _) = True"
| "is_scheduler_error _ = False"

section \<open>External functions\<close>

text \<open>
  \<^item> \<open>x_sha256\<close>: the hexadecimal SHA-256 digest of a text;
  \<^item> \<open>x_repr\<close>: the interpreter's \<open>repr\<close> of a value;
  \<^item> \<open>x_exn_text\<close>: \<open>str\<close> of an exception the repository does not define;
  \<^item> \<open>x_isoformat\<close>: \<open>datetime.isoformat\<close> of a UTC timestamp;
  \<^item> \<open>x_bind_uuid\<close>, \<open>x_bind_text\<close>: the driver's conversion of a text to a UUID parameter, and of
    a value to a nullable text parameter; \<open>None\<close> is its DataError;
  \<^item> \<open>x_cron_valid\<close>: \<open>croniter.is_valid\<close>; \<open>x_cron_next expr tz now\<close>: the next fire time, in
    UTC, of an expression evaluated in a time zone (\<open>None\<close> for UTC) at a moment, \<open>None\<close> when
    croniter raises;
  \<^item> \<open>x_tz_known\<close>: \<open>pytz.timezone\<close> accepts the name; \<open>x_all_timezones\<close>: the name is listed in
    \<open>pytz.all_timezones\<close>.
\<close>

record ext =
  x_sha256 :: "string \<Rightarrow> string"
  x_repr :: "json \<Rightarrow> string"
  x_exn_text :: "exn \<Rightarrow> string"
  x_isoformat :: "datetime \<Rightarrow> string"
  x_bind_uuid :: "string \<Rightarrow> uuid option"
  x_bind_text :: "json \<Rightarrow> string option option"
  x_cron_valid :: "string \<Rightarrow> bool"
  x_cron_next :: "string \<Rightarrow> string option \<Rightarrow> datetime \<Rightarrow> datetime option"
  x_tz_known :: "string \<Rightarrow> bool"
  x_all_timezones :: "string \<Rightarrow> bool"

text \<open>\<open>str\<close> of a value: the text itself for a \<open>str\<close>, else its \<open>repr\<close>.\<close>

fun py_str :: "ext \<Rightarrow> json \<Rightarrow> string" where
  "py_str X (JStr s) = s"
| "py_str X (JInt i) = int_str i"
| "py_str X (JBool b) = (if b then ''True'' else ''False'')"
| "py_str X JNull = ''None''"
| "py_str X v = x_repr X v"

section \<open>Message texts\<close>

text \<open>\<open>str(exc)\<close>, the text the workers store in \<open>error_message\<close>.\<close>

fun exn_str :: "ext \<Rightarrow> exn \<Rightarrow> string" where
  "exn_str X (SubscriptionNotFoundError m) = m"
| "exn_str X (SubscriptionValidationError m) = m"
| "exn_str X (InvalidSubscriptionStateError cur att) =
     ''Cannot transition subscription from '' @ x_repr X (JStr cur) @ '' to ''
       @ x_repr X (JStr att) @ ''.''"
| "exn_str X (JobNotFoundError m) = m"
| "exn_str X (InvalidJobStateError cur att) =
     ''Cannot transition job_run from '' @ x_repr X (JStr cur) @ '' to ''
       @ x_repr X (JStr att) @ ''.''"
| "exn_str X (ConfigurationError m) = m"
| "exn_str X (BunqPaymentError code body) = ''bunq API error '' @ int_str code @ '': '' @ body"
| "exn_str X (BunqTransientError m) = m"
| "exn_str X (BunqAmbiguousError m) = m"
| "exn_str X (LeaderElectionError m) = m"
| "exn_str X (IdempotencyConflictError m) = m"
| "exn_str X (ValueError m) = m"
| "exn_str X e = x_exn_text X e"

section \<open>A concrete instance\<close>

text \<open>An instance of the external functions for the worked examples: the hash is the identity
  (so it has no collisions), the driver accepts canonical UUID texts, and texts or nulls as
  text parameters; every cron expression fires one minute later.\<close>

definition example_ext :: ext where
  "example_ext = \<lparr>
     x_sha256 = (\<lambda>s. s),
     x_repr = (\<lambda>v. ''repr''),
     x_exn_text = (\<lambda>e. ''error''),
     x_isoformat = int_str,
     x_bind_uuid = uuid_parse,
     x_bind_text = (\<lambda>v. case v of JStr s \<Rightarrow> Some (Some s) | JNull \<Rightarrow> Some None | _ \<Rightarrow> None),
     x_cron_valid = (\<lambda>c. c \<noteq> []),
     x_cron_next = (\<lambda>c tz now. if c = [] then None else Some (now + 60000000)),
     x_tz_known = (\<lambda>tz. tz = ''UTC''),
     x_all_timezones = (\<lambda>tz. tz = ''UTC'') \<rparr>"

lemma example_ext_simps [simp]:
  "x_sha256 example_ext s = s"
  "x_repr example_ext v = ''repr''"
  "x_exn_text example_ext e = ''error''"
  "x_isoformat example_ext t = int_str t"
  "x_bind_uuid example_ext s = uuid_parse s"
  "x_bind_text example_ext v = (case v of JStr s \<Rightarrow> Some (Some s) | JNull \<Rightarrow> Some None | _ \<Rightarrow> None)"
  "x_cron_valid example_ext c = (c \<noteq> [])"
  "x_cron_next example_ext c tz now = (if c = [] then None else Some (now + 60000000))"
  "x_tz_known example_ext z = (z = ''UTC'')"
  "x_all_timezones example_ext z = (z = ''UTC'')"
  by (simp_all add: example_ext_def)

end
