(* ===== verification/Domain.thy ===== *)
theory Domain
  imports Errors
begin

text \<open>
  \<open>app/domain/models.py\<close>: the status enumerations, the idempotency key and the job
  fingerprint, the validated payment configuration and the retry policy. The lemmas show that
  the texts hashed for keys and fingerprints determine what they name, what a constructed
  configuration satisfies and which failures its construction raises, and the bounds and
  growth of the retry delay.
\<close>

section \<open>Enumerations\<close>

datatype SubscriptionStatus = ACTIVE | PAUSED | CANCELLED

datatype JobStatus = PENDING | BLOCKED | READY | DONE | CANCELLED

datatype JobRunStatus = PENDING | RUNNING | SUCCEEDED | FAILED | DEAD

fun subscription_status_value :: "SubscriptionStatus \<Rightarrow> string" where
  "subscription_status_value SubscriptionStatus.ACTIVE = ''ACTIVE''"
| "subscription_status_value SubscriptionStatus.PAUSED = ''PAUSED''"
| "subscription_status_value SubscriptionStatus.CANCELLED = ''CANCELLED''"

fun job_status_value :: "JobStatus \<Rightarrow> string" where
  "job_status_value JobStatus.PENDING = ''PENDING''"
| "job_status_value JobStatus.BLOCKED = ''BLOCKED''"
| "job_status_value JobStatus.READY = ''READY''"
| "job_status_value JobStatus.DONE = ''DONE''"
| "job_status_value JobStatus.CANCELLED = ''CANCELLED''"

fun run_status_value :: "JobRunStatus \<Rightarrow> string" where
  "run_status_value JobRunStatus.PENDING = ''PENDING''"
| "run_status_value JobRunStatus.RUNNING = ''RUNNING''"
| "run_status_value JobRunStatus.SUCCEEDED = ''SUCCEEDED''"
| "run_status_value JobRunStatus.FAILED = ''FAILED''"
| "run_status_value JobRunStatus.DEAD = ''DEAD''"

text \<open>\<open>JobRunStatus(s)\<close>: the member with that value, else ValueError.\<close>

definition JobRunStatus_of :: "string \<Rightarrow> JobRunStatus option" where
  "JobRunStatus_of s =
     find (\<lambda>st. run_status_value st = s)
       [JobRunStatus.PENDING, JobRunStatus.RUNNING, JobRunStatus.SUCCEEDED,
        JobRunStatus.FAILED, JobRunStatus.DEAD]"

lemma JobRunStatus_of_value [simp]: "JobRunStatus_of (run_status_value st) = Some st"
  by (cases st) (simp_all add: JobRunStatus_of_def)

lemma run_status_value_inject [simp]: "run_status_value s = run_status_value t \<longleftrightarrow> s = t"
  by (metis JobRunStatus_of_value option.inject)

lemma JobRunStatus_of_Some_iff: "JobRunStatus_of s = Some st \<longleftrightarrow> run_status_value st = s"
proof
  assume "JobRunStatus_of s = Some st"
  then show "run_status_value st = s"
    unfolding JobRunStatus_of_def find_Some_iff by blast
qed (metis JobRunStatus_of_value)

definition SubscriptionStatus_of :: "string \<Rightarrow> SubscriptionStatus option" where
  "SubscriptionStatus_of s =
     find (\<lambda>st. subscription_status_value st = s)
       [SubscriptionStatus.ACTIVE, SubscriptionStatus.PAUSED, SubscriptionStatus.CANCELLED]"

lemma SubscriptionStatus_of_value [simp]:
  "SubscriptionStatus_of (subscription_status_value st) = Some st"
  by (cases st) (simp_all add: SubscriptionStatus_of_def)

section \<open>Idempotency key and job fingerprint\<close>

definition idempotency_raw :: "uuid \<Rightarrow> int \<Rightarrow> string" where
  "idempotency_raw job_run_id attempt = uuid_str job_run_id @ '':'' @ int_str attempt"

definition IdempotencyKey_for_run :: "ext \<Rightarrow> uuid \<Rightarrow> int \<Rightarrow> string" where
  "IdempotencyKey_for_run X job_run_id attempt = x_sha256 X (idempotency_raw job_run_id attempt)"

definition fingerprint_raw :: "ext \<Rightarrow> uuid \<Rightarrow> datetime \<Rightarrow> string" where
  "fingerprint_raw X subscription_id scheduled_for =
     uuid_str subscription_id @ '':'' @ x_isoformat X scheduled_for"

definition JobFingerprint_for_job :: "ext \<Rightarrow> uuid \<Rightarrow> datetime \<Rightarrow> string" where
  "JobFingerprint_for_job X subscription_id scheduled_for =
     x_sha256 X (fingerprint_raw X subscription_id scheduled_for)"

lemma idempotency_raw_inject:
  "idempotency_raw r a = idempotency_raw r' a' \<longleftrightarrow> r = r' \<and> a = a'"
  by (auto simp: idempotency_raw_def)

lemma fingerprint_raw_inject:
  assumes "inj (x_isoformat X)"
  shows "fingerprint_raw X s t = fingerprint_raw X s' t' \<longleftrightarrow> s = s' \<and> t = t'"
  using assms by (auto simp: fingerprint_raw_def dest: injD)

text \<open>
  C28: distinct attempts never share an idempotency key, and distinct firing windows never
  share a fingerprint: if the hash has no collision among the texts the program hashes, then
  equal keys name the same run and attempt, and equal fingerprints (with a timestamp rendering
  that tells timestamps apart) the same subscription and window.
\<close>

theorem keys_identify_attempts:
  assumes "inj_on (x_sha256 X)
      (range (\<lambda>(r, a). idempotency_raw r a) \<union> range (\<lambda>(s, t). fingerprint_raw X s t))"
    and "inj (x_isoformat X)"
  shows "(IdempotencyKey_for_run X r a = IdempotencyKey_for_run X r' a' \<longleftrightarrow> r = r' \<and> a = a')
    \<and> (JobFingerprint_for_job X s t = JobFingerprint_for_job X s' t' \<longleftrightarrow> s = s' \<and> t = t')"
proof -
  let ?T = "range (\<lambda>(r, a). idempotency_raw r a) \<union> range (\<lambda>(s, t). fingerprint_raw X s t)"
  have "idempotency_raw r a \<in> ?T" for r a by (auto intro: range_eqI [of _ _ "(r, a)"])
  moreover have "fingerprint_raw X s t \<in> ?T" for s t by (auto intro: range_eqI [of _ _ "(s, t)"])
  ultimately show ?thesis
    by (simp add: IdempotencyKey_for_run_def JobFingerprint_for_job_def
        inj_on_eq_iff [OF assms(1)] idempotency_raw_inject fingerprint_raw_inject [OF assms(2)])
qed

theorem keys_identify_attempts_witness:
  "(IdempotencyKey_for_run example_ext 1 1 = IdempotencyKey_for_run example_ext 1 2
      \<longleftrightarrow> (1::uuid) = 1 \<and> (1::int) = 2)
   \<and> (JobFingerprint_for_job example_ext 7 0 = JobFingerprint_for_job example_ext 7 0
      \<longleftrightarrow> (7::uuid) = 7 \<and> (0::int) = 0)"
  by (rule keys_identify_attempts) (simp_all add: inj_on_def)

section \<open>Payment configuration\<close>

record PaymentConfig =
  pc_amount :: decimal
  pc_currency :: string
  pc_counterparty_iban :: string
  pc_counterparty_name :: string
  pc_description :: json
  pc_monetary_account_id :: json

text \<open>\<open>not s or not s.strip()\<close> on a field that may hold any JSON value: a falsy value is
  rejected before \<open>strip\<close> is called, a truthy value that is not a text has no \<open>strip\<close>.\<close>

fun required_text :: "string \<Rightarrow> json \<Rightarrow> exn + string" where
  "required_text field (JStr s) =
     (if str_strip s = [] then Inl (ValueError (''payment_config.'' @ field @ '' is required''))
      else Inr (str_strip s))"
| "required_text field v =
     (if py_truthy v then Inl AttributeError
      else Inl (ValueError (''payment_config.'' @ field @ '' is required'')))"

text \<open>\<open>len(currency) != 3\<close>, then \<open>currency.upper()\<close>: a list or dict has a length but no \<open>upper\<close>,
  a number or null has no length.\<close>

fun currency_code :: "ext \<Rightarrow> json \<Rightarrow> exn + string" where
  "currency_code X (JStr s) =
     (if length s \<noteq> 3 then Inl (ValueError
        (''payment_config.currency must be a 3-char ISO code, got '' @ x_repr X (JStr s)))
      else Inr (str_upper s))"
| "currency_code X (JArr xs) =
     (if length xs \<noteq> 3 then Inl (ValueError
        (''payment_config.currency must be a 3-char ISO code, got '' @ x_repr X (JArr xs)))
      else Inl AttributeError)"
| "currency_code X (JObj kvs) =
     (if length kvs \<noteq> 3 then Inl (ValueError
        (''payment_config.currency must be a 3-char ISO code, got '' @ x_repr X (JObj kvs)))
      else Inl AttributeError)"
| "currency_code X _ = Inl TypeError"

definition positive_amount :: "ext \<Rightarrow> json \<Rightarrow> exn + decimal" where
  "positive_amount X amount =
     (case dec_parse (py_str X amount) of
        None \<Rightarrow> Inl (ValueError
          (''payment_config.amount is not a valid decimal: '' @ x_repr X amount))
      | Some parsed \<Rightarrow>
          (case dec_nonpositive parsed of
             None \<Rightarrow> Inl InvalidOperation
           | Some True \<Rightarrow> Inl (ValueError
               (''payment_config.amount must be positive, got '' @ x_repr X amount))
           | Some False \<Rightarrow> Inr parsed))"

text \<open>The checks run in the order amount, IBAN, name, currency; the two texts are stripped and
  the currency upper-cased after all of them. A currency that is no text but has length 3
  therefore fails last, in \<open>upper()\<close>, which is also its place here.\<close>

definition PaymentConfig_init ::
  "ext \<Rightarrow> json \<Rightarrow> json \<Rightarrow> json \<Rightarrow> json \<Rightarrow> json \<Rightarrow> json \<Rightarrow> exn + PaymentConfig" where
  "PaymentConfig_init X amount iban name currency description account =
     and_then (positive_amount X amount) (\<lambda>parsed.
     and_then (required_text ''counterparty_iban'' iban) (\<lambda>iban'.
     and_then (required_text ''counterparty_name'' name) (\<lambda>name'.
     and_then (currency_code X currency) (\<lambda>currency'.
       Inr \<lparr>pc_amount = parsed, pc_currency = currency', pc_counterparty_iban = iban',
            pc_counterparty_name = name', pc_description = description,
            pc_monetary_account_id = account\<rparr>))))"

definition REQUIRED_FIELDS :: "string list" where
  "REQUIRED_FIELDS = [''amount'', ''counterparty_iban'', ''counterparty_name'']"

definition field_or :: "json \<Rightarrow> string \<Rightarrow> (string \<times> json) list \<Rightarrow> json" where
  "field_or dflt k d = (case map_of d k of None \<Rightarrow> dflt | Some v \<Rightarrow> v)"

fun is_infix :: "string \<Rightarrow> string \<Rightarrow> bool" where
  "is_infix k [] = (k = [])"
| "is_infix k (c # cs) = (take (length k) (c # cs) = k \<or> is_infix k cs)"

text \<open>\<open>k in d\<close>: a key of a dict, an element of a list, a substring of a text; any other value
  raises TypeError (\<open>None\<close>).\<close>

fun py_in :: "string \<Rightarrow> json \<Rightarrow> bool option" where
  "py_in k (JObj d) = Some (map_of d k \<noteq> None)"
| "py_in k (JArr xs) = Some (JStr k \<in> set xs)"
| "py_in k (JStr s) = Some (is_infix k s)"
| "py_in k _ = None"

definition missing_fields :: "json \<Rightarrow> string list" where
  "missing_fields d = filter (\<lambda>f. py_in f d \<noteq> Some True) REQUIRED_FIELDS"

text \<open>The stored configuration may be any JSON value: the field test is \<open>in\<close>, the field access
  needs a dict (TypeError otherwise).\<close>

definition PaymentConfig_from_dict :: "ext \<Rightarrow> json \<Rightarrow> exn + PaymentConfig" where
  "PaymentConfig_from_dict X d =
     (if py_in ''amount'' d = None then Inl TypeError
      else if missing_fields d \<noteq> [] then
        Inl (ValueError (''payment_config missing required fields: ''
          @ x_repr X (JArr (map JStr (missing_fields d)))))
      else case json_fields d of
        None \<Rightarrow> Inl TypeError
      | Some kvs \<Rightarrow> PaymentConfig_init X
          (field_or JNull ''amount'' kvs)
          (field_or JNull ''counterparty_iban'' kvs)
          (field_or JNull ''counterparty_name'' kvs)
          (field_or (JStr ''EUR'') ''currency'' kvs)
          (field_or (JStr []) ''description'' kvs)
          (field_or JNull ''monetary_account_id'' kvs))"

definition amount_ok :: "decimal \<Rightarrow> bool" where
  "amount_ok d \<longleftrightarrow> (case d of DFin neg coeff e \<Rightarrow> \<not> neg \<and> 0 < coeff | DInf neg \<Rightarrow> \<not> neg | DNaN _ \<Rightarrow> False)"

lemma positive_amount_ok: "positive_amount X v = Inr d \<Longrightarrow> amount_ok d"
  by (cases d) (auto simp: positive_amount_def amount_ok_def split: option.splits bool.splits)

lemma required_text_ok: "required_text f v = Inr s \<Longrightarrow> s \<noteq> [] \<and> (\<exists>t. v = JStr t \<and> s = str_strip t)"
  by (cases v) (auto split: if_splits)

lemma currency_code_ok: "currency_code X v = Inr s \<Longrightarrow> length s = 3 \<and> (\<exists>t. v = JStr t \<and> s = str_upper t)"
  by (cases v) (auto split: if_splits)

lemma json_fields_Some_iff: "json_fields d = Some kvs \<longleftrightarrow> d = JObj kvs"
  by (cases d) auto

lemma missing_fields_JObj:
  "missing_fields (JObj kvs) = [] \<longleftrightarrow> (\<forall>f \<in> set REQUIRED_FIELDS. map_of kvs f \<noteq> None)"
  by (simp add: missing_fields_def filter_empty_conv)

lemma PaymentConfig_init_Inr_iff:
  "PaymentConfig_init X amount iban name currency description account = Inr c \<longleftrightarrow>
     positive_amount X amount = Inr (pc_amount c)
   \<and> required_text ''counterparty_iban'' iban = Inr (pc_counterparty_iban c)
   \<and> required_text ''counterparty_name'' name = Inr (pc_counterparty_name c)
   \<and> currency_code X currency = Inr (pc_currency c)
   \<and> pc_description c = description \<and> pc_monetary_account_id c = account"
  by (cases c) (auto simp: PaymentConfig_init_def and_then_Inr_iff)

text \<open>
  A configuration that is constructed is usable: the stored value is a dict, the amount is
  the decimal its field's text denotes and is positive (a finite number or \<open>Infinity\<close>, never
  zero, negative or NaN), the currency has three characters, and IBAN and name are the stored
  texts without surrounding blanks and not empty.
\<close>

theorem payment_config_valid:
  assumes "PaymentConfig_from_dict X d = Inr c"
  shows "\<exists>kvs amount iban name. d = JObj kvs
    \<and> map_of kvs ''amount'' = Some amount
    \<and> dec_parse (py_str X amount) = Some (pc_amount c) \<and> amount_ok (pc_amount c)
    \<and> length (pc_currency c) = 3
    \<and> map_of kvs ''counterparty_iban'' = Some (JStr iban)
    \<and> pc_counterparty_iban c = str_strip iban \<and> pc_counterparty_iban c \<noteq> []
    \<and> map_of kvs ''counterparty_name'' = Some (JStr name)
    \<and> pc_counterparty_name c = str_strip name \<and> pc_counterparty_name c \<noteq> []"
proof -
  from assms obtain kvs where d: "d = JObj kvs" and none: "missing_fields d = []"
    and init: "PaymentConfig_init X (field_or JNull ''amount'' kvs)
      (field_or JNull ''counterparty_iban'' kvs) (field_or JNull ''counterparty_name'' kvs)
      (field_or (JStr ''EUR'') ''currency'' kvs) (field_or (JStr []) ''description'' kvs)
      (field_or JNull ''monetary_account_id'' kvs) = Inr c"
    by (auto simp: PaymentConfig_from_dict_def json_fields_Some_iff split: if_splits option.splits)
  from none d obtain amount where amount: "map_of kvs ''amount'' = Some amount"
    and there: "map_of kvs ''counterparty_iban'' \<noteq> None" "map_of kvs ''counterparty_name'' \<noteq> None"
    by (auto simp: missing_fields_JObj REQUIRED_FIELDS_def)
  from init amount have pos: "positive_amount X amount = Inr (pc_amount c)"
    by (simp add: PaymentConfig_init_Inr_iff field_or_def)
  then have "dec_parse (py_str X amount) = Some (pc_amount c)"
    by (auto simp: positive_amount_def split: option.splits bool.splits)
  moreover from init obtain iban where "map_of kvs ''counterparty_iban'' = Some (JStr iban)"
    and "pc_counterparty_iban c = str_strip iban" "pc_counterparty_iban c \<noteq> []"
    using there(1) required_text_ok [of "''counterparty_iban''"]
    by (fastforce simp: PaymentConfig_init_Inr_iff field_or_def split: option.splits)
  moreover from init obtain name where "map_of kvs ''counterparty_name'' = Some (JStr name)"
    and "pc_counterparty_name c = str_strip name" "pc_counterparty_name c \<noteq> []"
    using there(2) required_text_ok [of "''counterparty_name''"]
    by (fastforce simp: PaymentConfig_init_Inr_iff field_or_def split: option.splits)
  moreover from init have "length (pc_currency c) = 3"
    by (auto simp: PaymentConfig_init_Inr_iff dest: currency_code_ok)
  ultimately show ?thesis using d amount positive_amount_ok [OF pos] by blast
qed

text \<open>An example: the configuration of the repository's tests.\<close>

definition example_config_fields :: "(string \<times> json) list" where
  "example_config_fields =
     [(''amount'', JStr ''25.00''), (''currency'', JStr ''EUR''),
      (''counterparty_iban'', JStr ''NL02ABNA0123456789''),
      (''counterparty_name'', JStr '' Test Recipient ''),
      (''description'', JStr ''Monthly'')]"

lemma example_config_evaluates:
  "PaymentConfig_from_dict example_ext (JObj example_config_fields) =
     Inr \<lparr>pc_amount = DFin False 2500 (-2), pc_currency = ''EUR'',
          pc_counterparty_iban = ''NL02ABNA0123456789'', pc_counterparty_name = ''Test Recipient'',
          pc_description = JStr ''Monthly'', pc_monetary_account_id = JNull\<rparr>"
  by (simp add: example_config_fields_def PaymentConfig_from_dict_def missing_fields_def
      REQUIRED_FIELDS_def PaymentConfig_init_def field_or_def positive_amount_def dec_parse_def
      dec_finite_def split_sign_def all_digits_def dec_exponent_def digits_val_def str_defs)

theorem payment_config_valid_witness:
  "\<exists>c. PaymentConfig_from_dict example_ext (JObj example_config_fields) = Inr c
     \<and> amount_ok (pc_amount c) \<and> length (pc_currency c) = 3"
  using payment_config_valid [OF example_config_evaluates] example_config_evaluates by auto

definition currency_field_ok :: "(string \<times> json) list \<Rightarrow> bool" where
  "currency_field_ok kvs \<longleftrightarrow>
     (case map_of kvs ''currency'' of
        None \<Rightarrow> True | Some (JStr s) \<Rightarrow> length s = 3 | Some _ \<Rightarrow> False)"

definition text_field_ok :: "(string \<times> json) list \<Rightarrow> string \<Rightarrow> bool" where
  "text_field_ok kvs f \<longleftrightarrow>
     (case map_of kvs f of Some (JStr s) \<Rightarrow> str_strip s \<noteq> [] | _ \<Rightarrow> False)"

definition amount_field_ok :: "ext \<Rightarrow> (string \<times> json) list \<Rightarrow> bool" where
  "amount_field_ok X kvs \<longleftrightarrow>
     (case map_of kvs ''amount'' of None \<Rightarrow> False
      | Some v \<Rightarrow> (case dec_parse (py_str X v) of None \<Rightarrow> False | Some d \<Rightarrow> amount_ok d))"

lemma positive_amount_accepts:
  "(\<exists>d. positive_amount X v = Inr d) \<longleftrightarrow>
     (case dec_parse (py_str X v) of None \<Rightarrow> False | Some d \<Rightarrow> amount_ok d)"
proof (cases "dec_parse (py_str X v)")
  case (Some d)
  then show ?thesis
    by (cases d) (auto simp: positive_amount_def amount_ok_def split: bool.splits)
qed (simp add: positive_amount_def)

lemma required_text_accepts:
  "(\<exists>s. required_text f v = Inr s) \<longleftrightarrow> (case v of JStr s \<Rightarrow> str_strip s \<noteq> [] | _ \<Rightarrow> False)"
  by (cases v) auto

lemma currency_code_accepts:
  "(\<exists>s. currency_code X v = Inr s) \<longleftrightarrow> (case v of JStr s \<Rightarrow> length s = 3 | _ \<Rightarrow> False)"
  by (cases v) auto

lemma PaymentConfig_init_accepts:
  "(\<exists>c. PaymentConfig_init X amount iban name currency description account = Inr c) \<longleftrightarrow>
     (\<exists>d. positive_amount X amount = Inr d) \<and> (\<exists>s. required_text ''counterparty_iban'' iban = Inr s)
   \<and> (\<exists>s. required_text ''counterparty_name'' name = Inr s) \<and> (\<exists>s. currency_code X currency = Inr s)"
  by (auto simp: PaymentConfig_init_def and_then_Inr_iff)

text \<open>
  Exactly which stored dicts the executor can pay: those with a positive decimal amount,
  an IBAN and a name that are texts with a non-blank character, and a currency that is absent
  or a text of three characters. Every other dict raises, whatever the remaining fields hold.
\<close>

theorem payment_config_accepts:
  "(\<exists>c. PaymentConfig_from_dict X (JObj kvs) = Inr c) \<longleftrightarrow>
     amount_field_ok X kvs \<and> text_field_ok kvs ''counterparty_iban''
   \<and> text_field_ok kvs ''counterparty_name'' \<and> currency_field_ok kvs"
proof (cases "missing_fields (JObj kvs) = []")
  case True
  then show ?thesis
    by (auto simp: PaymentConfig_from_dict_def PaymentConfig_init_accepts positive_amount_accepts
        required_text_accepts currency_code_accepts missing_fields_JObj REQUIRED_FIELDS_def
        amount_field_ok_def text_field_ok_def currency_field_ok_def field_or_def
        split: option.splits json.splits)
next
  case False
  then show ?thesis
    by (auto simp: PaymentConfig_from_dict_def missing_fields_JObj REQUIRED_FIELDS_def
        amount_field_ok_def text_field_ok_def split: option.splits)
qed

section \<open>Retry policy\<close>

record RetryPolicy =
  max_attempts :: json
  base_backoff_s :: json
  max_backoff_s :: json
  jitter :: json

definition RetryPolicy_defaults :: RetryPolicy where
  "RetryPolicy_defaults =
     \<lparr>max_attempts = JInt 5, base_backoff_s = JFloat 60, max_backoff_s = JFloat 3600,
      jitter = JBool True\<rparr>"

text \<open>\<open>attempt >= max_attempts\<close>: a stored value that is no number raises TypeError.\<close>

definition is_exhausted :: "RetryPolicy \<Rightarrow> int \<Rightarrow> exn + bool" where
  "is_exhausted p attempt =
     (case py_number (max_attempts p) of None \<Rightarrow> Inl TypeError | Some m \<Rightarrow> Inr (of_int attempt \<ge> m))"

text \<open>\<open>min(base * 2 ** (attempt - 1), max)\<close>, scaled by \<open>0.5 + u * 0.5\<close> where \<open>u\<close> is the value
  of \<open>random.random()\<close>, when jitter is truthy. A float base times a power of two beyond the
  range of a float raises OverflowError. A backoff that is no number ends in a TypeError, here
  or in the \<open>timedelta\<close> the caller makes of the result.\<close>

definition is_float :: "json \<Rightarrow> bool" where
  "is_float v = (case v of JFloat _ \<Rightarrow> True | _ \<Rightarrow> False)"

definition backoff :: "rat \<Rightarrow> rat \<Rightarrow> int \<Rightarrow> rat" where
  "backoff b m attempt = min (b * 2 powi (attempt - 1)) m"

definition next_delay_s :: "RetryPolicy \<Rightarrow> int \<Rightarrow> rat \<Rightarrow> exn + rat" where
  "next_delay_s p attempt u =
     (case (py_number (base_backoff_s p), py_number (max_backoff_s p)) of
        (Some b, Some m) \<Rightarrow>
          if is_float (base_backoff_s p) \<and> attempt - 1 \<ge> 1024 then Inl OverflowError
          else Inr (if py_truthy (jitter p) then backoff b m attempt * (1 / 2 + u * (1 / 2))
                    else backoff b m attempt)
      | _ \<Rightarrow> Inl TypeError)"

definition RETRY_POLICY_KNOWN_KEYS :: "string list" where
  "RETRY_POLICY_KNOWN_KEYS = [''max_attempts'', ''base_backoff_s'', ''max_backoff_s'', ''jitter'']"

definition RetryPolicy_to_dict :: "RetryPolicy \<Rightarrow> json" where
  "RetryPolicy_to_dict p =
     JObj [(''max_attempts'', max_attempts p), (''base_backoff_s'', base_backoff_s p),
           (''max_backoff_s'', max_backoff_s p), (''jitter'', jitter p)]"

text \<open>\<open>cls(**known)\<close>: the known keys override the defaults; \<open>d.items()\<close> needs a dict.\<close>

definition RetryPolicy_from_dict :: "json \<Rightarrow> exn + RetryPolicy" where
  "RetryPolicy_from_dict d =
     (case json_fields d of
        None \<Rightarrow> Inl AttributeError
      | Some kvs \<Rightarrow>
          (let known = filter (\<lambda>(k, v). k \<in> set RETRY_POLICY_KNOWN_KEYS) kvs in
           Inr \<lparr>max_attempts = field_or (max_attempts RetryPolicy_defaults) ''max_attempts'' known,
                base_backoff_s = field_or (base_backoff_s RetryPolicy_defaults) ''base_backoff_s'' known,
                max_backoff_s = field_or (max_backoff_s RetryPolicy_defaults) ''max_backoff_s'' known,
                jitter = field_or (jitter RetryPolicy_defaults) ''jitter'' known\<rparr>))"

text \<open>\<open>RetryPolicy.from_dict(subscription.retry_policy or {})\<close>\<close>

definition policy_of :: "json \<Rightarrow> exn + RetryPolicy" where
  "policy_of v = RetryPolicy_from_dict (if py_truthy v then v else JObj [])"

lemma map_of_filter_key: "P k \<Longrightarrow> map_of (filter (\<lambda>(k, v). P k) kvs) k = map_of kvs k"
  by (induction kvs) auto

text \<open>
  A policy document survives the round trip through its dict, and keys this version does
  not know change nothing: whatever extra entries a newer writer added in front of or behind
  the known ones, the policy read back is the one that was written.
\<close>

theorem retry_policy_roundtrip:
  assumes "\<forall>(k, v) \<in> set extra \<union> set later. k \<notin> set RETRY_POLICY_KNOWN_KEYS"
  shows "(case RetryPolicy_to_dict p of JObj kvs \<Rightarrow> RetryPolicy_from_dict (JObj (extra @ kvs @ later))
          | _ \<Rightarrow> Inl TypeError) = Inr p"
proof -
  have drop: "filter (\<lambda>(k, v). k \<in> set RETRY_POLICY_KNOWN_KEYS) l = []"
    if "\<forall>(k, v) \<in> set l. k \<notin> set RETRY_POLICY_KNOWN_KEYS" for l :: "(string \<times> json) list"
    using that by (auto simp: filter_empty_conv)
  have "filter (\<lambda>(k, v). k \<in> set RETRY_POLICY_KNOWN_KEYS) extra = []"
    and "filter (\<lambda>(k, v). k \<in> set RETRY_POLICY_KNOWN_KEYS) later = []"
    using assms by (auto intro!: drop)
  then show ?thesis
    by (cases p) (simp add: RetryPolicy_to_dict_def RetryPolicy_from_dict_def Let_def field_or_def
        RETRY_POLICY_KNOWN_KEYS_def)
qed

theorem retry_policy_roundtrip_witness:
  "RetryPolicy_from_dict (JObj ([(''version'', JInt 2)]
      @ [(''max_attempts'', JInt 5), (''base_backoff_s'', JFloat 60),
         (''max_backoff_s'', JFloat 3600), (''jitter'', JBool True)]
      @ [(''note'', JNull)])) = Inr RetryPolicy_defaults"
  using retry_policy_roundtrip [of "[(''version'', JInt 2)]" "[(''note'', JNull)]" RetryPolicy_defaults]
  by (simp add: RETRY_POLICY_KNOWN_KEYS_def RetryPolicy_to_dict_def RetryPolicy_defaults_def)

lemma backoff_le_max: "backoff b m attempt \<le> m"
  by (simp add: backoff_def)

lemma backoff_mono:
  assumes "0 \<le> b" and "1 \<le> a" and "a \<le> a'"
  shows "backoff b m a \<le> backoff b m a'"
proof -
  have "(2::rat) powi (a - 1) \<le> 2 powi (a' - 1)"
    using assms(2,3) by (intro power_int_increasing) auto
  with assms(1) have "b * 2 powi (a - 1) \<le> b * 2 powi (a' - 1)"
    by (rule mult_left_mono [rotated])
  then show ?thesis by (auto simp: backoff_def min_def)
qed

lemma backoff_nonneg: "0 \<le> b \<Longrightarrow> 0 \<le> m \<Longrightarrow> 0 \<le> backoff b m a"
  by (simp add: backoff_def zero_le_power_int)



lemma backoff_examples: "backoff 60 3600 1 = 60" "backoff 60 3600 3 = 240" "backoff 60 3600 8 = 3600"
  by (simp_all add: backoff_def)

lemma is_exhausted_Inr_iff:
  "is_exhausted p a = Inr b \<longleftrightarrow>
     (\<exists>m. py_number (max_attempts p) = Some m \<and> b = (m \<le> of_int a))"
  by (auto simp: is_exhausted_def split: option.splits)

lemma is_exhausted_mono:
  "is_exhausted p a = Inr True \<Longrightarrow> a \<le> a' \<Longrightarrow> is_exhausted p a' = Inr True"
  by (auto simp: is_exhausted_Inr_iff)

end
