(* ===== verification/StateMachine.thy ===== *)
theory StateMachine
  imports Domain Settings
begin

text \<open>
  \<open>app/domain/jobs/state_machine.py\<close>: the transition table of a job run and the machine that
  applies transitions to a run object. The lemmas say exactly when a transition is applied and
  what it changes, and what the table allows along any sequence of transitions.
\<close>

section \<open>The machine\<close>

text \<open>The attributes of the ORM object the machine reads or writes; \<open>status\<close> is a plain text.\<close>

record run_object =
  ro_id :: uuid
  ro_attempt :: int
  ro_status :: string
  ro_error_message :: "string option"

fun VALID_RUN_TRANSITIONS :: "JobRunStatus \<Rightarrow> JobRunStatus list" where
  "VALID_RUN_TRANSITIONS JobRunStatus.PENDING = [JobRunStatus.RUNNING, JobRunStatus.FAILED]"
| "VALID_RUN_TRANSITIONS JobRunStatus.RUNNING =
     [JobRunStatus.SUCCEEDED, JobRunStatus.FAILED, JobRunStatus.DEAD]"
| "VALID_RUN_TRANSITIONS JobRunStatus.SUCCEEDED = []"
| "VALID_RUN_TRANSITIONS JobRunStatus.FAILED = [JobRunStatus.PENDING, JobRunStatus.DEAD]"
| "VALID_RUN_TRANSITIONS JobRunStatus.DEAD = []"

text \<open>\<open>JobRunStatus(self._run.status)\<close> raises ValueError for a text that is no member's value.\<close>

definition current_state :: "ext \<Rightarrow> run_object \<Rightarrow> exn + JobRunStatus" where
  "current_state X run =
     (case JobRunStatus_of (ro_status run) of
        None \<Rightarrow> Inl (ValueError (x_repr X (JStr (ro_status run)) @ '' is not a valid JobRunStatus''))
      | Some st \<Rightarrow> Inr st)"

definition can_transition_to :: "ext \<Rightarrow> run_object \<Rightarrow> JobRunStatus \<Rightarrow> exn + bool" where
  "can_transition_to X run target =
     and_then (current_state X run) (\<lambda>st. Inr (target \<in> set (VALID_RUN_TRANSITIONS st)))"

definition transition_to ::
  "ext \<Rightarrow> run_object \<Rightarrow> JobRunStatus \<Rightarrow> string option \<Rightarrow> exn + run_object" where
  "transition_to X run target error_message =
     and_then (can_transition_to X run target) (\<lambda>ok.
       if \<not> ok then Inl (InvalidJobStateError (ro_status run) (run_status_value target))
       else
         let run' = run\<lparr>ro_status := run_status_value target\<rparr> in
         Inr (case error_message of
                Some (c # cs) \<Rightarrow>
                  if target \<in> {JobRunStatus.FAILED, JobRunStatus.DEAD}
                  then run'\<lparr>ro_error_message := Some (truncate_error (c # cs))\<rparr> else run'
              | _ \<Rightarrow> run'))"

definition assert_in_state :: "ext \<Rightarrow> run_object \<Rightarrow> JobRunStatus list \<Rightarrow> exn + unit" where
  "assert_in_state X run allowed_states =
     and_then (current_state X run) (\<lambda>st.
       if st \<notin> set allowed_states
       then Inl (InvalidJobStateError (ro_status run)
         (''one of '' @ x_repr X (JArr (map (\<lambda>s. JStr (run_status_value s)) allowed_states))))
       else Inr ())"

section \<open>What a transition does\<close>

lemma current_state_Inr_iff: "current_state X run = Inr st \<longleftrightarrow> ro_status run = run_status_value st"
  by (auto simp: current_state_def JobRunStatus_of_Some_iff split: option.splits)

lemma transition_to_Inr_iff:
  "transition_to X run target msg = Inr run' \<longleftrightarrow>
     (\<exists>st. ro_status run = run_status_value st \<and> target \<in> set (VALID_RUN_TRANSITIONS st)
       \<and> run' = run\<lparr>ro_status := run_status_value target,
                    ro_error_message :=
                      (if target \<in> {JobRunStatus.FAILED, JobRunStatus.DEAD} \<and> msg \<notin> {None, Some []}
                       then map_option truncate_error msg else ro_error_message run)\<rparr>)"
  by (cases run)
    (fastforce simp: transition_to_def can_transition_to_def and_then_Inr_iff current_state_Inr_iff
      Let_def split: option.splits list.splits if_splits)

text \<open>
  The machine applies exactly the transitions of the table. A transition from a valid
  status succeeds precisely when the table lists the target; it then changes the status and,
  for FAILED and DEAD with a non-empty message, the error message cut to 2000 characters, and
  nothing else; otherwise it raises InvalidJobStateError naming both states.
\<close>

theorem transition_to_exact:
  assumes "ro_status run = run_status_value st"
  shows "transition_to X run target msg =
    (if target \<in> set (VALID_RUN_TRANSITIONS st)
     then Inr (run\<lparr>ro_status := run_status_value target,
                   ro_error_message :=
                     (if target \<in> {JobRunStatus.FAILED, JobRunStatus.DEAD} \<and> msg \<notin> {None, Some []}
                      then map_option truncate_error msg else ro_error_message run)\<rparr>)
     else Inl (InvalidJobStateError (run_status_value st) (run_status_value target)))"
proof (cases "target \<in> set (VALID_RUN_TRANSITIONS st)")
  case True
  with assms show ?thesis by (simp only: transition_to_Inr_iff if_True) blast
next
  case False
  moreover have "can_transition_to X run target = Inr False"
    using False assms current_state_Inr_iff [of X run st] by (simp add: can_transition_to_def)
  ultimately show ?thesis using assms by (simp add: transition_to_def)
qed

theorem transition_to_exact_witness:
  "transition_to example_ext \<lparr>ro_id = 1, ro_attempt = 1, ro_status = ''RUNNING'', ro_error_message = None\<rparr>
       JobRunStatus.DEAD (Some ''boom'')
     = Inr \<lparr>ro_id = 1, ro_attempt = 1, ro_status = ''DEAD'', ro_error_message = Some ''boom''\<rparr>"
  using transition_to_exact [of "\<lparr>ro_id = 1, ro_attempt = 1, ro_status = ''RUNNING'',
      ro_error_message = None\<rparr>" JobRunStatus.RUNNING example_ext JobRunStatus.DEAD "Some ''boom''"]
  by (simp add: truncate_error_def ERROR_MESSAGE_MAX_LEN_def)

section \<open>Sequences of transitions\<close>

text \<open>One transition applied by some caller, with some message.\<close>

inductive run_moves :: "ext \<Rightarrow> run_object \<Rightarrow> run_object \<Rightarrow> bool" for X where
  applied: "transition_to X run target msg = Inr run' \<Longrightarrow> run_moves X run run'"

inductive_simps run_moves_iff: "run_moves X run run'"

text \<open>The runs of a machine started in PENDING: the status is always a valid one, identity and
  attempt never change, and an error message is never longer than the column allows.\<close>

definition run_object_ok :: "uuid \<Rightarrow> int \<Rightarrow> run_object \<Rightarrow> bool" where
  "run_object_ok i a run \<longleftrightarrow>
     ro_id run = i \<and> ro_attempt run = a \<and> JobRunStatus_of (ro_status run) \<noteq> None
   \<and> (case ro_error_message run of None \<Rightarrow> True | Some m \<Rightarrow> length m \<le> ERROR_MESSAGE_MAX_LEN)"

definition fresh_run :: "uuid \<Rightarrow> int \<Rightarrow> run_object \<Rightarrow> bool" where
  "fresh_run i a run \<longleftrightarrow>
     run = \<lparr>ro_id = i, ro_attempt = a, ro_status = ''PENDING'', ro_error_message = None\<rparr>"

interpretation machine: inductive_invariant "fresh_run i a" "run_moves X" "run_object_ok i a"
proof
  fix run assume "fresh_run i a run"
  then show "run_object_ok i a run"
    using JobRunStatus_of_value [of JobRunStatus.PENDING]
    by (simp add: fresh_run_def run_object_ok_def)
next
  fix run run' assume ok: "run_object_ok i a run" and "run_moves X run run'"
  then show "run_object_ok i a run'"
    using length_truncate_error
    by (auto simp: run_moves_iff transition_to_Inr_iff run_object_ok_def split: option.splits)
qed

text \<open>
  C37: along every sequence of transitions the machine permits from a fresh run, the status
  stays one of the five, identity and attempt number are never touched and a stored error
  message fits its limit; and a run that has SUCCEEDED or is DEAD is never moved again.
\<close>

theorem machine_runs_stay_valid:
  assumes "fresh_run i a run" and "(run_moves X)\<^sup>*\<^sup>* run run'"
  shows "run_object_ok i a run'
    \<and> (ro_status run' \<in> {''SUCCEEDED'', ''DEAD''} \<longrightarrow> \<not> run_moves X run' run'')"
proof
  show "run_object_ok i a run'" using assms by (rule machine.inv_reachable)
  have "VALID_RUN_TRANSITIONS st = []" if "run_status_value st \<in> {''SUCCEEDED'', ''DEAD''}" for st
    using that by (cases st) auto
  then show "ro_status run' \<in> {''SUCCEEDED'', ''DEAD''} \<longrightarrow> \<not> run_moves X run' run''"
    by (fastforce simp: run_moves_iff transition_to_Inr_iff)
qed

theorem machine_runs_stay_valid_witness:
  "run_object_ok 1 1 \<lparr>ro_id = 1, ro_attempt = 1, ro_status = ''RUNNING'', ro_error_message = None\<rparr>"
proof -
  let ?p = "\<lparr>ro_id = 1, ro_attempt = 1, ro_status = ''PENDING'', ro_error_message = None\<rparr>"
  let ?r = "\<lparr>ro_id = 1, ro_attempt = 1, ro_status = ''RUNNING'', ro_error_message = None\<rparr>"
  have "transition_to example_ext ?p JobRunStatus.RUNNING None = Inr ?r"
    unfolding transition_to_Inr_iff by (intro exI [of _ JobRunStatus.PENDING]) simp
  then have "run_moves example_ext ?p ?r" by (rule applied)
  then have "(run_moves example_ext)\<^sup>*\<^sup>* ?p ?r" by (rule r_into_rtranclp)
  then show ?thesis
    using machine_runs_stay_valid [of 1 1 ?p example_ext ?r ?r] by (simp add: fresh_run_def)
qed

end
