(* ===== verification/Schema.thy ===== *)
theory Schema
  imports Domain
begin

text \<open>
  The tables of \<open>app/infrastructure/db/models.py\<close> as records, the database as the five tables,
  and the statements the program sends to them: bulk updates by condition (with the
  \<open>updated_at\<close> trigger of the migrations on subscriptions and jobs), and inserts that enforce
  the declared primary keys, unique constraints and foreign keys. \<open>db_ok\<close> is what PostgreSQL
  guarantees of every committed state; the lemmas show that each statement form keeps it.
  Column widths of texts and integers are not modelled.
\<close>

section \<open>Rows\<close>

record Subscription =
  s_id :: uuid
  s_name :: string
  s_description :: "string option"
  s_cron_expression :: string
  s_timezone :: string
  s_next_fire_at :: "datetime option"
  s_payment_config :: json
  s_retry_policy :: json
  s_status :: SubscriptionStatus
  s_consecutive_failures :: int
  s_paused_at :: "datetime option"
  s_created_at :: datetime
  s_updated_at :: datetime

record ScheduledJob =
  j_id :: uuid
  j_subscription_id :: uuid
  j_scheduled_for :: datetime
  j_fingerprint :: string
  j_depends_on :: "string list"
  j_status :: JobStatus
  j_created_by_epoch :: int
  j_created_at :: datetime
  j_updated_at :: datetime

record JobRun =
  r_id :: uuid
  r_job_id :: uuid
  r_attempt :: int
  r_worker_id :: "string option"
  r_claimed_at :: "datetime option"
  r_lock_expires_at :: "datetime option"
  r_status :: JobRunStatus
  r_retry_after :: "datetime option"
  r_bunq_payment_id :: "string option"
  r_error_message :: "string option"
  r_created_at :: datetime
  r_started_at :: "datetime option"
  r_finished_at :: "datetime option"

record IdempotencyKeyRecord =
  k_key :: string
  k_job_run_id :: uuid
  k_attempt :: int
  k_bunq_payment_id :: "string option"
  k_external_provider :: string
  k_response_snapshot :: "json option"
  k_created_at :: datetime

record DeadLetterEntry =
  d_id :: uuid
  d_job_run_id :: uuid
  d_job_id :: uuid
  d_subscription_id :: uuid
  d_failure_reason :: string
  d_error_class :: "string option"
  d_payload_snapshot :: json
  d_created_at :: datetime
  d_resolved_at :: "datetime option"
  d_resolved_by :: "string option"

text \<open>The database: the tables, and the value of \<open>now()\<close> for the statement at hand.\<close>

record db =
  subscriptions :: "Subscription list"
  scheduled_jobs :: "ScheduledJob list"
  job_runs :: "JobRun list"
  idempotency_keys :: "IdempotencyKeyRecord list"
  dead_letter_queue :: "DeadLetterEntry list"
  db_now :: datetime

definition empty_db :: "datetime \<Rightarrow> db" where
  "empty_db now = \<lparr>subscriptions = [], scheduled_jobs = [], job_runs = [], idempotency_keys = [],
     dead_letter_queue = [], db_now = now\<rparr>"

section \<open>Unique keys and foreign keys\<close>

abbreviation job_window :: "ScheduledJob \<Rightarrow> uuid \<times> datetime" where
  "job_window j \<equiv> (j_subscription_id j, j_scheduled_for j)"

abbreviation run_slot :: "JobRun \<Rightarrow> uuid \<times> int" where
  "run_slot r \<equiv> (r_job_id r, r_attempt r)"

abbreviation key_slot :: "IdempotencyKeyRecord \<Rightarrow> uuid \<times> int" where
  "key_slot k \<equiv> (k_job_run_id k, k_attempt k)"

definition unique_ok :: "db \<Rightarrow> bool" where
  "unique_ok d \<longleftrightarrow>
     distinct (map s_id (subscriptions d))
   \<and> distinct (map j_id (scheduled_jobs d))
   \<and> distinct (map j_fingerprint (scheduled_jobs d))
   \<and> distinct (map job_window (scheduled_jobs d))
   \<and> distinct (map r_id (job_runs d))
   \<and> distinct (map run_slot (job_runs d))
   \<and> distinct (map k_key (idempotency_keys d))
   \<and> distinct (map key_slot (idempotency_keys d))
   \<and> distinct (map d_id (dead_letter_queue d))"

definition foreign_ok :: "db \<Rightarrow> bool" where
  "foreign_ok d \<longleftrightarrow>
     j_subscription_id ` set (scheduled_jobs d) \<subseteq> s_id ` set (subscriptions d)
   \<and> r_job_id ` set (job_runs d) \<subseteq> j_id ` set (scheduled_jobs d)
   \<and> k_job_run_id ` set (idempotency_keys d) \<subseteq> r_id ` set (job_runs d)
   \<and> d_job_run_id ` set (dead_letter_queue d) \<subseteq> r_id ` set (job_runs d)"

definition db_ok :: "db \<Rightarrow> bool" where
  "db_ok d \<longleftrightarrow> unique_ok d \<and> foreign_ok d"

lemmas db_ok_defs = db_ok_def unique_ok_def foreign_ok_def

lemma db_ok_empty [simp]: "db_ok (empty_db now)"
  by (simp add: db_ok_defs empty_db_def)

lemma db_ok_run_job: "db_ok d \<Longrightarrow> r \<in> set (job_runs d) \<Longrightarrow> r_job_id r \<in> j_id ` set (scheduled_jobs d)"
  by (auto simp: db_ok_defs)

lemma db_ok_job_sub:
  "db_ok d \<Longrightarrow> j \<in> set (scheduled_jobs d) \<Longrightarrow> j_subscription_id j \<in> s_id ` set (subscriptions d)"
  by (auto simp: db_ok_defs)

lemma db_ok_run_eq:
  "db_ok d \<Longrightarrow> r \<in> set (job_runs d) \<Longrightarrow> r' \<in> set (job_runs d) \<Longrightarrow> r_id r = r_id r' \<Longrightarrow> r = r'"
  by (auto simp: db_ok_defs distinct_map dest: inj_onD)

lemma db_ok_slot_eq:
  "db_ok d \<Longrightarrow> r \<in> set (job_runs d) \<Longrightarrow> r' \<in> set (job_runs d) \<Longrightarrow> run_slot r = run_slot r' \<Longrightarrow> r = r'"
  by (auto simp: db_ok_defs distinct_map dest: inj_onD)

section \<open>Bulk updates\<close>

definition update_subscriptions ::
  "(Subscription \<Rightarrow> bool) \<Rightarrow> (Subscription \<Rightarrow> Subscription) \<Rightarrow> db \<Rightarrow> db" where
  "update_subscriptions p f d = d\<lparr>subscriptions :=
     update_where p (\<lambda>s. (f s)\<lparr>s_updated_at := db_now d\<rparr>) (subscriptions d)\<rparr>"

definition update_jobs :: "(ScheduledJob \<Rightarrow> bool) \<Rightarrow> (ScheduledJob \<Rightarrow> ScheduledJob) \<Rightarrow> db \<Rightarrow> db" where
  "update_jobs p f d = d\<lparr>scheduled_jobs :=
     update_where p (\<lambda>j. (f j)\<lparr>j_updated_at := db_now d\<rparr>) (scheduled_jobs d)\<rparr>"

definition update_runs :: "(JobRun \<Rightarrow> bool) \<Rightarrow> (JobRun \<Rightarrow> JobRun) \<Rightarrow> db \<Rightarrow> db" where
  "update_runs p f d = d\<lparr>job_runs := update_where p f (job_runs d)\<rparr>"

definition update_dlq :: "(DeadLetterEntry \<Rightarrow> bool) \<Rightarrow> (DeadLetterEntry \<Rightarrow> DeadLetterEntry) \<Rightarrow> db \<Rightarrow> db" where
  "update_dlq p f d = d\<lparr>dead_letter_queue := update_where p f (dead_letter_queue d)\<rparr>"

lemma update_subscriptions_simps [simp]:
  "subscriptions (update_subscriptions p f d) =
     update_where p (\<lambda>s. (f s)\<lparr>s_updated_at := db_now d\<rparr>) (subscriptions d)"
  "scheduled_jobs (update_subscriptions p f d) = scheduled_jobs d"
  "job_runs (update_subscriptions p f d) = job_runs d"
  "idempotency_keys (update_subscriptions p f d) = idempotency_keys d"
  "dead_letter_queue (update_subscriptions p f d) = dead_letter_queue d"
  "db_now (update_subscriptions p f d) = db_now d"
  by (simp_all add: update_subscriptions_def)

lemma update_jobs_simps [simp]:
  "scheduled_jobs (update_jobs p f d) =
     update_where p (\<lambda>j. (f j)\<lparr>j_updated_at := db_now d\<rparr>) (scheduled_jobs d)"
  "subscriptions (update_jobs p f d) = subscriptions d"
  "job_runs (update_jobs p f d) = job_runs d"
  "idempotency_keys (update_jobs p f d) = idempotency_keys d"
  "dead_letter_queue (update_jobs p f d) = dead_letter_queue d"
  "db_now (update_jobs p f d) = db_now d"
  by (simp_all add: update_jobs_def)

lemma update_runs_simps [simp]:
  "job_runs (update_runs p f d) = update_where p f (job_runs d)"
  "subscriptions (update_runs p f d) = subscriptions d"
  "scheduled_jobs (update_runs p f d) = scheduled_jobs d"
  "idempotency_keys (update_runs p f d) = idempotency_keys d"
  "dead_letter_queue (update_runs p f d) = dead_letter_queue d"
  "db_now (update_runs p f d) = db_now d"
  by (simp_all add: update_runs_def)

lemma update_dlq_simps [simp]:
  "dead_letter_queue (update_dlq p f d) = update_where p f (dead_letter_queue d)"
  "subscriptions (update_dlq p f d) = subscriptions d"
  "scheduled_jobs (update_dlq p f d) = scheduled_jobs d"
  "job_runs (update_dlq p f d) = job_runs d"
  "idempotency_keys (update_dlq p f d) = idempotency_keys d"
  "db_now (update_dlq p f d) = db_now d"
  by (simp_all add: update_dlq_def)

lemma db_ok_update_subscriptions:
  assumes "db_ok d" and "\<And>s. s_id (f s) = s_id s"
  shows "db_ok (update_subscriptions p f d)"
  using assms by (simp add: db_ok_defs map_update_where image_update_where)

lemma db_ok_update_jobs:
  assumes "db_ok d" and "\<And>j. j_id (f j) = j_id j" and "\<And>j. job_window (f j) = job_window j"
    and "\<And>j. j_fingerprint (f j) = j_fingerprint j"
  shows "db_ok (update_jobs p f d)"
proof -
  have "j_subscription_id (f j) = j_subscription_id j" for j using assms(3) [of j] by simp
  with assms show ?thesis by (simp add: db_ok_defs map_update_where image_update_where)
qed

lemma db_ok_update_runs:
  assumes "db_ok d" and "\<And>r. r_id (f r) = r_id r" and "\<And>r. run_slot (f r) = run_slot r"
  shows "db_ok (update_runs p f d)"
proof -
  have "r_job_id (f r) = r_job_id r" for r using assms(3) [of r] by simp
  with assms show ?thesis by (simp add: db_ok_defs map_update_where image_update_where)
qed

lemma db_ok_update_dlq:
  assumes "db_ok d" and "\<And>e. d_id (f e) = d_id e" and "\<And>e. d_job_run_id (f e) = d_job_run_id e"
  shows "db_ok (update_dlq p f d)"
  using assms by (simp add: db_ok_defs map_update_where image_update_where)

lemmas db_ok_updates = db_ok_update_subscriptions db_ok_update_jobs db_ok_update_runs
  db_ok_update_dlq

lemma db_ok_clock [simp]: "db_ok (d\<lparr>db_now := t\<rparr>) = db_ok d"
  by (simp add: db_ok_defs)

section \<open>Inserts\<close>

text \<open>\<open>insert_run\<close> carries the arbiter \<open>uq_run_per_attempt\<close>, \<open>insert_job\<close> the arbiter
  \<open>uq_job_fingerprint\<close> and \<open>insert_key\<close> the arbiter \<open>uq_idempotency_run_attempt\<close>; the plain
  inserts have none.\<close>

definition insert_run :: "JobRun \<Rightarrow> db \<Rightarrow> exn + bool \<times> db" where
  "insert_run row d =
     and_then (insert_row run_slot
         (\<lambda>t r. r_id r \<in> r_id ` set t \<or> r_job_id r \<notin> j_id ` set (scheduled_jobs d))
         IntegrityError row (job_runs d))
       (\<lambda>(b, t). Inr (b, d\<lparr>job_runs := t\<rparr>))"

definition insert_job :: "ScheduledJob \<Rightarrow> db \<Rightarrow> exn + bool \<times> db" where
  "insert_job row d =
     and_then (insert_row j_fingerprint
         (\<lambda>t j. j_id j \<in> j_id ` set t \<or> job_window j \<in> job_window ` set t
           \<or> j_subscription_id j \<notin> s_id ` set (subscriptions d))
         IntegrityError row (scheduled_jobs d))
       (\<lambda>(b, t). Inr (b, d\<lparr>scheduled_jobs := t\<rparr>))"

definition insert_key :: "IdempotencyKeyRecord \<Rightarrow> db \<Rightarrow> exn + bool \<times> db" where
  "insert_key row d =
     and_then (insert_row key_slot
         (\<lambda>t k. k_key k \<in> k_key ` set t \<or> k_job_run_id k \<notin> r_id ` set (job_runs d))
         IntegrityError row (idempotency_keys d))
       (\<lambda>(b, t). Inr (b, d\<lparr>idempotency_keys := t\<rparr>))"

definition insert_dlq :: "DeadLetterEntry \<Rightarrow> db \<Rightarrow> exn + db" where
  "insert_dlq row d =
     (if d_id row \<in> d_id ` set (dead_letter_queue d) \<or> d_job_run_id row \<notin> r_id ` set (job_runs d)
      then Inl IntegrityError else Inr (d\<lparr>dead_letter_queue := dead_letter_queue d @ [row]\<rparr>))"

definition insert_subscription :: "Subscription \<Rightarrow> db \<Rightarrow> exn + db" where
  "insert_subscription row d =
     (if s_id row \<in> s_id ` set (subscriptions d) then Inl IntegrityError
      else Inr (d\<lparr>subscriptions := subscriptions d @ [row]\<rparr>))"

lemma insert_run_Inr_iff:
  "insert_run row d = Inr (b, d') \<longleftrightarrow>
     (if run_slot row \<in> run_slot ` set (job_runs d) then \<not> b \<and> d' = d
      else b \<and> r_id row \<notin> r_id ` set (job_runs d) \<and> r_job_id row \<in> j_id ` set (scheduled_jobs d)
        \<and> d' = d\<lparr>job_runs := job_runs d @ [row]\<rparr>)"
  by (auto simp: insert_run_def insert_row_def)

lemma insert_job_Inr_iff:
  "insert_job row d = Inr (b, d') \<longleftrightarrow>
     (if j_fingerprint row \<in> j_fingerprint ` set (scheduled_jobs d) then \<not> b \<and> d' = d
      else b \<and> j_id row \<notin> j_id ` set (scheduled_jobs d)
        \<and> job_window row \<notin> job_window ` set (scheduled_jobs d)
        \<and> j_subscription_id row \<in> s_id ` set (subscriptions d)
        \<and> d' = d\<lparr>scheduled_jobs := scheduled_jobs d @ [row]\<rparr>)"
  by (auto simp: insert_job_def insert_row_def)

lemma insert_key_Inr_iff:
  "insert_key row d = Inr (b, d') \<longleftrightarrow>
     (if key_slot row \<in> key_slot ` set (idempotency_keys d) then \<not> b \<and> d' = d
      else b \<and> k_key row \<notin> k_key ` set (idempotency_keys d) \<and> k_job_run_id row \<in> r_id ` set (job_runs d)
        \<and> d' = d\<lparr>idempotency_keys := idempotency_keys d @ [row]\<rparr>)"
  by (auto simp: insert_key_def insert_row_def)

lemma insert_dlq_Inr_iff:
  "insert_dlq row d = Inr d' \<longleftrightarrow>
     d_id row \<notin> d_id ` set (dead_letter_queue d) \<and> d_job_run_id row \<in> r_id ` set (job_runs d)
   \<and> d' = d\<lparr>dead_letter_queue := dead_letter_queue d @ [row]\<rparr>"
  by (auto simp: insert_dlq_def)

lemma insert_subscription_Inr_iff:
  "insert_subscription row d = Inr d' \<longleftrightarrow>
     s_id row \<notin> s_id ` set (subscriptions d) \<and> d' = d\<lparr>subscriptions := subscriptions d @ [row]\<rparr>"
  by (auto simp: insert_subscription_def)

lemmas insert_iffs = insert_run_Inr_iff insert_job_Inr_iff insert_key_Inr_iff insert_dlq_Inr_iff
  insert_subscription_Inr_iff

lemma db_ok_insert_run: "db_ok d \<Longrightarrow> insert_run row d = Inr (b, d') \<Longrightarrow> db_ok d'"
  by (auto simp: db_ok_defs insert_run_Inr_iff split: if_splits)

lemma db_ok_insert_job: "db_ok d \<Longrightarrow> insert_job row d = Inr (b, d') \<Longrightarrow> db_ok d'"
  by (auto simp: db_ok_defs insert_job_Inr_iff split: if_splits)

lemma db_ok_insert_key: "db_ok d \<Longrightarrow> insert_key row d = Inr (b, d') \<Longrightarrow> db_ok d'"
  by (auto simp: db_ok_defs insert_key_Inr_iff split: if_splits)

lemma db_ok_insert_dlq: "db_ok d \<Longrightarrow> insert_dlq row d = Inr d' \<Longrightarrow> db_ok d'"
  by (auto simp: db_ok_defs insert_dlq_Inr_iff)

lemma db_ok_insert_subscription: "db_ok d \<Longrightarrow> insert_subscription row d = Inr d' \<Longrightarrow> db_ok d'"
  by (auto simp: db_ok_defs insert_subscription_Inr_iff)

lemmas db_ok_inserts = db_ok_insert_run db_ok_insert_job db_ok_insert_key db_ok_insert_dlq
  db_ok_insert_subscription

section \<open>The three insert-once gates\<close>

interpretation run_gate: insert_gate
  "\<lambda>k d. k \<in> run_slot ` set (job_runs d)" insert_run run_slot
  by unfold_locales (auto simp: insert_run_def insert_row_def insert_run_Inr_iff split: if_splits)

interpretation job_gate: insert_gate
  "\<lambda>k d. k \<in> j_fingerprint ` set (scheduled_jobs d)" insert_job j_fingerprint
  by unfold_locales (auto simp: insert_job_def insert_row_def insert_job_Inr_iff split: if_splits)

interpretation key_gate: insert_gate
  "\<lambda>k d. k \<in> key_slot ` set (idempotency_keys d)" insert_key key_slot
  by unfold_locales (auto simp: insert_key_def insert_row_def insert_key_Inr_iff split: if_splits)

section \<open>Rows as the code first writes them\<close>

text \<open>A run as \<open>pg_insert(JobRun)\<close> creates it: PENDING, the given attempt and \<open>retry_after\<close>, all
  other columns NULL, \<open>created_at\<close> from the server default.\<close>

definition new_run :: "uuid \<Rightarrow> uuid \<Rightarrow> int \<Rightarrow> datetime option \<Rightarrow> datetime \<Rightarrow> JobRun" where
  "new_run i job attempt retry_after created =
     \<lparr>r_id = i, r_job_id = job, r_attempt = attempt, r_worker_id = None, r_claimed_at = None,
      r_lock_expires_at = None, r_status = JobRunStatus.PENDING, r_retry_after = retry_after,
      r_bunq_payment_id = None, r_error_message = None, r_created_at = created,
      r_started_at = None, r_finished_at = None\<rparr>"

lemma new_run_simps [simp]:
  "r_id (new_run i j a t c) = i"
  "r_job_id (new_run i j a t c) = j"
  "r_attempt (new_run i j a t c) = a"
  "r_status (new_run i j a t c) = JobRunStatus.PENDING"
  "r_retry_after (new_run i j a t c) = t"
  "r_created_at (new_run i j a t c) = c"
  by (simp_all add: new_run_def)

text \<open>\<open>scalar_one_or_none()\<close> of a result set.\<close>

definition scalar_one_or_none :: "'a list \<Rightarrow> exn + 'a option" where
  "scalar_one_or_none xs =
     (case xs of [] \<Rightarrow> Inr None | [x] \<Rightarrow> Inr (Some x) | _ \<Rightarrow> Inl MultipleResultsFound)"

text \<open>The order key of a nullable timestamp the WHERE clause has already required.\<close>

definition time_key :: "datetime option \<Rightarrow> datetime" where
  "time_key t = (case t of None \<Rightarrow> 0 | Some x \<Rightarrow> x)"

lemma filter_unique:
  assumes "distinct (map f t)" and "x \<in> set t" and "\<And>y. P y \<longleftrightarrow> f y = f x"
  shows "filter P t = [x]"
  using assms
proof (induction t)
  case (Cons a t)
  show ?case
  proof (cases "a = x")
    case True
    with Cons.prems(1) have "f x \<notin> f ` set t" by simp
    then have "filter P t = []" by (metis (no_types, lifting) Cons.prems(3) filter_empty_conv image_eqI)
    moreover have "P a" using True Cons.prems(3) by blast
    ultimately show ?thesis using True by simp
  next
    case False
    with Cons.prems(1,2) have x: "x \<in> set t" "f a \<noteq> f x" by (auto simp: rev_image_eqI)
    then have "\<not> P a" using Cons.prems(3) by blast
    moreover have "filter P t = [x]"
      using Cons.prems(1) x(1) by (intro Cons.IH Cons.prems(3)) simp_all
    ultimately show ?thesis by simp
  qed
qed simp

lemma scalar_one_or_none_simps [simp]:
  "scalar_one_or_none [] = Inr None"
  "scalar_one_or_none [x] = Inr (Some x)"
  "scalar_one_or_none (x # y # zs) = Inl MultipleResultsFound"
  by (simp_all add: scalar_one_or_none_def)

lemma scalar_one_or_none_in:
  "scalar_one_or_none xs = Inr (Some x) \<Longrightarrow> x \<in> set xs"
  by (auto simp: scalar_one_or_none_def split: list.splits)

section \<open>A concrete database\<close>

text \<open>One ACTIVE subscription that is due, its READY job and the job's first run; the values the
  worked examples start from.\<close>

definition example_sub :: Subscription where
  "example_sub = \<lparr>s_id = 7, s_name = ''rent'', s_description = None, s_cron_expression = ''0 9 1 * *'',
     s_timezone = ''UTC'', s_next_fire_at = Some 100, s_payment_config = JObj example_config_fields,
     s_retry_policy = JObj [(''max_attempts'', JInt 2), (''jitter'', JBool False)],
     s_status = SubscriptionStatus.ACTIVE, s_consecutive_failures = 0, s_paused_at = None,
     s_created_at = 0, s_updated_at = 0\<rparr>"

definition example_job :: ScheduledJob where
  "example_job = \<lparr>j_id = 5, j_subscription_id = 7, j_scheduled_for = 100, j_fingerprint = ''f5'',
     j_depends_on = [], j_status = JobStatus.READY, j_created_by_epoch = 1, j_created_at = 0,
     j_updated_at = 0\<rparr>"

definition example_run :: JobRun where
  "example_run = new_run 1 5 1 None 0"

definition example_db :: db where
  "example_db = \<lparr>subscriptions = [example_sub], scheduled_jobs = [example_job], job_runs = [example_run],
     idempotency_keys = [], dead_letter_queue = [], db_now = 200\<rparr>"

lemmas example_defs = example_sub_def example_job_def example_run_def example_db_def new_run_def

lemma db_ok_example [simp]: "db_ok example_db"
  by (simp add: example_defs db_ok_defs)

end
