(* ===== verification/BunqClient.thy ===== *)
theory BunqClient
  imports Domain Settings
begin

text \<open>
  \<open>app/infrastructure/bunq/client.py\<close>: the request \<open>create_payment\<close> builds, the classification
  of what comes back into the exception taxonomy, \<open>get_payment\<close>, and the parameter lists of the
  constructor and of \<open>create_payment\<close> with Python's rule for binding a call to them. The HTTP
  exchange is a parameter: a function from the request to what \<open>httpx\<close> gave back.
\<close>

section \<open>Access into JSON documents\<close>

text \<open>\<open>v[k]\<close> for a text key, \<open>v[0]\<close>, and \<open>v.get(k, default)\<close>.\<close>

fun py_getkey :: "string \<Rightarrow> json \<Rightarrow> exn + json" where
  "py_getkey k (JObj kvs) = (case map_of kvs k of None \<Rightarrow> Inl KeyError | Some v \<Rightarrow> Inr v)"
| "py_getkey k _ = Inl TypeError"

fun py_getfirst :: "json \<Rightarrow> exn + json" where
  "py_getfirst (JArr []) = Inl IndexError"
| "py_getfirst (JArr (v # vs)) = Inr v"
| "py_getfirst (JStr []) = Inl IndexError"
| "py_getfirst (JStr (c # cs)) = Inr (JStr [c])"
| "py_getfirst (JObj kvs) = Inl KeyError"
| "py_getfirst _ = Inl TypeError"

fun py_get :: "string \<Rightarrow> json \<Rightarrow> json \<Rightarrow> exn + json" where
  "py_get k dflt (JObj kvs) = Inr (case map_of kvs k of None \<Rightarrow> dflt | Some v \<Rightarrow> v)"
| "py_get k dflt _ = Inl AttributeError"

section \<open>Decimal rendering\<close>

text \<open>\<open>str(Decimal)\<close>: plain notation when the exponent is not positive and the number not tiny,
  scientific notation otherwise.\<close>

definition dec_str :: "decimal \<Rightarrow> string" where
  "dec_str d =
     (case d of
        DInf neg \<Rightarrow> (if neg then ''-'' else []) @ ''Infinity''
      | DNaN neg \<Rightarrow> (if neg then ''-'' else []) @ ''NaN''
      | DFin neg coeff e \<Rightarrow>
          (let ds = nat_str coeff; n = int (length ds); left = e + n;
               dot = (if e \<le> 0 \<and> left > -6 then left else 1);
               ip = (if dot \<le> 0 then ''0'' else if n \<le> dot then ds @ replicate (nat (dot - n)) (CHR ''0'')
                     else take (nat dot) ds);
               fp = (if dot \<le> 0 then ''.'' @ replicate (nat (- dot)) (CHR ''0'') @ ds
                     else if n \<le> dot then [] else ''.'' @ drop (nat dot) ds);
               ep = (if left = dot then []
                     else ''E'' @ (if left - dot < 0 then [] else ''+'') @ int_str (left - dot))
           in (if neg then ''-'' else []) @ ip @ fp @ ep))"

section \<open>Binding a call to a parameter list\<close>

text \<open>Parameters (without \<open>self\<close>): those that may be passed by position, and the keyword-only
  ones; each with whether it is required.\<close>

record signature =
  sig_positional :: "(string \<times> bool) list"
  sig_keyword_only :: "(string \<times> bool) list"

definition py_bind :: "signature \<Rightarrow> nat \<Rightarrow> string list \<Rightarrow> exn + unit" where
  "py_bind sg npos kws =
     (let names = map fst (sig_positional sg);
          filled = take npos names;
          acceptable = drop npos names @ map fst (sig_keyword_only sg);
          required = map fst (filter snd (sig_positional sg @ sig_keyword_only sg))
      in if npos > length names then Inl TypeError
         else if \<exists>k \<in> set kws. k \<notin> set acceptable then Inl TypeError
         else if \<exists>p \<in> set required. p \<notin> set filled \<union> set kws then Inl TypeError
         else Inr ())"

definition BunqClient_init_sig :: signature where
  "BunqClient_init_sig = \<lparr>sig_positional = [], sig_keyword_only = []\<rparr>"

definition create_payment_sig :: signature where
  "create_payment_sig = \<lparr>sig_positional = [],
     sig_keyword_only = [(''idempotency_key'', True), (''amount'', True), (''currency'', True),
       (''counterparty_iban'', True), (''counterparty_name'', True), (''description'', True),
       (''monetary_account_id'', False)]\<rparr>"

section \<open>Requests and responses\<close>

record payment_request =
  pr_endpoint :: string
  pr_amount :: string
  pr_currency :: string
  pr_iban :: string
  pr_name :: string
  pr_description :: json
  pr_request_id :: string

text \<open>What the HTTP exchange yields: a response (status, text, and the parsed body unless it is
  not JSON), one of the network errors the code catches, or another exception.\<close>

datatype http_outcome =
    HttpResponse int string "json option"
  | HttpNetworkError string
  | HttpOtherError exn

definition TRANSIENT_STATUS_CODES :: "int list" where
  "TRANSIENT_STATUS_CODES = [429, 500, 502, 503, 504]"

text \<open>\<open>monetary_account_id or s.BUNQ_MONETARY_ACCOUNT_ID\<close>\<close>

definition account_of :: "Settings \<Rightarrow> json \<Rightarrow> json" where
  "account_of S account = (if py_truthy account then account else JInt (BUNQ_MONETARY_ACCOUNT_ID S))"

definition payment_endpoint :: "ext \<Rightarrow> json \<Rightarrow> string" where
  "payment_endpoint X account = ''/monetary-account/'' @ py_str X account @ ''/payment''"

text \<open>The identifier that is only logged; extracting it can raise all the same.\<close>

definition logged_payment_id :: "json \<Rightarrow> exn + json" where
  "logged_payment_id data =
     and_then (py_get ''Response'' (JArr [JObj []]) data) (\<lambda>rs.
     and_then (py_getfirst rs) (\<lambda>r.
     and_then (py_get ''Id'' (JObj []) r) (\<lambda>i. py_get ''id'' (JStr ''unknown'') i)))"

definition classify_response :: "ext \<Rightarrow> http_outcome \<Rightarrow> exn + json" where
  "classify_response X out =
     (case out of
        HttpNetworkError e \<Rightarrow> Inl (BunqAmbiguousError
          (''Network error calling bunq (payment outcome unknown): '' @ e))
      | HttpOtherError e \<Rightarrow> Inl e
      | HttpResponse status text body \<Rightarrow>
          if status = 200 \<or> status = 201 then
            (case body of None \<Rightarrow> Inl JSONDecodeError
             | Some data \<Rightarrow> and_then (logged_payment_id data) (\<lambda>_. Inr data))
          else if status \<in> set TRANSIENT_STATUS_CODES then
            Inl (BunqTransientError
              (''Transient bunq error '' @ int_str status @ '': '' @ take 200 text))
          else Inl (BunqPaymentError status (take 500 text)))"

definition create_payment ::
  "ext \<Rightarrow> Settings \<Rightarrow> (payment_request \<Rightarrow> http_outcome) \<Rightarrow> string \<Rightarrow> decimal \<Rightarrow> string \<Rightarrow> string
     \<Rightarrow> string \<Rightarrow> json \<Rightarrow> json \<Rightarrow> exn + json" where
  "create_payment X S post idempotency_key amount currency iban name description account =
     classify_response X (post
       \<lparr>pr_endpoint = payment_endpoint X (account_of S account),
        pr_amount = dec_str amount, pr_currency = currency, pr_iban = iban, pr_name = name,
        pr_description = description, pr_request_id = idempotency_key\<rparr>)"

definition get_payment ::
  "ext \<Rightarrow> Settings \<Rightarrow> (string \<Rightarrow> http_outcome) \<Rightarrow> string \<Rightarrow> json \<Rightarrow> exn + json" where
  "get_payment X S get payment_id account =
     (case get (payment_endpoint X (account_of S account) @ ''/'' @ payment_id) of
        HttpNetworkError e \<Rightarrow> Inl (OtherException 0)
      | HttpOtherError e \<Rightarrow> Inl e
      | HttpResponse status text body \<Rightarrow>
          if status = 200 then (case body of None \<Rightarrow> Inl JSONDecodeError | Some data \<Rightarrow> Inr data)
          else if status \<in> set TRANSIENT_STATUS_CODES then
            Inl (BunqTransientError
              (''Transient error fetching payment '' @ payment_id @ '': '' @ int_str status))
          else Inl (BunqPaymentError status (take 500 text)))"

section \<open>The exception taxonomy\<close>

text \<open>What the status and the body say of a payment request, apart from message texts.\<close>

datatype verdict = Accepted json | Malformed | Transient | Rejected int | Ambiguous | Unclassified

fun verdict_of :: "exn + json \<Rightarrow> verdict" where
  "verdict_of (Inr data) = Accepted data"
| "verdict_of (Inl (BunqTransientError _)) = Transient"
| "verdict_of (Inl (BunqPaymentError code _)) = Rejected code"
| "verdict_of (Inl (BunqAmbiguousError _)) = Ambiguous"
| "verdict_of (Inl _) = Unclassified"

lemma logged_payment_id_errors:
  "logged_payment_id data = Inl e \<Longrightarrow> e \<in> {AttributeError, IndexError, KeyError, TypeError}"
proof -
  have get: "e' = AttributeError" if "py_get k dflt v = Inl e'" for k dflt v e'
    using that by (cases "(k, dflt, v)" rule: py_get.cases) auto
  have first: "e' \<in> {IndexError, KeyError, TypeError}" if "py_getfirst v = Inl e'" for v e'
    using that by (cases v rule: py_getfirst.cases) auto
  assume "logged_payment_id data = Inl e"
  then show ?thesis
    unfolding logged_payment_id_def and_then_Inl_iff using get first by blast
qed


lemma BunqClient_init_rejects_settings: "py_bind BunqClient_init_sig 1 [] = Inl TypeError"
  by (simp add: py_bind_def BunqClient_init_sig_def)

lemma create_payment_rejects_config:
  "py_bind create_payment_sig 0 [''payment_config'', ''idempotency_key''] = Inl TypeError"
  by (simp add: py_bind_def create_payment_sig_def)

end
