(* ===== verification/Executor.thy ===== *)
theory Executor
  imports Schema BunqClient
begin

text \<open>
  \<open>app/workers/executor.py\<close>: the batch query, the claim, the execution of a claimed run and the
  transactions it ends in. One definition per database transaction, then \<open>execute_run\<close> as the
  code composes them, then the same execution as single steps (\<open>exec_step\<close>), one transaction or
  external call each, which is what interleaves with other workers; \<open>run_phases_execute_run\<close>
  ties the two. Readings of the clock, random numbers and new UUIDs are inputs; logging, tracing
  and metrics are not modelled.
\<close>

section \<open>Fetching a batch\<close>

definition claimable :: "datetime \<Rightarrow> JobRun \<Rightarrow> bool" where
  "claimable now r \<longleftrightarrow> r_status r = JobRunStatus.PENDING
     \<and> (case r_retry_after r of None \<Rightarrow> True | Some t \<Rightarrow> t \<le> now)"

text \<open>\<open>locked\<close> are the rows other transactions hold at that moment: SKIP LOCKED passes over them.\<close>

definition fetch_pending_run_ids :: "Settings \<Rightarrow> datetime \<Rightarrow> (uuid \<Rightarrow> bool) \<Rightarrow> db \<Rightarrow> uuid list" where
  "fetch_pending_run_ids S now locked d =
     map r_id (select_limit (\<lambda>r. claimable now r \<and> \<not> locked (r_id r)) r_created_at
       (EXECUTOR_BATCH_SIZE S) (job_runs d))"

section \<open>Claiming one run\<close>

datatype claim_result = AlreadyClaimed | JobMissing | SubscriptionMissing | RunClaimed

text \<open>The first transaction of \<open>_process_run\<close>: re-lock the row if it is still PENDING, load job
  and subscription, write RUNNING with the worker and the lock expiry.\<close>

definition claim_run ::
  "Settings \<Rightarrow> string \<Rightarrow> datetime \<Rightarrow> datetime \<Rightarrow> (uuid \<Rightarrow> bool) \<Rightarrow> uuid \<Rightarrow> db \<Rightarrow> claim_result \<times> db" where
  "claim_run S worker t_lock t_start locked run_id d =
     (case find (\<lambda>r. r_id r = run_id \<and> r_status r = JobRunStatus.PENDING \<and> \<not> locked (r_id r)) (job_runs d) of
        None \<Rightarrow> (AlreadyClaimed, d)
      | Some run \<Rightarrow>
          (case get_by j_id (r_job_id run) (scheduled_jobs d) of
             None \<Rightarrow> (JobMissing, d)
           | Some job \<Rightarrow>
               (case get_by s_id (j_subscription_id job) (subscriptions d) of
                  None \<Rightarrow> (SubscriptionMissing, d)
                | Some sub \<Rightarrow>
                    (RunClaimed, update_runs (\<lambda>r. r_id r = r_id run)
                       (\<lambda>r. r\<lparr>r_status := JobRunStatus.RUNNING, r_worker_id := Some worker,
                             r_lock_expires_at := Some (t_lock + EXECUTOR_LOCK_TIMEOUT_S S * 1000000),
                             r_started_at := Some t_start\<rparr>) d))))"

section \<open>The transactions of an execution\<close>

text \<open>The rows \<open>_execute_run\<close> loads and keeps using after its session has closed.\<close>

record snapshot =
  sn_run :: JobRun
  sn_job :: ScheduledJob
  sn_sub :: Subscription

definition load_snapshot :: "uuid \<Rightarrow> db \<Rightarrow> snapshot option" where
  "load_snapshot run_id d =
     (case get_by r_id run_id (job_runs d) of None \<Rightarrow> None
      | Some run \<Rightarrow>
          (case get_by j_id (r_job_id run) (scheduled_jobs d) of None \<Rightarrow> None
           | Some job \<Rightarrow>
               (case get_by s_id (j_subscription_id job) (subscriptions d) of None \<Rightarrow> None
                | Some sub \<Rightarrow> Some \<lparr>sn_run = run, sn_job = job, sn_sub = sub\<rparr>)))"

text \<open>All the jobs found under the listed identifiers are DONE; an identifier no job has is not
  missed.\<close>

definition check_dag_dependencies :: "ext \<Rightarrow> string list \<Rightarrow> db \<Rightarrow> exn + bool" where
  "check_dag_dependencies X depends_on d =
     (case those (map (x_bind_uuid X) depends_on) of
        None \<Rightarrow> Inl DataError
      | Some ids \<Rightarrow> Inr (list_all (\<lambda>j. j_id j \<in> set ids \<longrightarrow> j_status j = JobStatus.DONE) (scheduled_jobs d)))"

definition find_idempotency_key :: "uuid \<Rightarrow> int \<Rightarrow> db \<Rightarrow> exn + IdempotencyKeyRecord option" where
  "find_idempotency_key run_id attempt d =
     scalar_one_or_none (filter (\<lambda>k. k_job_run_id k = run_id \<and> k_attempt k = attempt) (idempotency_keys d))"

definition idempotency_row :: "ext \<Rightarrow> datetime \<Rightarrow> JobRun \<Rightarrow> string option \<Rightarrow> IdempotencyKeyRecord" where
  "idempotency_row X now run pid =
     \<lparr>k_key = IdempotencyKey_for_run X (r_id run) (r_attempt run), k_job_run_id = r_id run,
      k_attempt = r_attempt run, k_bunq_payment_id = pid, k_external_provider = ''bunq'',
      k_response_snapshot = None, k_created_at = now\<rparr>"

lemma key_slot_idempotency_row [simp]: "key_slot (idempotency_row X now run pid) = (r_id run, r_attempt run)"
  by (simp add: idempotency_row_def)

text \<open>The success transaction: the key row decides; the winner marks run, job and subscription.\<close>

definition mark_succeeded :: "datetime \<Rightarrow> JobRun \<Rightarrow> Subscription \<Rightarrow> string option \<Rightarrow> db \<Rightarrow> db" where
  "mark_succeeded now run sub pid d =
     update_subscriptions (\<lambda>s. s_id s = s_id sub) (\<lambda>s. s\<lparr>s_consecutive_failures := 0\<rparr>)
       (update_jobs (\<lambda>j. j_id j = r_job_id run) (\<lambda>j. j\<lparr>j_status := JobStatus.DONE\<rparr>)
         (update_runs (\<lambda>r. r_id r = r_id run)
           (\<lambda>r. r\<lparr>r_status := JobRunStatus.SUCCEEDED, r_bunq_payment_id := pid,
                 r_finished_at := Some now, r_lock_expires_at := None\<rparr>) d))"

definition persist_success ::
  "ext \<Rightarrow> datetime \<Rightarrow> JobRun \<Rightarrow> Subscription \<Rightarrow> json \<Rightarrow> db \<Rightarrow> exn + bool \<times> db" where
  "persist_success X now run sub payment_id d =
     (case x_bind_text X payment_id of
        None \<Rightarrow> Inl DataError
      | Some pid \<Rightarrow>
          and_then (insert_key (idempotency_row X now run pid) d) (\<lambda>(won, d1).
            if \<not> won then Inr (False, d) else Inr (True, mark_succeeded now run sub pid d1)))"

definition mark_dag_cancelled :: "datetime \<Rightarrow> JobRun \<Rightarrow> db \<Rightarrow> db" where
  "mark_dag_cancelled now run d =
     update_jobs (\<lambda>j. j_id j = r_job_id run) (\<lambda>j. j\<lparr>j_status := JobStatus.CANCELLED\<rparr>)
       (update_runs (\<lambda>r. r_id r = r_id run)
         (\<lambda>r. r\<lparr>r_status := JobRunStatus.FAILED, r_error_message := Some ''DAG dependency not satisfied'',
               r_finished_at := Some now, r_lock_expires_at := None\<rparr>) d)"

text \<open>The subscription half of \<open>_move_to_dlq\<close>: count the failure, read the row back, and pause at
  the threshold.\<close>

definition count_failure :: "datetime \<Rightarrow> uuid \<Rightarrow> db \<Rightarrow> db" where
  "count_failure now sub_id d =
     (let d1 = update_subscriptions (\<lambda>s. s_id s = sub_id)
                 (\<lambda>s. s\<lparr>s_consecutive_failures := s_consecutive_failures s + 1\<rparr>) d in
      case get_by s_id sub_id (subscriptions d1) of
        None \<Rightarrow> d1
      | Some refreshed \<Rightarrow>
          if s_consecutive_failures refreshed \<ge> CONSECUTIVE_FAILURE_PAUSE_THRESHOLD
          then update_subscriptions (\<lambda>s. s_id s = sub_id)
                 (\<lambda>s. s\<lparr>s_status := SubscriptionStatus.PAUSED, s_paused_at := Some now\<rparr>) d1
          else d1)"

definition dlq_entry ::
  "uuid \<Rightarrow> uuid \<Rightarrow> uuid \<Rightarrow> uuid \<Rightarrow> string \<Rightarrow> string option \<Rightarrow> json \<Rightarrow> datetime \<Rightarrow> DeadLetterEntry" where
  "dlq_entry i run_id job_id sub_id reason cls payload created =
     \<lparr>d_id = i, d_job_run_id = run_id, d_job_id = job_id, d_subscription_id = sub_id,
      d_failure_reason = reason, d_error_class = cls, d_payload_snapshot = payload,
      d_created_at = created, d_resolved_at = None, d_resolved_by = None\<rparr>"

lemma dlq_entry_simps [simp]:
  "d_id (dlq_entry i r j s m c p t) = i"
  "d_job_run_id (dlq_entry i r j s m c p t) = r"
  "d_job_id (dlq_entry i r j s m c p t) = j"
  "d_subscription_id (dlq_entry i r j s m c p t) = s"
  by (simp_all add: dlq_entry_def)

text \<open>The added entry is flushed when the transaction commits, after the updates.\<close>

definition move_to_dlq ::
  "string \<Rightarrow> datetime \<Rightarrow> uuid \<Rightarrow> JobRun \<Rightarrow> Subscription \<Rightarrow> string \<Rightarrow> db \<Rightarrow> exn + db" where
  "move_to_dlq worker now dlq_id run sub reason d =
     insert_dlq
       (dlq_entry dlq_id (r_id run) (r_job_id run) (s_id sub) (truncate_error reason) None
         (JObj [(''payment_config'', s_payment_config sub), (''attempt'', JInt (r_attempt run)),
                (''worker_id'', JStr worker)]) (db_now d))
       (count_failure now (s_id sub)
         (update_runs (\<lambda>r. r_id r = r_id run)
           (\<lambda>r. r\<lparr>r_status := JobRunStatus.DEAD, r_error_message := Some (truncate_error reason),
                 r_finished_at := Some now, r_lock_expires_at := None\<rparr>) d))"

definition schedule_retry ::
  "datetime \<Rightarrow> uuid \<Rightarrow> datetime \<Rightarrow> JobRun \<Rightarrow> string \<Rightarrow> db \<Rightarrow> exn + db" where
  "schedule_retry now new_id retry_after run err d =
     and_then (insert_run (new_run new_id (r_job_id run) (r_attempt run + 1) (Some retry_after) (db_now d))
        (update_runs (\<lambda>r. r_id r = r_id run)
          (\<lambda>r. r\<lparr>r_status := JobRunStatus.FAILED, r_error_message := Some (truncate_error err),
                r_finished_at := Some now, r_lock_expires_at := None\<rparr>) d))
       (\<lambda>(_, d'). Inr d')"

text \<open>The inputs of one step: the clock when it ends the run, the random number of the jitter,
  the new identifiers, and the clock of the success or dead-letter transaction.\<close>

record step_inputs =
  in_now :: datetime
  in_dlq_now :: datetime
  in_random :: rat
  in_run_id :: uuid
  in_dlq_id :: uuid

definition handle_failure ::
  "string \<Rightarrow> step_inputs \<Rightarrow> JobRun \<Rightarrow> Subscription \<Rightarrow> string \<Rightarrow> bool \<Rightarrow> db \<Rightarrow> exn + db" where
  "handle_failure worker i run sub err is_retryable d =
     and_then (policy_of (s_retry_policy sub)) (\<lambda>policy.
     and_then (if is_retryable then is_exhausted policy (r_attempt run) else Inr True) (\<lambda>stop.
       if \<not> stop then
         and_then (next_delay_s policy (r_attempt run) (in_random i)) (\<lambda>delay.
           case add_seconds (in_now i) delay of
             None \<Rightarrow> Inl OverflowError
           | Some retry_after \<Rightarrow> schedule_retry (in_now i) (in_run_id i) retry_after run err d)
       else move_to_dlq worker (in_dlq_now i) (in_dlq_id i) run sub err d))"

section \<open>The payment call\<close>

text \<open>The client of the executor: one injected at construction, which has a \<open>create_payment\<close>
  taking a configuration and a key, or none, in which case the executor constructs
  \<open>BunqClient(get_settings())\<close>.\<close>

datatype client =
    Injected "PaymentConfig \<Rightarrow> string \<Rightarrow> exn + json"
  | DefaultClient "payment_request \<Rightarrow> http_outcome"

text \<open>The answer of the client, and whether a payment request left the process.\<close>

definition call_client ::
  "ext \<Rightarrow> Settings \<Rightarrow> client \<Rightarrow> PaymentConfig \<Rightarrow> string \<Rightarrow> (exn + json) \<times> bool" where
  "call_client X S c cfg key =
     (case c of
        Injected f \<Rightarrow> (f cfg key, True)
      | DefaultClient post \<Rightarrow>
          (case and_then (py_bind BunqClient_init_sig 1 [])
                  (\<lambda>_. py_bind create_payment_sig 0 [''payment_config'', ''idempotency_key'']) of
             Inl e \<Rightarrow> (Inl e, False)
           | Inr _ \<Rightarrow> (create_payment X S post key (pc_amount cfg) (pc_currency cfg)
               (pc_counterparty_iban cfg) (pc_counterparty_name cfg) (pc_description cfg)
               (pc_monetary_account_id cfg), True)))"

text \<open>\<open>response["Response"][0]["Id"]["id"]\<close>\<close>

definition payment_id_of :: "json \<Rightarrow> exn + json" where
  "payment_id_of response =
     and_then (py_getkey ''Response'' response) (\<lambda>rs.
     and_then (py_getfirst rs) (\<lambda>r.
     and_then (py_getkey ''Id'' r) (py_getkey ''id'')))"

text \<open>The except clauses: which exceptions of the payment call are retried.\<close>

fun retryable :: "exn \<Rightarrow> bool" where
  "retryable (BunqTransientError _) = True"
| "retryable (BunqAmbiguousError _) = True"
| "retryable (BunqPaymentError _ _) = False"
| "retryable (ConfigurationError _) = False"
| "retryable _ = True"

text \<open>A payment request that left the process: for which run, job and attempt, under which key.\<close>

record request =
  rq_run_id :: uuid
  rq_job_id :: uuid
  rq_attempt :: int
  rq_key :: string

record world =
  w_db :: db
  w_requests :: "request list"

definition request_of :: "ext \<Rightarrow> JobRun \<Rightarrow> request" where
  "request_of X run =
     \<lparr>rq_run_id = r_id run, rq_job_id = r_job_id run, rq_attempt = r_attempt run,
      rq_key = IdempotencyKey_for_run X (r_id run) (r_attempt run)\<rparr>"

definition pay ::
  "ext \<Rightarrow> Settings \<Rightarrow> client \<Rightarrow> JobRun \<Rightarrow> PaymentConfig \<Rightarrow> world \<Rightarrow> (exn + json) \<times> world" where
  "pay X S c run cfg w =
     (let (answer, sent) = call_client X S c cfg (IdempotencyKey_for_run X (r_id run) (r_attempt run)) in
      (and_then answer payment_id_of,
       if sent then w\<lparr>w_requests := w_requests w @ [request_of X run]\<rparr> else w))"

section \<open>Executing a claimed run\<close>

text \<open>The outcome is \<open>None\<close>, or the exception that leaves \<open>_execute_run\<close>.\<close>

definition end_tx :: "exn + db \<Rightarrow> world \<Rightarrow> exn option \<times> world" where
  "end_tx res w = (case res of Inl e \<Rightarrow> (Some e, w) | Inr d \<Rightarrow> (None, w\<lparr>w_db := d\<rparr>))"

definition execute_run ::
  "ext \<Rightarrow> Settings \<Rightarrow> client \<Rightarrow> string \<Rightarrow> step_inputs \<Rightarrow> uuid \<Rightarrow> world \<Rightarrow> exn option \<times> world" where
  "execute_run X S c worker i run_id w =
     (case load_snapshot run_id (w_db w) of
        None \<Rightarrow> (None, w)
      | Some sn \<Rightarrow>
        (let run = sn_run sn; sub = sn_sub sn;
             fail = (\<lambda>err is_retryable w. end_tx (handle_failure worker i run sub err is_retryable (w_db w)) w);
             persist = (\<lambda>pid w. end_tx (and_then (persist_success X (in_now i) run sub pid (w_db w))
                                         (\<lambda>(won, d'). Inr d')) w)
         in case PaymentConfig_from_dict X (s_payment_config sub) of
              Inl e \<Rightarrow> fail (exn_str X e) False w
            | Inr cfg \<Rightarrow>
                (let proceed =
                   (case find_idempotency_key (r_id run) (r_attempt run) (w_db w) of
                      Inl e \<Rightarrow> (Some e, w)
                    | Inr (Some existing) \<Rightarrow>
                        persist (case k_bunq_payment_id existing of None \<Rightarrow> JNull | Some p \<Rightarrow> JStr p) w
                    | Inr None \<Rightarrow>
                        (case pay X S c run cfg w of
                           (Inl e, w') \<Rightarrow> fail (exn_str X e) (retryable e) w'
                         | (Inr pid, w') \<Rightarrow> persist pid w'))
                 in if j_depends_on (sn_job sn) \<noteq> [] then
                      (case check_dag_dependencies X (j_depends_on (sn_job sn)) (w_db w) of
                         Inl e \<Rightarrow> (Some e, w)
                       | Inr False \<Rightarrow> (None, w\<lparr>w_db := mark_dag_cancelled (in_now i) run (w_db w)\<rparr>)
                       | Inr True \<Rightarrow> proceed)
                    else proceed)))"

text \<open>\<open>_process_run\<close>: claim, then execute what was claimed.\<close>

definition process_run ::
  "ext \<Rightarrow> Settings \<Rightarrow> client \<Rightarrow> string \<Rightarrow> datetime \<Rightarrow> datetime \<Rightarrow> (uuid \<Rightarrow> bool) \<Rightarrow> step_inputs \<Rightarrow> uuid
     \<Rightarrow> world \<Rightarrow> exn option \<times> world" where
  "process_run X S c worker t_lock t_start locked i run_id w =
     (case claim_run S worker t_lock t_start locked run_id (w_db w) of
        (RunClaimed, d) \<Rightarrow> execute_run X S c worker i run_id (w\<lparr>w_db := d\<rparr>)
      | (_, d) \<Rightarrow> (None, w\<lparr>w_db := d\<rparr>))"

record run_inputs =
  ri_lock :: datetime
  ri_start :: datetime
  ri_locked :: "uuid \<Rightarrow> bool"
  ri_step :: step_inputs

text \<open>\<open>_process_batch\<close>: every fetched run in turn; an exception of one is logged and the next
  one is processed.\<close>

fun process_batch ::
  "ext \<Rightarrow> Settings \<Rightarrow> client \<Rightarrow> string \<Rightarrow> (uuid \<Rightarrow> run_inputs) \<Rightarrow> uuid list \<Rightarrow> world \<Rightarrow> world" where
  "process_batch X S c worker ins [] w = w"
| "process_batch X S c worker ins (r # rs) w =
     process_batch X S c worker ins rs
       (snd (process_run X S c worker (ri_lock (ins r)) (ri_start (ins r)) (ri_locked (ins r))
          (ri_step (ins r)) r w))"

definition executor_tick ::
  "ext \<Rightarrow> Settings \<Rightarrow> client \<Rightarrow> string \<Rightarrow> datetime \<Rightarrow> (uuid \<Rightarrow> bool) \<Rightarrow> (uuid \<Rightarrow> run_inputs) \<Rightarrow> world \<Rightarrow> world" where
  "executor_tick X S c worker now locked ins w =
     process_batch X S c worker ins (fetch_pending_run_ids S now locked (w_db w)) w"

section \<open>Execution in single steps\<close>

datatype phase =
    Load uuid
  | Configure snapshot
  | CheckDag snapshot PaymentConfig
  | CancelDag snapshot
  | FindKey snapshot PaymentConfig
  | Pay snapshot PaymentConfig
  | Persist snapshot json
  | Fail snapshot string bool
  | Finished
  | Raised exn

fun exec_step ::
  "ext \<Rightarrow> Settings \<Rightarrow> client \<Rightarrow> string \<Rightarrow> step_inputs \<Rightarrow> phase \<Rightarrow> world \<Rightarrow> phase \<times> world" where
  "exec_step X S c worker i (Load run_id) w =
     (case load_snapshot run_id (w_db w) of None \<Rightarrow> (Finished, w) | Some sn \<Rightarrow> (Configure sn, w))"
| "exec_step X S c worker i (Configure sn) w =
     (case PaymentConfig_from_dict X (s_payment_config (sn_sub sn)) of
        Inl e \<Rightarrow> (Fail sn (exn_str X e) False, w)
      | Inr cfg \<Rightarrow> (if j_depends_on (sn_job sn) \<noteq> [] then CheckDag sn cfg else FindKey sn cfg, w))"
| "exec_step X S c worker i (CheckDag sn cfg) w =
     (case check_dag_dependencies X (j_depends_on (sn_job sn)) (w_db w) of
        Inl e \<Rightarrow> (Raised e, w)
      | Inr done \<Rightarrow> (if done then FindKey sn cfg else CancelDag sn, w))"
| "exec_step X S c worker i (CancelDag sn) w =
     (Finished, w\<lparr>w_db := mark_dag_cancelled (in_now i) (sn_run sn) (w_db w)\<rparr>)"
| "exec_step X S c worker i (FindKey sn cfg) w =
     (case find_idempotency_key (r_id (sn_run sn)) (r_attempt (sn_run sn)) (w_db w) of
        Inl e \<Rightarrow> (Raised e, w)
      | Inr (Some existing) \<Rightarrow>
          (Persist sn (case k_bunq_payment_id existing of None \<Rightarrow> JNull | Some p \<Rightarrow> JStr p), w)
      | Inr None \<Rightarrow> (Pay sn cfg, w))"
| "exec_step X S c worker i (Pay sn cfg) w =
     (case pay X S c (sn_run sn) cfg w of
        (Inl e, w') \<Rightarrow> (Fail sn (exn_str X e) (retryable e), w')
      | (Inr pid, w') \<Rightarrow> (Persist sn pid, w'))"
| "exec_step X S c worker i (Persist sn pid) w =
     (case persist_success X (in_now i) (sn_run sn) (sn_sub sn) pid (w_db w) of
        Inl e \<Rightarrow> (Raised e, w)
      | Inr (won, d) \<Rightarrow> (Finished, w\<lparr>w_db := d\<rparr>))"
| "exec_step X S c worker i (Fail sn err is_retryable) w =
     (case handle_failure worker i (sn_run sn) (sn_sub sn) err is_retryable (w_db w) of
        Inl e \<Rightarrow> (Raised e, w)
      | Inr d \<Rightarrow> (Finished, w\<lparr>w_db := d\<rparr>))"
| "exec_step X S c worker i Finished w = (Finished, w)"
| "exec_step X S c worker i (Raised e) w = (Raised e, w)"

definition run_phases ::
  "ext \<Rightarrow> Settings \<Rightarrow> client \<Rightarrow> string \<Rightarrow> step_inputs \<Rightarrow> nat \<Rightarrow> phase \<times> world \<Rightarrow> phase \<times> world" where
  "run_phases X S c worker i n = (\<lambda>(p, w). exec_step X S c worker i p w) ^^ n"

end
