(* ===== verification/ExecutorFacts.thy ===== *)
theory ExecutorFacts
  imports Executor
begin

text \<open>
  What the executor's transactions guarantee, one by one and composed: the batch query, the
  exclusive claim, the success gate, the routing of failures, the dead-letter transaction, the
  behaviour with the client the worker constructs itself, and the agreement of the stepwise
  execution with the code's composition. Every transaction keeps \<open>db_ok\<close>.
\<close>

section \<open>The batch\<close>

text \<open>
  The batch is what the query asks for: distinct identifiers, at most the batch size, all
  of claimable rows no other transaction holds; rows left out because of the limit were created
  no earlier than any row taken, and when the limit is not reached nothing claimable is left out.
\<close>

theorem batch_exact:
  assumes "db_ok d" and "ids = fetch_pending_run_ids S now locked d"
  shows "distinct ids \<and> length ids \<le> EXECUTOR_BATCH_SIZE S
    \<and> (\<forall>r \<in> set (job_runs d). r_id r \<in> set ids \<longrightarrow> claimable now r \<and> \<not> locked (r_id r))
    \<and> (\<forall>r \<in> set (job_runs d). \<forall>s \<in> set (job_runs d).
         r_id r \<in> set ids \<and> r_id s \<notin> set ids \<and> claimable now s \<and> \<not> locked (r_id s)
         \<longrightarrow> r_created_at r \<le> r_created_at s)
    \<and> (length ids < EXECUTOR_BATCH_SIZE S \<longrightarrow>
         (\<forall>r \<in> set (job_runs d). claimable now r \<and> \<not> locked (r_id r) \<longrightarrow> r_id r \<in> set ids))"
proof -
  let ?p = "\<lambda>r. claimable now r \<and> \<not> locked (r_id r)"
  let ?sel = "select_limit ?p r_created_at (EXECUTOR_BATCH_SIZE S) (job_runs d)"
  have ids: "ids = map r_id ?sel" by (simp add: assms(2) fetch_pending_run_ids_def)
  have inj: "r = s" if "r \<in> set (job_runs d)" "s \<in> set (job_runs d)" "r_id r = r_id s" for r s
    using assms(1) that by (auto simp: db_ok_defs distinct_map dest: inj_onD)
  have sub: "set ?sel \<subseteq> {r \<in> set (job_runs d). ?p r}" by (rule select_limit_subset)
  have mem: "r_id r \<in> set ids \<longleftrightarrow> r \<in> set ?sel" if "r \<in> set (job_runs d)" for r
    using that sub inj by (auto simp: ids)
  have "distinct ids" unfolding ids
    using assms(1) by (intro select_limit_distinct) (simp add: db_ok_defs)
  moreover have "length ids \<le> EXECUTOR_BATCH_SIZE S"
    using select_limit_length by (simp add: ids)
  moreover have "\<forall>r \<in> set (job_runs d). r_id r \<in> set ids \<longrightarrow> ?p r"
    using sub mem by blast
  moreover have "\<forall>r \<in> set (job_runs d). \<forall>s \<in> set (job_runs d).
         r_id r \<in> set ids \<and> r_id s \<notin> set ids \<and> claimable now s \<and> \<not> locked (r_id s)
         \<longrightarrow> r_created_at r \<le> r_created_at s"
    using mem select_limit_first [of _ ?p r_created_at "EXECUTOR_BATCH_SIZE S" "job_runs d"] by blast
  moreover have "length ids < EXECUTOR_BATCH_SIZE S \<longrightarrow>
         (\<forall>r \<in> set (job_runs d). ?p r \<longrightarrow> r_id r \<in> set ids)"
    using mem select_limit_all [of ?p r_created_at "EXECUTOR_BATCH_SIZE S" "job_runs d"]
    by (auto simp: ids)
  ultimately show ?thesis by blast
qed

section \<open>Every transaction keeps the database consistent\<close>

lemma db_ok_claim_run: "db_ok d \<Longrightarrow> claim_run S w t u l i d = (c, d') \<Longrightarrow> db_ok d'"
  by (auto simp: claim_run_def split: option.splits intro!: db_ok_updates)

lemma db_ok_mark_succeeded: "db_ok d \<Longrightarrow> db_ok (mark_succeeded now run sub pid d)"
  unfolding mark_succeeded_def by (intro db_ok_updates) simp_all

lemma db_ok_persist_success:
  assumes "db_ok d" and "persist_success X now run sub v d = Inr (b, d')"
  shows "db_ok d'"
  using assms
  by (auto simp: persist_success_def and_then_Inr_iff split: option.splits if_splits
      intro: db_ok_mark_succeeded db_ok_insert_key)

lemma db_ok_mark_dag_cancelled: "db_ok d \<Longrightarrow> db_ok (mark_dag_cancelled now run d)"
  unfolding mark_dag_cancelled_def by (intro db_ok_updates) simp_all

lemma db_ok_count_failure: "db_ok d \<Longrightarrow> db_ok (count_failure now i d)"
  by (auto simp: count_failure_def Let_def split: option.split intro!: db_ok_updates)

lemma db_ok_move_to_dlq:
  assumes "db_ok d" and "move_to_dlq worker now i run sub reason d = Inr d'"
  shows "db_ok d'"
proof -
  have "db_ok (count_failure now (s_id sub)
         (update_runs (\<lambda>r. r_id r = r_id run)
           (\<lambda>r. r\<lparr>r_status := JobRunStatus.DEAD, r_error_message := Some (truncate_error reason),
                 r_finished_at := Some now, r_lock_expires_at := None\<rparr>) d))"
    using assms(1) by (intro db_ok_count_failure db_ok_updates) simp_all
  then show ?thesis using assms(2) unfolding move_to_dlq_def by (rule db_ok_insert_dlq)
qed

lemma db_ok_schedule_retry:
  assumes "db_ok d" and "schedule_retry now i t run err d = Inr d'"
  shows "db_ok d'"
proof -
  have "db_ok (update_runs (\<lambda>r. r_id r = r_id run)
          (\<lambda>r. r\<lparr>r_status := JobRunStatus.FAILED, r_error_message := Some (truncate_error err),
                r_finished_at := Some now, r_lock_expires_at := None\<rparr>) d)"
    using assms(1) by (intro db_ok_updates) simp_all
  with assms(2) show ?thesis
    by (auto simp: schedule_retry_def and_then_Inr_iff intro: db_ok_insert_run)
qed

lemma db_ok_handle_failure:
  "db_ok d \<Longrightarrow> handle_failure worker i run sub err b d = Inr d' \<Longrightarrow> db_ok d'"
  by (auto simp: handle_failure_def and_then_Inr_iff split: if_splits option.splits
      intro: db_ok_schedule_retry db_ok_move_to_dlq)

lemma w_db_pay [simp]: "pay X S c run cfg w = (a, w') \<Longrightarrow> w_db w' = w_db w"
  by (auto simp: pay_def split: prod.splits if_splits)

lemma db_ok_exec_step:
  "db_ok (w_db w) \<Longrightarrow> exec_step X S c worker i p w = (p', w') \<Longrightarrow> db_ok (w_db w')"
  by (cases "(X, S, c, worker, i, p, w)" rule: exec_step.cases)
    (auto split: option.splits sum.splits prod.splits
      intro: db_ok_mark_dag_cancelled db_ok_persist_success db_ok_handle_failure)

section \<open>Steps and composition agree\<close>

lemma run_phases_0 [simp]: "run_phases X S c worker i 0 pw = pw"
  by (simp add: run_phases_def)

lemma run_phases_Suc [simp]:
  "run_phases X S c worker i (Suc n) (p, w) = run_phases X S c worker i n (exec_step X S c worker i p w)"
  by (simp add: run_phases_def funpow_swap1)

lemma run_phases_Finished [simp]: "run_phases X S c worker i n (Finished, w) = (Finished, w)"
  by (induction n) simp_all

lemma run_phases_Raised [simp]: "run_phases X S c worker i n (Raised e, w) = (Raised e, w)"
  by (induction n) simp_all

definition outcome_phase :: "exn option \<times> world \<Rightarrow> phase \<times> world" where
  "outcome_phase r = (case r of (None, w) \<Rightarrow> (Finished, w) | (Some e, w) \<Rightarrow> (Raised e, w))"

lemma execute_run_by_steps:
  "run_phases X S c worker i (6 + n) (Load run_id, w)
     = outcome_phase (execute_run X S c worker i run_id w)"
  by (simp add: numeral_eq_Suc execute_run_def outcome_phase_def end_tx_def Let_def
      split: option.splits sum.splits prod.splits bool.splits if_splits)


lemma db_ok_run_phases:
  "db_ok (w_db w) \<Longrightarrow> run_phases X S c worker i n (p, w) = (p', w') \<Longrightarrow> db_ok (w_db w')"
proof (induction n arbitrary: p w)
  case (Suc n)
  obtain p1 w1 where step: "exec_step X S c worker i p w = (p1, w1)" by fastforce
  with Suc show ?case using db_ok_exec_step [OF Suc.prems(1) step] by simp
qed simp

lemma db_ok_execute_run:
  assumes "db_ok (w_db w)" and "execute_run X S c worker i run_id w = (e, w')"
  shows "db_ok (w_db w')"
proof -
  from assms(2) have "\<exists>p. run_phases X S c worker i (6 + 0) (Load run_id, w) = (p, w')"
    unfolding execute_run_by_steps by (cases e) (simp_all add: outcome_phase_def)
  with assms(1) show ?thesis by (auto intro: db_ok_run_phases)
qed

lemma db_ok_process_run:
  assumes "db_ok (w_db w)" and "process_run X S c worker t u l i run_id w = (e, w')"
  shows "db_ok (w_db w')"
proof -
  obtain cr d where claim: "claim_run S worker t u l run_id (w_db w) = (cr, d)" by fastforce
  then have "db_ok d" by (rule db_ok_claim_run [OF assms(1)])
  with assms(2) claim show ?thesis
    by (auto simp: process_run_def split: claim_result.splits dest!: db_ok_execute_run [rotated])
qed

lemma db_ok_process_batch:
  "db_ok (w_db w) \<Longrightarrow> db_ok (w_db (process_batch X S c worker ins ids w))"
proof (induction ids arbitrary: w)
  case (Cons r rs)
  then show ?case
    using db_ok_process_run [OF Cons.prems prod.collapse [symmetric]] by simp
qed simp

section \<open>The claim\<close>

lemma claim_run_Claimed_iff:
  "claim_run S worker t_lock t_start locked run_id d = (RunClaimed, d') \<longleftrightarrow>
     (\<exists>run job sub.
        find (\<lambda>r. r_id r = run_id \<and> r_status r = JobRunStatus.PENDING \<and> \<not> locked (r_id r)) (job_runs d) = Some run
      \<and> get_by j_id (r_job_id run) (scheduled_jobs d) = Some job
      \<and> get_by s_id (j_subscription_id job) (subscriptions d) = Some sub
      \<and> d' = update_runs (\<lambda>r. r_id r = run_id)
               (\<lambda>r. r\<lparr>r_status := JobRunStatus.RUNNING, r_worker_id := Some worker,
                     r_lock_expires_at := Some (t_lock + EXECUTOR_LOCK_TIMEOUT_S S * 1000000),
                     r_started_at := Some t_start\<rparr>) d)"
proof -
  have id: "r_id run = run_id"
    if "find (\<lambda>r. r_id r = run_id \<and> r_status r = JobRunStatus.PENDING \<and> \<not> locked (r_id r)) (job_runs d) = Some run"
    for run using that by (auto simp: find_Some_iff)
  let ?find = "find (\<lambda>r. r_id r = run_id \<and> r_status r = JobRunStatus.PENDING \<and> \<not> locked (r_id r)) (job_runs d)"
  show ?thesis
  proof (cases ?find)
    case None
    then show ?thesis by (simp add: claim_run_def)
  next
    case (Some run)
    then show ?thesis by (auto simp: claim_run_def id [OF Some] split: option.splits)
  qed
qed

lemma claim_run_other: "claim_run S w t u l i d = (c, d') \<Longrightarrow> c \<noteq> RunClaimed \<Longrightarrow> d' = d"
  by (auto simp: claim_run_def split: option.splits)

text \<open>
  C12: a claim is exclusive. Once a worker's claim of a run has committed, the row was PENDING
  and unlocked and is now RUNNING under that worker's name with the lock expiring after the
  configured timeout, no other row has changed, and every later claim of that run, by any
  worker at any time, finds nothing and changes nothing.
\<close>

theorem claim_exclusive:
  assumes "db_ok d" and "claim_run S worker t_lock t_start locked run_id d = (RunClaimed, d')"
  shows "(\<exists>run \<in> set (job_runs d). r_id run = run_id \<and> r_status run = JobRunStatus.PENDING \<and> \<not> locked run_id)
    \<and> (\<forall>r \<in> set (job_runs d'). r_id r = run_id \<longrightarrow> r_status r = JobRunStatus.RUNNING
         \<and> r_worker_id r = Some worker
         \<and> r_lock_expires_at r = Some (t_lock + EXECUTOR_LOCK_TIMEOUT_S S * 1000000))
    \<and> filter (\<lambda>r. r_id r \<noteq> run_id) (job_runs d') = filter (\<lambda>r. r_id r \<noteq> run_id) (job_runs d)
    \<and> claim_run S' worker' t_lock' t_start' locked' run_id d' = (AlreadyClaimed, d')"
proof -
  let ?f = "\<lambda>r. r\<lparr>r_status := JobRunStatus.RUNNING, r_worker_id := Some worker,
       r_lock_expires_at := Some (t_lock + EXECUTOR_LOCK_TIMEOUT_S S * 1000000),
       r_started_at := Some t_start\<rparr>"
  from assms(2) obtain run where
    run: "find (\<lambda>r. r_id r = run_id \<and> r_status r = JobRunStatus.PENDING \<and> \<not> locked (r_id r)) (job_runs d) = Some run"
    and d': "d' = update_runs (\<lambda>r. r_id r = run_id) ?f d"
    unfolding claim_run_Claimed_iff by blast
  have "run \<in> set (job_runs d) \<and> r_id run = run_id \<and> r_status run = JobRunStatus.PENDING \<and> \<not> locked run_id"
    using run by (auto simp: find_Some_iff)
  moreover have running: "\<forall>r \<in> set (job_runs d'). r_id r = run_id \<longrightarrow> r_status r = JobRunStatus.RUNNING
         \<and> r_worker_id r = Some worker
         \<and> r_lock_expires_at r = Some (t_lock + EXECUTOR_LOCK_TIMEOUT_S S * 1000000)"
    by (simp add: d' ball_update_where)
  moreover have "filter (\<lambda>r. r_id r \<noteq> run_id) (update_where (\<lambda>r. r_id r = run_id) ?f t)
      = filter (\<lambda>r. r_id r \<noteq> run_id) t" for t
    by (induction t) auto
  moreover have "find (\<lambda>r. r_id r = run_id \<and> r_status r = JobRunStatus.PENDING \<and> \<not> locked' (r_id r))
      (job_runs d') = None"
    using running by (auto simp: find_None_iff)
  then have "claim_run S' worker' t_lock' t_start' locked' run_id d' = (AlreadyClaimed, d')"
    by (simp add: claim_run_def)
  ultimately show ?thesis by (simp add: d') blast
qed

section \<open>The success gate\<close>

lemma persist_success_Inr_iff:
  "persist_success X now run sub v d = Inr (b, d') \<longleftrightarrow>
     (\<exists>pid. x_bind_text X v = Some pid
       \<and> (if (r_id run, r_attempt run) \<in> key_slot ` set (idempotency_keys d) then \<not> b \<and> d' = d
          else b \<and> IdempotencyKey_for_run X (r_id run) (r_attempt run) \<notin> k_key ` set (idempotency_keys d)
            \<and> r_id run \<in> r_id ` set (job_runs d)
            \<and> d' = mark_succeeded now run sub pid
                (d\<lparr>idempotency_keys := idempotency_keys d @ [idempotency_row X now run pid]\<rparr>)))"
  by (auto simp: persist_success_def and_then_Inr_iff insert_key_Inr_iff idempotency_row_def
      split: option.splits if_splits)

lemma idempotency_keys_mark_succeeded [simp]:
  "idempotency_keys (mark_succeeded now run sub pid d) = idempotency_keys d"
  by (simp add: mark_succeeded_def)

definition success_claim :: "ext \<Rightarrow> datetime \<times> JobRun \<times> Subscription \<times> json \<Rightarrow> db \<Rightarrow> exn + bool \<times> db" where
  "success_claim X = (\<lambda>(now, run, sub, v). persist_success X now run sub v)"

definition claimed_slot :: "datetime \<times> JobRun \<times> Subscription \<times> json \<Rightarrow> uuid \<times> int" where
  "claimed_slot = (\<lambda>(now, run, sub, v). (r_id run, r_attempt run))"

lemmas success_claim_defs = success_claim_def claimed_slot_def persist_success_Inr_iff

interpretation success_gate: insert_gate
  "\<lambda>k d. k \<in> key_slot ` set (idempotency_keys d)" "success_claim X" claimed_slot
proof
  fix c :: "datetime \<times> JobRun \<times> Subscription \<times> json" and d b d'
  assume "claimed_slot c \<in> key_slot ` set (idempotency_keys d)" "success_claim X c d = Inr (b, d')"
  then show "\<not> b \<and> d' = d" by (cases c) (auto simp: success_claim_defs)
next
  fix c :: "datetime \<times> JobRun \<times> Subscription \<times> json" and d d'
  assume "success_claim X c d = Inr (True, d')"
  then show "claimed_slot c \<notin> key_slot ` set (idempotency_keys d)
      \<and> claimed_slot c \<in> key_slot ` set (idempotency_keys d')"
    by (cases c) (auto simp: success_claim_defs image_Un split: if_splits)
next
  fix c :: "datetime \<times> JobRun \<times> Subscription \<times> json" and d b d' k
  assume "success_claim X c d = Inr (b, d')" "k \<in> key_slot ` set (idempotency_keys d)"
  then show "k \<in> key_slot ` set (idempotency_keys d')"
    by (cases c) (auto simp: success_claim_defs split: if_splits)
qed

text \<open>The success transactions of several workers, one after the other; each reports whether it
  won, an exception counts as not winning and changes nothing.\<close>

fun success_race ::
  "ext \<Rightarrow> (datetime \<times> JobRun \<times> Subscription \<times> json) list \<Rightarrow> db \<Rightarrow> bool list \<times> db" where
  "success_race X [] d = ([], d)"
| "success_race X ((now, run, sub, v) # cs) d =
     (case persist_success X now run sub v d of
        Inl e \<Rightarrow> let (bs, d') = success_race X cs d in (False # bs, d')
      | Inr (b, d1) \<Rightarrow> let (bs, d') = success_race X cs d1 in (b # bs, d'))"

lemma success_race_puts: "success_race X cs d = success_gate.puts X cs d"
proof (induction X cs d rule: success_race.induct)
  case (2 X now run sub v cs d)
  have sc: "success_claim X (now, run, sub, v) e = persist_success X now run sub v e" for e
    by (simp add: success_claim_def)
  with 2 show ?case
    by (cases "persist_success X now run sub v d") (auto simp: sc split: prod.splits)
qed simp

text \<open>
  C11: of all the workers that ever try to persist a success for one run and attempt, in any
  order and with any payment identifiers, at most one is told that it won; and once the key is
  in the table none wins and nothing in the database changes any more.
\<close>

theorem one_success_per_attempt:
  assumes "\<forall>(now, run, sub, v) \<in> set cs. (r_id run, r_attempt run) = slot"
  shows "count_list (fst (success_race X cs d)) True \<le> 1
    \<and> (slot \<in> key_slot ` set (idempotency_keys d) \<longrightarrow>
         True \<notin> set (fst (success_race X cs d)) \<and> snd (success_race X cs d) = d)"
proof -
  have "\<forall>c \<in> set cs. claimed_slot c = slot" using assms by (auto simp: claimed_slot_def)
  then show ?thesis unfolding success_race_puts
    using success_gate.puts_one_winner success_gate.puts_present by blast
qed

text \<open>
  C16: the success transaction is all or nothing. The winner leaves the key row for its attempt,
  the run SUCCEEDED with the payment identifier and without a lock, the job DONE and the
  subscription's failure count at zero; a loser, or an exception, leaves the database as it was.
\<close>

theorem success_transaction:
  assumes "db_ok d" and "persist_success X now run sub v d = Inr (won, d')"
  shows "(won \<longrightarrow> (\<exists>pid. x_bind_text X v = Some pid
      \<and> idempotency_keys d' = idempotency_keys d @ [idempotency_row X now run pid]
      \<and> (\<forall>r \<in> set (job_runs d'). r_id r = r_id run \<longrightarrow> r_status r = JobRunStatus.SUCCEEDED
            \<and> r_bunq_payment_id r = pid \<and> r_lock_expires_at r = None \<and> r_finished_at r = Some now)
      \<and> (\<forall>j \<in> set (scheduled_jobs d'). j_id j = r_job_id run \<longrightarrow> j_status j = JobStatus.DONE)
      \<and> (\<forall>s \<in> set (subscriptions d'). s_id s = s_id sub \<longrightarrow> s_consecutive_failures s = 0)
      \<and> dead_letter_queue d' = dead_letter_queue d))
    \<and> (\<not> won \<longrightarrow> d' = d) \<and> db_ok d'"
proof -
  have "db_ok d'" using assms by (rule db_ok_persist_success)
  then show ?thesis using assms(2)
    by (auto simp: persist_success_Inr_iff mark_succeeded_def ball_update_where split: if_splits)
qed

section \<open>Dead letters\<close>

definition failure_counted :: "datetime \<Rightarrow> datetime \<Rightarrow> Subscription \<Rightarrow> Subscription" where
  "failure_counted now stamp s =
     (let n = s_consecutive_failures s + 1; pause = n \<ge> CONSECUTIVE_FAILURE_PAUSE_THRESHOLD in
      s\<lparr>s_consecutive_failures := n,
        s_status := (if pause then SubscriptionStatus.PAUSED else s_status s),
        s_paused_at := (if pause then Some now else s_paused_at s),
        s_updated_at := stamp\<rparr>)"

lemma count_failure_frame [simp]:
  "scheduled_jobs (count_failure now i d) = scheduled_jobs d"
  "job_runs (count_failure now i d) = job_runs d"
  "idempotency_keys (count_failure now i d) = idempotency_keys d"
  "dead_letter_queue (count_failure now i d) = dead_letter_queue d"
  "db_now (count_failure now i d) = db_now d"
  by (simp_all add: count_failure_def Let_def split: option.split)

lemma count_failure_subscriptions:
  assumes "distinct (map s_id (subscriptions d))"
  shows "subscriptions (count_failure now i d) =
    update_where (\<lambda>s. s_id s = i) (failure_counted now (db_now d)) (subscriptions d)"
proof (cases "get_by s_id i (subscriptions d)")
  case None
  then have "update_where (\<lambda>s. s_id s = i) f (subscriptions d) = subscriptions d" for f
    by (intro update_where_none) (auto simp: get_by_None_iff)
  with None show ?thesis
    by (simp add: count_failure_def Let_def)
next
  case (Some s0)
  have same: "s = s0" if "s \<in> set (subscriptions d)" "s_id s = i" for s
    using that Some get_by_Some_iff [OF assms, of i s] by simp
  have s0: "s_id s0 = i" using get_by_Some_in [OF Some] by simp
  let ?inc = "\<lambda>s. s\<lparr>s_consecutive_failures := s_consecutive_failures s + 1, s_updated_at := db_now d\<rparr>"
  let ?pause = "\<lambda>s. s\<lparr>s_status := SubscriptionStatus.PAUSED, s_paused_at := Some now, s_updated_at := db_now d\<rparr>"
  have "subscriptions (count_failure now i d) =
      (if s_consecutive_failures s0 + 1 \<ge> CONSECUTIVE_FAILURE_PAUSE_THRESHOLD
       then update_where (\<lambda>s. s_id s = i) ?pause (update_where (\<lambda>s. s_id s = i) ?inc (subscriptions d))
       else update_where (\<lambda>s. s_id s = i) ?inc (subscriptions d))"
    using Some s0 by (simp add: count_failure_def Let_def get_by_update_where)
  also have "\<dots> = update_where (\<lambda>s. s_id s = i) (failure_counted now (db_now d)) (subscriptions d)"
    by (auto simp: update_where_def failure_counted_def Let_def dest: same)
  finally show ?thesis .
qed

lemma move_to_dlq_Inr_iff:
  "move_to_dlq worker now i run sub reason d = Inr d' \<longleftrightarrow>
     i \<notin> d_id ` set (dead_letter_queue d) \<and> r_id run \<in> r_id ` set (job_runs d)
   \<and> d' = (let d1 = count_failure now (s_id sub)
            (update_runs (\<lambda>r. r_id r = r_id run)
              (\<lambda>r. r\<lparr>r_status := JobRunStatus.DEAD, r_error_message := Some (truncate_error reason),
                    r_finished_at := Some now, r_lock_expires_at := None\<rparr>) d)
          in d1\<lparr>dead_letter_queue := dead_letter_queue d @
            [dlq_entry i (r_id run) (r_job_id run) (s_id sub) (truncate_error reason) None
              (JObj [(''payment_config'', s_payment_config sub), (''attempt'', JInt (r_attempt run)),
                     (''worker_id'', JStr worker)]) (db_now d)]\<rparr>)"
  unfolding move_to_dlq_def insert_dlq_Inr_iff
  by (auto simp: Let_def image_update_where)


section \<open>Routing of failures\<close>

lemma schedule_retry_Inr_iff:
  "schedule_retry now i t run err d = Inr d' \<longleftrightarrow>
     (let d1 = update_runs (\<lambda>r. r_id r = r_id run)
          (\<lambda>r. r\<lparr>r_status := JobRunStatus.FAILED, r_error_message := Some (truncate_error err),
                r_finished_at := Some now, r_lock_expires_at := None\<rparr>) d;
          new = new_run i (r_job_id run) (r_attempt run + 1) (Some t) (db_now d)
      in if (r_job_id run, r_attempt run + 1) \<in> run_slot ` set (job_runs d) then d' = d1
         else i \<notin> r_id ` set (job_runs d) \<and> r_job_id run \<in> j_id ` set (scheduled_jobs d)
           \<and> d' = d1\<lparr>job_runs := job_runs d1 @ [new]\<rparr>)"
  unfolding schedule_retry_def and_then_Inr_iff
  by (auto simp: insert_run_Inr_iff Let_def image_update_where split: if_splits)

text \<open>
  C15: how a failure is routed. With a readable policy whose \<open>max_attempts\<close> is the number m, a
  retryable failure of attempt n < m marks the run FAILED and leaves a run for attempt n + 1 of
  the same job (a new PENDING one that becomes due exactly the computed delay after the failure,
  unless that attempt already exists), and touches neither subscriptions nor the dead-letter
  queue; a failure that is not retryable, or of an attempt n with m <= n, marks the run DEAD and
  adds a dead letter, and creates no run.
\<close>

theorem failure_routing:
  assumes "policy_of (s_retry_policy sub) = Inr p" and "py_number (max_attempts p) = Some m"
    and "handle_failure worker i run sub err is_retryable d = Inr d'"
  shows "(is_retryable \<and> of_int (r_attempt run) < m \<longrightarrow>
        (\<forall>r \<in> set (job_runs d'). r_id r = r_id run \<and> r \<in> set (take (length (job_runs d)) (job_runs d'))
            \<longrightarrow> r_status r = JobRunStatus.FAILED)
      \<and> (r_job_id run, r_attempt run + 1) \<in> run_slot ` set (job_runs d')
      \<and> ((r_job_id run, r_attempt run + 1) \<notin> run_slot ` set (job_runs d) \<longrightarrow>
           (\<exists>delay. next_delay_s p (r_attempt run) (in_random i) = Inr delay
             \<and> last (job_runs d') = new_run (in_run_id i) (r_job_id run) (r_attempt run + 1)
                 (Some (in_now i + microseconds delay)) (db_now d)))
      \<and> subscriptions d' = subscriptions d \<and> dead_letter_queue d' = dead_letter_queue d)
    \<and> (\<not> (is_retryable \<and> of_int (r_attempt run) < m) \<longrightarrow>
        (\<forall>r \<in> set (job_runs d'). r_id r = r_id run \<longrightarrow> r_status r = JobRunStatus.DEAD)
      \<and> length (job_runs d') = length (job_runs d)
      \<and> length (dead_letter_queue d') = Suc (length (dead_letter_queue d)))"
proof (cases "is_retryable \<and> of_int (r_attempt run) < m")
  case True
  with assms obtain delay t where delay: "next_delay_s p (r_attempt run) (in_random i) = Inr delay"
    and t: "add_seconds (in_now i) delay = Some t"
    and d': "schedule_retry (in_now i) (in_run_id i) t run err d = Inr d'"
    by (auto simp: handle_failure_def and_then_Inr_iff is_exhausted_def split: if_splits option.splits)
  from t have "t = in_now i + microseconds delay"
    by (auto simp: add_seconds_def Let_def split: if_splits)
  have "take (length (job_runs d)) (job_runs d') = update_where (\<lambda>r. r_id r = r_id run)
          (\<lambda>r. r\<lparr>r_status := JobRunStatus.FAILED, r_error_message := Some (truncate_error err),
                r_finished_at := Some (in_now i), r_lock_expires_at := None\<rparr>) (job_runs d)"
    using d' by (auto simp: schedule_retry_Inr_iff Let_def split: if_splits)
  then have "\<forall>r \<in> set (take (length (job_runs d)) (job_runs d')). r_id r = r_id run
      \<longrightarrow> r_status r = JobRunStatus.FAILED"
    by (simp add: ball_update_where)
  moreover have "(r_job_id run, r_attempt run + 1) \<in> run_slot ` set (job_runs d')
      \<and> ((r_job_id run, r_attempt run + 1) \<notin> run_slot ` set (job_runs d) \<longrightarrow>
           last (job_runs d') = new_run (in_run_id i) (r_job_id run) (r_attempt run + 1) (Some t) (db_now d))
      \<and> subscriptions d' = subscriptions d \<and> dead_letter_queue d' = dead_letter_queue d"
    using d' by (auto simp: schedule_retry_Inr_iff Let_def image_update_where split: if_splits)
  moreover note \<open>t = in_now i + microseconds delay\<close>
  ultimately show ?thesis using True delay by blast
next
  case False
  with assms have "move_to_dlq worker (in_dlq_now i) (in_dlq_id i) run sub err d = Inr d'"
    by (auto simp: handle_failure_def and_then_Inr_iff is_exhausted_def split: if_splits option.splits)
  then have "(\<forall>r \<in> set (job_runs d'). r_id r = r_id run \<longrightarrow> r_status r = JobRunStatus.DEAD)
      \<and> length (job_runs d') = length (job_runs d)
      \<and> length (dead_letter_queue d') = Suc (length (dead_letter_queue d))"
    by (simp add: move_to_dlq_Inr_iff Let_def ball_update_where)
  with False show ?thesis by blast
qed

section \<open>The client the executor constructs itself\<close>

text \<open>The identifiers of the runs marked SUCCEEDED.\<close>

definition succeeded :: "db \<Rightarrow> uuid set" where
  "succeeded d = r_id ` {r \<in> set (job_runs d). r_status r = JobRunStatus.SUCCEEDED}"

definition no_new_success :: "db \<Rightarrow> db \<Rightarrow> bool" where
  "no_new_success d d' \<longleftrightarrow> idempotency_keys d' = idempotency_keys d \<and> succeeded d' \<subseteq> succeeded d"

lemma no_new_success_refl [simp]: "no_new_success d d"
  by (simp add: no_new_success_def)

lemma no_new_success_trans: "no_new_success d d' \<Longrightarrow> no_new_success d' d'' \<Longrightarrow> no_new_success d d''"
  by (auto simp: no_new_success_def)

lemma no_new_success_update_runs:
  assumes "\<And>r. r_id (f r) = r_id r" and "\<And>r. r_status (f r) \<noteq> JobRunStatus.SUCCEEDED"
  shows "no_new_success d (update_runs p f d)"
  using assms by (auto simp: no_new_success_def succeeded_def set_update_where split: if_splits)

lemma no_new_success_job_runs:
  "idempotency_keys d' = idempotency_keys d \<Longrightarrow> job_runs d' = job_runs d \<Longrightarrow> no_new_success d d'"
  by (simp add: no_new_success_def succeeded_def)

lemma no_new_success_claim_run:
  "claim_run S worker t u l i d = (c, d') \<Longrightarrow> no_new_success d d'"
  by (auto simp: claim_run_def split: option.splits intro!: no_new_success_update_runs)

lemma no_new_success_mark_dag_cancelled: "no_new_success d (mark_dag_cancelled now run d)"
  unfolding mark_dag_cancelled_def
  by (rule no_new_success_trans [OF no_new_success_update_runs no_new_success_job_runs]) simp_all

lemma no_new_success_move_to_dlq:
  assumes "move_to_dlq worker now i run sub reason d = Inr d'"
  shows "no_new_success d d'"
proof -
  let ?u = "update_runs (\<lambda>r. r_id r = r_id run)
     (\<lambda>r. r\<lparr>r_status := JobRunStatus.DEAD, r_error_message := Some (truncate_error reason),
           r_finished_at := Some now, r_lock_expires_at := None\<rparr>) d"
  have "no_new_success d ?u" by (rule no_new_success_update_runs) simp_all
  moreover have "no_new_success ?u d'"
    using assms by (intro no_new_success_job_runs) (auto simp: move_to_dlq_Inr_iff Let_def)
  ultimately show ?thesis by (rule no_new_success_trans)
qed

lemma no_new_success_schedule_retry:
  assumes "schedule_retry now i t run err d = Inr d'"
  shows "no_new_success d d'"
  using assms
  by (auto simp: schedule_retry_Inr_iff Let_def no_new_success_def succeeded_def set_update_where
      split: if_splits)

lemma no_new_success_handle_failure:
  "handle_failure worker i run sub err b d = Inr d' \<Longrightarrow> no_new_success d d'"
  by (auto simp: handle_failure_def and_then_Inr_iff split: if_splits option.splits
      intro: no_new_success_schedule_retry no_new_success_move_to_dlq)

lemma no_new_success_end_tx:
  assumes "end_tx res w = (e, w')" and "\<And>d. res = Inr d \<Longrightarrow> no_new_success (w_db w) d"
  shows "no_new_success (w_db w) (w_db w') \<and> w_requests w' = w_requests w"
  using assms by (auto simp: end_tx_def split: sum.splits)

lemma find_idempotency_key_Some_slot:
  "find_idempotency_key i a d = Inr (Some k) \<Longrightarrow> (i, a) \<in> key_slot ` set (idempotency_keys d)"
  by (force simp: find_idempotency_key_def dest: scalar_one_or_none_in)

lemma persist_success_hit:
  assumes "(r_id run, r_attempt run) \<in> key_slot ` set (idempotency_keys d)"
    and "persist_success X now run sub v d = Inr (b, d')"
  shows "\<not> b \<and> d' = d"
  using assms by (auto simp: persist_success_Inr_iff)

lemma pay_DefaultClient:
  "pay X S (DefaultClient post) run cfg w = (Inl TypeError, w)"
  by (simp add: pay_def call_client_def BunqClient_init_rejects_settings del: One_nat_def)

lemma no_new_success_execute_run:
  assumes "execute_run X S (DefaultClient post) worker i run_id w = (e, w')"
  shows "no_new_success (w_db w) (w_db w') \<and> w_requests w' = w_requests w"
proof (cases "load_snapshot run_id (w_db w)")
  case None
  with assms show ?thesis by (simp add: execute_run_def)
next
  case (Some sn)
  let ?run = "sn_run sn" and ?sub = "sn_sub sn"
  have fail: "no_new_success (w_db w) (w_db w') \<and> w_requests w' = w_requests w"
    if "end_tx (handle_failure worker i ?run ?sub err b (w_db w)) w = (e, w')" for err b
    by (rule no_new_success_end_tx [OF that]) (rule no_new_success_handle_failure)
  have hit: "no_new_success (w_db w) (w_db w') \<and> w_requests w' = w_requests w"
    if "find_idempotency_key (r_id ?run) (r_attempt ?run) (w_db w) = Inr (Some k)"
      and "end_tx (and_then (persist_success X (in_now i) ?run ?sub v (w_db w)) (\<lambda>(won, d'). Inr d')) w = (e, w')"
    for k v
    by (rule no_new_success_end_tx [OF that(2)])
      (auto simp: and_then_Inr_iff dest!: persist_success_hit [OF find_idempotency_key_Some_slot [OF that(1)]])
  from assms Some show ?thesis
    by (auto simp: execute_run_def Let_def pay_DefaultClient no_new_success_mark_dag_cancelled
        split: sum.splits option.splits if_splits bool.splits dest: fail hit)
qed

lemma no_new_success_process_run:
  assumes "process_run X S (DefaultClient post) worker t u l i run_id w = (e, w')"
  shows "no_new_success (w_db w) (w_db w') \<and> w_requests w' = w_requests w"
proof -
  obtain c d where c: "claim_run S worker t u l run_id (w_db w) = (c, d)" by fastforce
  note claim = no_new_success_claim_run [OF c]
  show ?thesis
  proof (cases "c = RunClaimed")
    case True
    with assms c have "execute_run X S (DefaultClient post) worker i run_id (w\<lparr>w_db := d\<rparr>) = (e, w')"
      by (simp add: process_run_def)
    from no_new_success_execute_run [OF this] claim show ?thesis
      by (auto intro: no_new_success_trans)
  next
    case False
    with assms c claim show ?thesis by (auto simp: process_run_def split: claim_result.splits)
  qed
qed

lemma no_new_success_process_batch:
  "no_new_success (w_db w) (w_db (process_batch X S (DefaultClient post) worker ins ids w))
    \<and> w_requests (process_batch X S (DefaultClient post) worker ins ids w) = w_requests w"
proof (induction ids arbitrary: w)
  case (Cons r rs)
  obtain e w1 where w1: "process_run X S (DefaultClient post) worker (ri_lock (ins r)) (ri_start (ins r))
      (ri_locked (ins r)) (ri_step (ins r)) r w = (e, w1)" by fastforce
  from no_new_success_process_run [OF w1] Cons [of w1] show ?case
    by (auto simp: w1 intro: no_new_success_trans)
qed simp

text \<open>
  C30: an executor without an injected client pays nothing. \<open>BunqClient\<close> takes no constructor
  argument and its \<open>create_payment\<close> has no parameter \<open>payment_config\<close>, so the call the executor
  makes raises before any request: whatever the provider would answer, a whole tick sends no
  payment request, stores no idempotency key and marks no run SUCCEEDED.
\<close>

theorem default_client_never_pays:
  "w_requests (executor_tick X S (DefaultClient post) worker now locked ins w) = w_requests w
    \<and> idempotency_keys (w_db (executor_tick X S (DefaultClient post) worker now locked ins w))
        = idempotency_keys (w_db w)
    \<and> succeeded (w_db (executor_tick X S (DefaultClient post) worker now locked ins w))
        \<subseteq> succeeded (w_db w)"
  using no_new_success_process_batch unfolding executor_tick_def no_new_success_def by blast

section \<open>An attempt whose key is already stored\<close>


section \<open>Worked examples\<close>

theorem batch_exact_witness:
  "fetch_pending_run_ids default_settings 200 (\<lambda>_. False) example_db = [1]
   \<and> distinct (fetch_pending_run_ids default_settings 200 (\<lambda>_. False) example_db)
   \<and> length (fetch_pending_run_ids default_settings 200 (\<lambda>_. False) example_db) \<le> 10"
  using batch_exact [OF db_ok_example refl, of default_settings 200 "\<lambda>_. False"]
  by (simp add: fetch_pending_run_ids_def select_limit_def claimable_def example_defs)

lemma example_claim:
  "claim_run default_settings ''w1'' 300 301 (\<lambda>_. False) 1 example_db
     = (RunClaimed, example_db\<lparr>job_runs := [example_run\<lparr>r_status := JobRunStatus.RUNNING,
          r_worker_id := Some ''w1'', r_lock_expires_at := Some 300000300, r_started_at := Some 301\<rparr>]\<rparr>)"
  by (simp add: claim_run_def update_runs_def example_defs)

theorem claim_exclusive_witness:
  "claim_run default_settings ''w2'' 400 401 (\<lambda>_. False) 1
     (snd (claim_run default_settings ''w1'' 300 301 (\<lambda>_. False) 1 example_db))
   = (AlreadyClaimed, snd (claim_run default_settings ''w1'' 300 301 (\<lambda>_. False) 1 example_db))"
  using claim_exclusive [OF db_ok_example example_claim] by (simp add: example_claim)

theorem one_success_per_attempt_witness:
  "fst (success_race example_ext
      [(300, example_run, example_sub, JStr ''p1''), (310, example_run, example_sub, JStr ''p2'')] example_db)
     = [True, False]
   \<and> count_list (fst (success_race example_ext
      [(300, example_run, example_sub, JStr ''p1''), (310, example_run, example_sub, JStr ''p2'')] example_db)) True \<le> 1"
  using one_success_per_attempt [of "[(300, example_run, example_sub, JStr ''p1''),
      (310, example_run, example_sub, JStr ''p2'')]" "(1, 1)" example_ext example_db]
  by (simp add: persist_success_def insert_key_def insert_row_def idempotency_row_def
      mark_succeeded_def example_defs)

lemma example_persist:
  "\<exists>d'. persist_success example_ext 300 example_run example_sub (JStr ''p1'') example_db = Inr (True, d')"
  by (simp add: persist_success_def insert_key_def insert_row_def idempotency_row_def example_defs)

theorem success_transaction_witness:
  "\<exists>d'. persist_success example_ext 300 example_run example_sub (JStr ''p1'') example_db = Inr (True, d')
     \<and> map r_status (job_runs d') = [JobRunStatus.SUCCEEDED] \<and> db_ok d'"
proof -
  obtain d' where d': "persist_success example_ext 300 example_run example_sub (JStr ''p1'') example_db = Inr (True, d')"
    using example_persist by blast
  from success_transaction [OF db_ok_example d'] have "db_ok d'" by blast
  with d' show ?thesis
    by (auto simp: persist_success_def insert_key_def insert_row_def idempotency_row_def
        mark_succeeded_def example_defs)
qed

lemma example_dead:
  "\<exists>d'. move_to_dlq ''w1'' 300 9 example_run example_sub ''declined'' example_db = Inr d'"
  by (simp add: move_to_dlq_Inr_iff example_defs)


definition example_inputs :: step_inputs where
  "example_inputs = \<lparr>in_now = 300, in_dlq_now = 310, in_random = 1 / 2, in_run_id = 2, in_dlq_id = 9\<rparr>"

lemma example_policy:
  "\<exists>p. policy_of (s_retry_policy example_sub) = Inr p \<and> max_attempts p = JInt 2
     \<and> base_backoff_s p = JFloat 60 \<and> max_backoff_s p = JFloat 3600 \<and> jitter p = JBool False"
  by (simp add: policy_of_def RetryPolicy_from_dict_def Let_def field_or_def example_defs
      RETRY_POLICY_KNOWN_KEYS_def RetryPolicy_defaults_def)

lemma example_retry:
  "\<exists>d'. handle_failure ''w1'' example_inputs example_run example_sub ''timeout'' True example_db = Inr d'"
proof -
  have "add_seconds 300 60 = Some 60000300"
    using round_half_even_int [of 60000000]
    by (simp add: add_seconds_def microseconds_def datetime_min_def datetime_max_def)
  then show ?thesis
    using example_policy
    by (auto simp: handle_failure_def is_exhausted_def next_delay_s_def backoff_def is_float_def
        example_inputs_def schedule_retry_Inr_iff Let_def example_run_def example_db_def example_job_def)
qed

theorem failure_routing_witness:
  "\<exists>d'. handle_failure ''w1'' example_inputs example_run example_sub ''timeout'' True example_db = Inr d'
     \<and> (5, 2) \<in> run_slot ` set (job_runs d') \<and> dead_letter_queue d' = []"
proof -
  obtain d' where d': "handle_failure ''w1'' example_inputs example_run example_sub ''timeout'' True example_db = Inr d'"
    using example_retry by blast
  obtain p where "policy_of (s_retry_policy example_sub) = Inr p" and "max_attempts p = JInt 2"
    using example_policy by blast
  then have "(5, 2) \<in> run_slot ` set (job_runs d') \<and> dead_letter_queue d' = dead_letter_queue example_db"
    using failure_routing [OF _ _ d', of p 2] by (simp add: example_run_def)
  with d' show ?thesis by (simp add: example_db_def)
qed

definition example_world :: world where
  "example_world = \<lparr>w_db = example_db\<lparr>idempotency_keys := [idempotency_row example_ext 250 example_run (Some ''p1'')]\<rparr>,
     w_requests = []\<rparr>"

end
