(* ===== verification/Leader.thy ===== *)
theory Leader
  imports Settings Errors
begin

text \<open>
  \<open>app/infrastructure/redis/leader.py\<close>: the leader lock, the epoch counter, the heartbeat, the
  verification and the release. The Redis server is a parameter: a record of the five commands
  the code uses, with their documented behaviour as the predicate \<open>redis_laws\<close>. The two Lua
  scripts are in the source and are modelled as the compositions they are, executed atomically.
  A call may fail before or after the server has executed it (\<open>fault\<close>). Times are
  milliseconds; the process clock and the server's are one.
\<close>

section \<open>The server\<close>

record 's redis =
  rd_get :: "string \<Rightarrow> int \<Rightarrow> 's \<Rightarrow> string option"
  rd_set_nx_px :: "string \<Rightarrow> string \<Rightarrow> int \<Rightarrow> int \<Rightarrow> 's \<Rightarrow> bool \<times> 's"
  rd_pexpire :: "string \<Rightarrow> int \<Rightarrow> int \<Rightarrow> 's \<Rightarrow> bool \<times> 's"
  rd_del :: "string \<Rightarrow> int \<Rightarrow> 's \<Rightarrow> bool \<times> 's"
  rd_incr :: "string \<Rightarrow> int \<Rightarrow> 's \<Rightarrow> int \<times> 's"

text \<open>After a command at \<open>now\<close>, GET of the key gives, from then on and while nothing else
  happens, what \<open>f\<close> says for each time; other keys are as before.\<close>

definition redis_shows ::
  "'s redis \<Rightarrow> string \<Rightarrow> int \<Rightarrow> (int \<Rightarrow> string option) \<Rightarrow> 's \<Rightarrow> 's \<Rightarrow> bool" where
  "redis_shows R k now f s s' \<longleftrightarrow>
     (\<forall>t \<ge> now. \<forall>k'. rd_get R k' t s' = (if k' = k then f t else rd_get R k' t s))"

definition until :: "int \<Rightarrow> string \<Rightarrow> int \<Rightarrow> string option" where
  "until deadline v t = (if t < deadline then Some v else None)"

text \<open>SET NX PX acts on an absent key only and sets the expiry; PEXPIRE sets the expiry of a
  present key; DEL removes; INCR adds one to the number stored, or to 0, keeping an expiry; an
  absent key stays absent as time passes.\<close>

definition set_law :: "'s redis \<Rightarrow> bool" where
  "set_law R \<longleftrightarrow> (\<forall>k v px now s. 0 < px \<longrightarrow>
     (if rd_get R k now s = None
      then fst (rd_set_nx_px R k v px now s)
         \<and> redis_shows R k now (until (now + px) v) s (snd (rd_set_nx_px R k v px now s))
      else rd_set_nx_px R k v px now s = (False, s)))"

definition pexpire_law :: "'s redis \<Rightarrow> bool" where
  "pexpire_law R \<longleftrightarrow> (\<forall>k px now s v. 0 < px \<and> rd_get R k now s = Some v \<longrightarrow>
     fst (rd_pexpire R k px now s)
   \<and> redis_shows R k now (until (now + px) v) s (snd (rd_pexpire R k px now s)))"

definition del_law :: "'s redis \<Rightarrow> bool" where
  "del_law R \<longleftrightarrow> (\<forall>k now s. redis_shows R k now (\<lambda>t. None) s (snd (rd_del R k now s)))"

definition incr_law :: "'s redis \<Rightarrow> bool" where
  "incr_law R \<longleftrightarrow> (\<forall>k n now s. 0 \<le> n \<and>
       (rd_get R k now s = Some (int_str n) \<or> rd_get R k now s = None \<and> n = 0) \<longrightarrow>
     fst (rd_incr R k now s) = n + 1
   \<and> redis_shows R k now (\<lambda>t. if rd_get R k now s = None \<or> rd_get R k t s \<noteq> None
                              then Some (int_str (n + 1)) else None) s (snd (rd_incr R k now s)))"

definition absent_law :: "'s redis \<Rightarrow> bool" where
  "absent_law R \<longleftrightarrow> (\<forall>k now t s. rd_get R k now s = None \<and> now \<le> t \<longrightarrow> rd_get R k t s = None)"

definition redis_laws :: "'s redis \<Rightarrow> bool" where
  "redis_laws R \<longleftrightarrow> set_law R \<and> pexpire_law R \<and> del_law R \<and> incr_law R \<and> absent_law R"

lemma redis_set:
  "redis_laws R \<Longrightarrow> 0 < px \<Longrightarrow>
     (if rd_get R k now s = None
      then fst (rd_set_nx_px R k v px now s)
         \<and> redis_shows R k now (until (now + px) v) s (snd (rd_set_nx_px R k v px now s))
      else rd_set_nx_px R k v px now s = (False, s))"
  unfolding redis_laws_def set_law_def by blast

lemma redis_pexpire:
  "redis_laws R \<Longrightarrow> 0 < px \<Longrightarrow> rd_get R k now s = Some v \<Longrightarrow>
     fst (rd_pexpire R k px now s)
   \<and> redis_shows R k now (until (now + px) v) s (snd (rd_pexpire R k px now s))"
  unfolding redis_laws_def pexpire_law_def by blast

lemma redis_del:
  "redis_laws R \<Longrightarrow> redis_shows R k now (\<lambda>t. None) s (snd (rd_del R k now s))"
  unfolding redis_laws_def del_law_def by blast

lemma redis_incr:
  "redis_laws R \<Longrightarrow> 0 \<le> n \<Longrightarrow>
     rd_get R k now s = Some (int_str n) \<or> rd_get R k now s = None \<and> n = 0 \<Longrightarrow>
     fst (rd_incr R k now s) = n + 1
   \<and> redis_shows R k now (\<lambda>t. if rd_get R k now s = None \<or> rd_get R k t s \<noteq> None
                              then Some (int_str (n + 1)) else None) s (snd (rd_incr R k now s))"
  unfolding redis_laws_def incr_law_def by blast

lemma redis_absent_later:
  "redis_laws R \<Longrightarrow> rd_get R k now s = None \<Longrightarrow> now \<le> t \<Longrightarrow> rd_get R k t s = None"
  unfolding redis_laws_def absent_law_def by blast

lemma redis_shows_key: "redis_shows R k now f s s' \<Longrightarrow> now \<le> t \<Longrightarrow> rd_get R k t s' = f t"
  by (simp add: redis_shows_def)

lemma redis_shows_other:
  "redis_shows R k now f s s' \<Longrightarrow> now \<le> t \<Longrightarrow> k' \<noteq> k \<Longrightarrow> rd_get R k' t s' = rd_get R k' t s"
  by (simp add: redis_shows_def)

section \<open>Calls\<close>

text \<open>A call is answered, or it raises before the command reached the server, or after the
  server executed it.\<close>

datatype fault = Answered | NotSent exn | NoReply exn

fun redis_call :: "fault \<Rightarrow> ('s \<Rightarrow> 'a \<times> 's) \<Rightarrow> 's \<Rightarrow> (exn + 'a) \<times> 's" where
  "redis_call Answered f s = (case f s of (a, s') \<Rightarrow> (Inr a, s'))"
| "redis_call (NotSent e) f s = (Inl e, s)"
| "redis_call (NoReply e) f s = (Inl e, snd (f s))"

lemma redis_call_state: "snd (redis_call fl f s) = s \<or> snd (redis_call fl f s) = snd (f s)"
  by (cases fl) (auto split: prod.split)

lemma redis_call_Inr: "redis_call fl f s = (Inr a, s') \<longleftrightarrow> fl = Answered \<and> f s = (a, s')"
  by (cases fl) (auto split: prod.split)

section \<open>The election object\<close>

record Election =
  el_token :: string
  el_epoch :: int
  el_is_leader :: bool
  el_heartbeat :: bool

definition Election_init :: "string \<Rightarrow> Election" where
  "Election_init token = \<lparr>el_token = token, el_epoch = 0, el_is_leader = False, el_heartbeat = False\<rparr>"

definition acquire_lock ::
  "'s redis \<Rightarrow> Settings \<Rightarrow> fault \<Rightarrow> int \<Rightarrow> Election \<Rightarrow> 's \<Rightarrow> (exn + bool) \<times> 's" where
  "acquire_lock R S fl now e s =
     redis_call fl (rd_set_nx_px R REDIS_LEADER_KEY (el_token e) (LEADER_LOCK_TTL_MS S) now) s"

text \<open>\<open>_increment_epoch\<close>, then the fields and the heartbeat task.\<close>

definition start_term ::
  "'s redis \<Rightarrow> fault \<Rightarrow> int \<Rightarrow> Election \<Rightarrow> 's \<Rightarrow> (exn + Election) \<times> 's" where
  "start_term R fl now e s =
     (case redis_call fl (rd_incr R REDIS_LEADER_EPOCH_KEY now) s of
        (Inl x, s') \<Rightarrow> (Inl x, s')
      | (Inr n, s') \<Rightarrow> (Inr (e\<lparr>el_epoch := n, el_is_leader := True, el_heartbeat := True\<rparr>), s'))"

definition try_acquire ::
  "'s redis \<Rightarrow> Settings \<Rightarrow> fault \<Rightarrow> fault \<Rightarrow> int \<Rightarrow> int \<Rightarrow> Election \<Rightarrow> 's \<Rightarrow> (exn + bool) \<times> Election \<times> 's" where
  "try_acquire R S fl fl' now now' e s =
     (if el_is_leader e then (Inr True, e, s)
      else case acquire_lock R S fl now e s of
        (Inl x, s1) \<Rightarrow> (Inl x, e, s1)
      | (Inr acquired, s1) \<Rightarrow>
          if acquired then
            (case start_term R fl' now' e s1 of
               (Inl x, s2) \<Rightarrow> (Inl x, e, s2)
             | (Inr e', s2) \<Rightarrow> (Inr True, e', s2))
          else (Inr False, e, s1))"

definition verify_still_leader ::
  "'s redis \<Rightarrow> fault \<Rightarrow> int \<Rightarrow> Election \<Rightarrow> 's \<Rightarrow> (exn + bool) \<times> Election" where
  "verify_still_leader R fl now e s =
     (if \<not> el_is_leader e then (Inr False, e)
      else case fst (redis_call fl (\<lambda>s. (rd_get R REDIS_LEADER_KEY now s, s)) s) of
        Inl x \<Rightarrow> (Inl x, e)
      | Inr current \<Rightarrow>
          if current = Some (el_token e) then (Inr True, e)
          else (Inr False, e\<lparr>el_is_leader := False, el_heartbeat := False\<rparr>))"

text \<open>The two scripts.\<close>

definition renew_script :: "'s redis \<Rightarrow> string \<Rightarrow> int \<Rightarrow> int \<Rightarrow> 's \<Rightarrow> bool \<times> 's" where
  "renew_script R token ttl now s =
     (if rd_get R REDIS_LEADER_KEY now s = Some token
      then rd_pexpire R REDIS_LEADER_KEY ttl now s else (False, s))"

definition release_script :: "'s redis \<Rightarrow> string \<Rightarrow> int \<Rightarrow> 's \<Rightarrow> bool \<times> 's" where
  "release_script R token now s =
     (if rd_get R REDIS_LEADER_KEY now s = Some token
      then rd_del R REDIS_LEADER_KEY now s else (False, s))"

text \<open>One round of \<open>_heartbeat_loop\<close> after its sleep. An exception of the renewal ends the task
  and leaves \<open>_is_leader\<close> as it was.\<close>

definition heartbeat ::
  "'s redis \<Rightarrow> Settings \<Rightarrow> fault \<Rightarrow> int \<Rightarrow> Election \<Rightarrow> 's \<Rightarrow> Election \<times> 's" where
  "heartbeat R S fl now e s =
     (if \<not> el_is_leader e then (e\<lparr>el_heartbeat := False\<rparr>, s)
      else case redis_call fl (renew_script R (el_token e) (LEADER_LOCK_TTL_MS S) now) s of
        (Inl x, s') \<Rightarrow> (e\<lparr>el_heartbeat := False\<rparr>, s')
      | (Inr renewed, s') \<Rightarrow>
          (if renewed then e else e\<lparr>el_is_leader := False, el_heartbeat := False\<rparr>, s'))"

definition release ::
  "'s redis \<Rightarrow> fault \<Rightarrow> int \<Rightarrow> Election \<Rightarrow> 's \<Rightarrow> (exn + unit) \<times> Election \<times> 's" where
  "release R fl now e s =
     (if \<not> el_is_leader e then (Inr (), e, s)
      else let e1 = e\<lparr>el_heartbeat := False\<rparr> in
        case redis_call fl (release_script R (el_token e) now) s of
          (Inl x, s') \<Rightarrow> (Inl x, e1, s')
        | (Inr b, s') \<Rightarrow> (Inr (), e1\<lparr>el_is_leader := False\<rparr>, s'))"

section \<open>Writing under the lock\<close>

text \<open>
  What the leader-only workers rely on: a verification that answers True met the lock in this
  process's hands and changed nothing. A write guarded by it (\<open>guarded\<close>) is skipped, without any
  effect on what it would write, when the answer is False or the call fails.
\<close>

locale leader_gate =
  fixes verify :: "'v \<Rightarrow> 'e \<Rightarrow> (exn + bool) \<times> 'e"
    and holds :: "'v \<Rightarrow> 'e \<Rightarrow> bool"
  assumes verify_sound: "verify v e = (Inr True, e') \<Longrightarrow> holds v e \<and> e' = e"
begin

definition guarded :: "'v \<Rightarrow> 'b \<Rightarrow> ('e \<Rightarrow> 'x \<Rightarrow> (exn + 'b) \<times> 'e \<times> 'x) \<Rightarrow> 'e \<Rightarrow> 'x \<Rightarrow> (exn + 'b) \<times> 'e \<times> 'x" where
  "guarded v skipped write e x =
     (case verify v e of
        (Inl exc, e') \<Rightarrow> (Inl exc, e', x)
      | (Inr ok, e') \<Rightarrow> if ok then write e' x else (Inr skipped, e', x))"

lemma guarded_cases:
  assumes "guarded v skipped write e x = (res, e', x')"
  obtains (skipping) "x' = x" | (writing) "holds v e" "write e x = (res, e', x')"
  using assms by (auto simp: guarded_def dest!: verify_sound split: prod.splits sum.splits if_splits)

lemma guarded_write_needs_lock:
  assumes "guarded v skipped write e x = (res, e', x')" and "x' \<noteq> x"
  shows "holds v e"
  using assms(1) by (cases rule: guarded_cases) (use assms(2) in auto)

end

definition verify_at :: "'s redis \<Rightarrow> fault \<times> int \<times> 's \<Rightarrow> Election \<Rightarrow> (exn + bool) \<times> Election" where
  "verify_at R = (\<lambda>(fl, now, s) e. verify_still_leader R fl now e s)"

definition lock_held :: "'s redis \<Rightarrow> fault \<times> int \<times> 's \<Rightarrow> Election \<Rightarrow> bool" where
  "lock_held R = (\<lambda>(fl, now, s) e. el_is_leader e \<and> rd_get R REDIS_LEADER_KEY now s = Some (el_token e))"

lemma verify_True:
  "verify_still_leader R fl now e s = (Inr True, e') \<Longrightarrow>
     el_is_leader e \<and> rd_get R REDIS_LEADER_KEY now s = Some (el_token e) \<and> e' = e"
  by (cases fl) (auto simp: verify_still_leader_def split: if_splits)

interpretation election: leader_gate "verify_at R" "lock_held R"
  by unfold_locales (auto simp: verify_at_def lock_held_def dest!: verify_True)

section \<open>Several processes\<close>

text \<open>
  The elections of the processes, numbered, those between the SET and the INCR of an
  acquisition, the server and the clock. One step is one call of one process, or time passing;
  the label names the process.
\<close>

record 's cluster =
  cl_election :: "nat \<Rightarrow> Election"
  cl_acquiring :: "nat set"
  cl_redis :: 's
  cl_clock :: int

inductive cluster_step :: "'s redis \<Rightarrow> Settings \<Rightarrow> nat option \<Rightarrow> 's cluster \<Rightarrow> 's cluster \<Rightarrow> bool"
  for R S where
  wait: "cl_clock c \<le> t \<Longrightarrow> cluster_step R S None c (c\<lparr>cl_clock := t\<rparr>)"
| acquire: "\<not> el_is_leader (cl_election c p) \<Longrightarrow> p \<notin> cl_acquiring c \<Longrightarrow>
     acquire_lock R S fl (cl_clock c) (cl_election c p) (cl_redis c) = (reply, s') \<Longrightarrow>
     cluster_step R S (Some p) c (c\<lparr>cl_redis := s',
       cl_acquiring := (if reply = Inr True then insert p (cl_acquiring c) else cl_acquiring c)\<rparr>)"
| start: "p \<in> cl_acquiring c \<Longrightarrow>
     start_term R fl (cl_clock c) (cl_election c p) (cl_redis c) = (reply, s') \<Longrightarrow>
     cluster_step R S (Some p) c (c\<lparr>cl_redis := s', cl_acquiring := cl_acquiring c - {p},
       cl_election := (case reply of Inl x \<Rightarrow> cl_election c | Inr e' \<Rightarrow> (cl_election c)(p := e'))\<rparr>)"
| beat: "el_heartbeat (cl_election c p) \<Longrightarrow>
     heartbeat R S fl (cl_clock c) (cl_election c p) (cl_redis c) = (e', s') \<Longrightarrow>
     cluster_step R S (Some p) c (c\<lparr>cl_redis := s', cl_election := (cl_election c)(p := e')\<rparr>)"
| verify: "verify_still_leader R fl (cl_clock c) (cl_election c p) (cl_redis c) = (answer, e') \<Longrightarrow>
     cluster_step R S (Some p) c (c\<lparr>cl_election := (cl_election c)(p := e')\<rparr>)"
| release: "release R fl (cl_clock c) (cl_election c p) (cl_redis c) = (outcome, e', s') \<Longrightarrow>
     cluster_step R S (Some p) c (c\<lparr>cl_redis := s', cl_election := (cl_election c)(p := e')\<rparr>)"

inductive_cases cluster_stepE: "cluster_step R S a c c'"

definition cluster_moves :: "'s redis \<Rightarrow> Settings \<Rightarrow> 's cluster \<Rightarrow> 's cluster \<Rightarrow> bool" where
  "cluster_moves R S c c' \<longleftrightarrow> (\<exists>a. cluster_step R S a c c')"

text \<open>Processes start with their own token, no term and no lock, on a server without the keys.\<close>

definition cluster_start :: "'s redis \<Rightarrow> (nat \<Rightarrow> string) \<Rightarrow> 's cluster \<Rightarrow> bool" where
  "cluster_start R tok c \<longleftrightarrow> (\<forall>p. cl_election c p = Election_init (tok p)) \<and> cl_acquiring c = {}
     \<and> (\<forall>t \<ge> cl_clock c. rd_get R REDIS_LEADER_EPOCH_KEY t (cl_redis c) = None)"

text \<open>What a call leaves of the server, as seen at and after its time.\<close>

lemma keys_differ [simp]: "REDIS_LEADER_KEY \<noteq> REDIS_LEADER_EPOCH_KEY" "REDIS_LEADER_EPOCH_KEY \<noteq> REDIS_LEADER_KEY"
  by (simp_all add: REDIS_LEADER_KEY_def REDIS_LEADER_EPOCH_KEY_def)

lemma acquire_lock_state:
  assumes "redis_laws R" and "0 < LEADER_LOCK_TTL_MS S"
    and "acquire_lock R S fl now e s = (reply, s')"
  shows "s' = s \<and> reply \<noteq> Inr True
    \<or> rd_get R REDIS_LEADER_KEY now s = None
      \<and> redis_shows R REDIS_LEADER_KEY now (until (now + LEADER_LOCK_TTL_MS S) (el_token e)) s s'"
  using assms(3) redis_set [OF assms(1,2), of REDIS_LEADER_KEY now s "el_token e"]
  by (cases fl) (auto simp: acquire_lock_def split: prod.splits if_splits)

lemma start_term_state:
  assumes "start_term R fl now e s = (reply, s')"
  shows "(s' = s \<or> s' = snd (rd_incr R REDIS_LEADER_EPOCH_KEY now s))
    \<and> (\<forall>e'. reply = Inr e' \<longrightarrow> s' = snd (rd_incr R REDIS_LEADER_EPOCH_KEY now s)
         \<and> e' = e\<lparr>el_epoch := fst (rd_incr R REDIS_LEADER_EPOCH_KEY now s),
                  el_is_leader := True, el_heartbeat := True\<rparr>)"
  using assms by (cases fl) (auto simp: start_term_def split: prod.splits)

lemma renew_script_state:
  assumes "redis_laws R" and "0 < ttl"
  shows "(if rd_get R REDIS_LEADER_KEY now s = Some token
     then fst (renew_script R token ttl now s)
        \<and> redis_shows R REDIS_LEADER_KEY now (until (now + ttl) token) s (snd (renew_script R token ttl now s))
     else renew_script R token ttl now s = (False, s))"
  using redis_pexpire [OF assms] by (simp add: renew_script_def)

lemma release_script_state:
  assumes "redis_laws R"
  shows "(if rd_get R REDIS_LEADER_KEY now s = Some token
     then redis_shows R REDIS_LEADER_KEY now (\<lambda>t. None) s (snd (release_script R token now s))
     else release_script R token now s = (False, s))"
  using redis_del [OF assms] by (simp add: release_script_def)

lemma heartbeat_state:
  assumes "heartbeat R S fl now e s = (e', s')"
  shows "(s' = s \<or> s' = snd (renew_script R (el_token e) (LEADER_LOCK_TTL_MS S) now s))
    \<and> el_token e' = el_token e \<and> el_epoch e' = el_epoch e"
  using assms by (cases fl) (auto simp: heartbeat_def split: prod.splits if_splits)

lemma release_state:
  assumes "release R fl now e s = (outcome, e', s')"
  shows "(s' = s \<or> s' = snd (release_script R (el_token e) now s))
    \<and> el_token e' = el_token e \<and> el_epoch e' = el_epoch e"
  using assms by (cases fl) (auto simp: release_def Let_def split: prod.splits if_splits)

lemma verify_state:
  assumes "verify_still_leader R fl now e s = (answer, e')"
  shows "el_token e' = el_token e \<and> el_epoch e' = el_epoch e"
  using assms by (cases fl) (auto simp: verify_still_leader_def split: if_splits)

lemmas call_states = acquire_lock_state start_term_state renew_script_state release_script_state
  heartbeat_state release_state verify_state

section \<open>Epochs\<close>

definition counter_is :: "'s redis \<Rightarrow> int \<Rightarrow> int \<Rightarrow> 's \<Rightarrow> bool" where
  "counter_is R now n s \<longleftrightarrow> 0 \<le> n \<and>
     (\<forall>t \<ge> now. rd_get R REDIS_LEADER_EPOCH_KEY t s = (if n = 0 then None else Some (int_str n)))"

lemma counter_later: "counter_is R now n s \<Longrightarrow> now \<le> now' \<Longrightarrow> counter_is R now' n s"
  by (auto simp: counter_is_def)

lemma counter_other:
  "redis_shows R REDIS_LEADER_KEY now f s s' \<Longrightarrow> counter_is R now n s \<Longrightarrow> counter_is R now n s'"
  by (simp add: counter_is_def redis_shows_other)

lemma counter_incr:
  assumes "redis_laws R" and "counter_is R now n s"
  shows "fst (rd_incr R REDIS_LEADER_EPOCH_KEY now s) = n + 1
    \<and> counter_is R now (n + 1) (snd (rd_incr R REDIS_LEADER_EPOCH_KEY now s))"
proof -
  have n: "0 \<le> n" and get: "rd_get R REDIS_LEADER_EPOCH_KEY now s = Some (int_str n)
      \<or> rd_get R REDIS_LEADER_EPOCH_KEY now s = None \<and> n = 0"
    using assms(2) by (auto simp: counter_is_def)
  note incr = redis_incr [OF assms(1) n get]
  then have "rd_get R REDIS_LEADER_EPOCH_KEY t (snd (rd_incr R REDIS_LEADER_EPOCH_KEY now s)) = Some (int_str (n + 1))"
    if "now \<le> t" for t
    using redis_shows_key [OF conjunct2 [OF incr] that] assms(2) that by (auto simp: counter_is_def)
  with incr n show ?thesis by (simp add: counter_is_def)
qed

definition epochs_ok :: "'s redis \<Rightarrow> (nat \<Rightarrow> string) \<Rightarrow> 's cluster \<Rightarrow> bool" where
  "epochs_ok R tok c \<longleftrightarrow> (\<forall>p. el_token (cl_election c p) = tok p)
     \<and> (\<exists>n. counter_is R (cl_clock c) n (cl_redis c)
          \<and> (\<forall>p. 0 \<le> el_epoch (cl_election c p) \<and> el_epoch (cl_election c p) \<le> n))
     \<and> (\<forall>p q. p \<noteq> q \<and> el_epoch (cl_election c p) = el_epoch (cl_election c q)
          \<longrightarrow> el_epoch (cl_election c p) = 0)"

lemma epochs_ok_frame:
  assumes "epochs_ok R tok c"
    and "\<And>p. el_token (cl_election c' p) = el_token (cl_election c p)"
    and "\<And>p. el_epoch (cl_election c' p) = el_epoch (cl_election c p)"
    and "\<And>n. counter_is R (cl_clock c) n (cl_redis c) \<Longrightarrow> counter_is R (cl_clock c') n (cl_redis c')"
  shows "epochs_ok R tok c'"
  using assms unfolding epochs_ok_def by metis

lemma epochs_ok_step:
  assumes "redis_laws R" and "0 < LEADER_LOCK_TTL_MS S"
    and "epochs_ok R tok c" and "cluster_step R S a c c'"
  shows "epochs_ok R tok c'"
  using assms(4)
proof cases
  case (wait t)
  then show ?thesis by (intro epochs_ok_frame [OF assms(3)]) (auto intro: counter_later)
next
  case (acquire p fl reply s')
  then show ?thesis
    using acquire_lock_state [OF assms(1,2) acquire(5)]
    by (intro epochs_ok_frame [OF assms(3)]) (auto intro: counter_other)
next
  case (beat p fl e' s')
  have "s' = cl_redis c \<or> (\<exists>f. redis_shows R REDIS_LEADER_KEY (cl_clock c) f (cl_redis c) s')"
    using heartbeat_state [OF beat(4)]
      renew_script_state [OF assms(1,2), of "cl_clock c" "cl_redis c" "el_token (cl_election c p)"]
    by (auto split: if_splits)
  with beat show ?thesis
    using heartbeat_state [OF beat(4)]
    by (intro epochs_ok_frame [OF assms(3)]) (auto intro: counter_other)
next
  case (verify fl p answer e')
  then show ?thesis
    using verify_state [OF verify(3)] by (intro epochs_ok_frame [OF assms(3)]) auto
next
  case (release fl p outcome e' s')
  have "s' = cl_redis c \<or> (\<exists>f. redis_shows R REDIS_LEADER_KEY (cl_clock c) f (cl_redis c) s')"
    using release_state [OF release(3)]
      release_script_state [OF assms(1), of "cl_clock c" "cl_redis c" "el_token (cl_election c p)"]
    by (auto split: if_splits)
  with release show ?thesis
    using release_state [OF release(3)]
    by (intro epochs_ok_frame [OF assms(3)]) (auto intro: counter_other)
next
  case (start p fl reply s')
  from assms(3) obtain n where n: "counter_is R (cl_clock c) n (cl_redis c)"
    and le: "\<And>q. 0 \<le> el_epoch (cl_election c q) \<and> el_epoch (cl_election c q) \<le> n"
    and tok: "\<And>q. el_token (cl_election c q) = tok q"
    and inj: "\<And>q q'. q \<noteq> q' \<Longrightarrow> el_epoch (cl_election c q) = el_epoch (cl_election c q')
               \<Longrightarrow> el_epoch (cl_election c q') = 0"
    unfolding epochs_ok_def by metis
  note st = start_term_state [OF start(4)] counter_incr [OF assms(1) n]
  have n': "\<exists>m. n \<le> m \<and> counter_is R (cl_clock c) m s'" using st n by (metis add.commute le_add_same_cancel2 order_refl zero_le_one)
  show ?thesis
  proof (cases reply)
    case (Inl x)
    with n' le show ?thesis unfolding epochs_ok_def start(2) by (auto simp: tok intro: order_trans dest: inj)
  next
    case (Inr e')
    then have e': "el_token e' = tok p" "el_epoch e' = n + 1" "counter_is R (cl_clock c) (n + 1) s'"
      using st tok by auto
    have "0 \<le> n" using n by (simp add: counter_is_def)
    have new: "el_epoch (cl_election c q) \<noteq> n + 1" for q using le [of q] by simp
    let ?el = "(cl_election c)(p := e')"
    have "\<forall>q. el_token (?el q) = tok q" using e' tok by simp
    moreover have "counter_is R (cl_clock c) (n + 1) s' \<and> (\<forall>q. 0 \<le> el_epoch (?el q) \<and> el_epoch (?el q) \<le> n + 1)"
      using e' le \<open>0 \<le> n\<close> by (auto intro: order_trans [of _ n])
    moreover have "\<forall>q q'. q \<noteq> q' \<and> el_epoch (?el q) = el_epoch (?el q') \<longrightarrow> el_epoch (?el q) = 0"
      using e' new [THEN not_sym] new by (auto dest: inj)
    moreover have "cl_election c' = ?el" "cl_redis c' = s'" "cl_clock c' = cl_clock c"
      using start(2) Inr by simp_all
    ultimately show ?thesis unfolding epochs_ok_def by metis
  qed
qed

interpretation epochs: inductive_invariant
  "\<lambda>c. redis_laws R \<and> 0 < LEADER_LOCK_TTL_MS S \<and> cluster_start R tok c"
  "cluster_moves R S"
  "\<lambda>c. redis_laws R \<and> 0 < LEADER_LOCK_TTL_MS S \<and> epochs_ok R tok c"
proof
  fix c assume "redis_laws R \<and> 0 < LEADER_LOCK_TTL_MS S \<and> cluster_start R tok c"
  then show "redis_laws R \<and> 0 < LEADER_LOCK_TTL_MS S \<and> epochs_ok R tok c"
    by (auto simp: cluster_start_def epochs_ok_def Election_init_def counter_is_def intro!: exI [of _ 0])
next
  fix c c' assume "redis_laws R \<and> 0 < LEADER_LOCK_TTL_MS S \<and> epochs_ok R tok c" "cluster_moves R S c c'"
  then show "redis_laws R \<and> 0 < LEADER_LOCK_TTL_MS S \<and> epochs_ok R tok c'"
    unfolding cluster_moves_def using epochs_ok_step by blast
qed


section \<open>Only its owner, or time, ends a lock\<close>

lemma foreign_renew:
  "rd_get R REDIS_LEADER_KEY now s = Some v \<Longrightarrow> v \<noteq> token \<Longrightarrow> renew_script R token ttl now s = (False, s)"
  by (simp add: renew_script_def)

lemma foreign_release:
  "rd_get R REDIS_LEADER_KEY now s = Some v \<Longrightarrow> v \<noteq> token \<Longrightarrow> release_script R token now s = (False, s)"
  by (simp add: release_script_def)

lemma foreign_acquire:
  assumes "redis_laws R" and "0 < LEADER_LOCK_TTL_MS S"
    and "rd_get R REDIS_LEADER_KEY now s = Some v" and "acquire_lock R S fl now e s = (reply, s')"
  shows "s' = s \<and> reply \<noteq> Inr True"
  using acquire_lock_state [OF assms(1,2,4)] assms(3) by simp

lemma start_term_lock:
  assumes "redis_laws R" and "counter_is R now n s" and "start_term R fl now e s = (reply, s')" and "now \<le> t"
  shows "rd_get R REDIS_LEADER_KEY t s' = rd_get R REDIS_LEADER_KEY t s"
proof -
  have n: "0 \<le> n" and get: "rd_get R REDIS_LEADER_EPOCH_KEY now s = Some (int_str n)
      \<or> rd_get R REDIS_LEADER_EPOCH_KEY now s = None \<and> n = 0"
    using assms(2) by (auto simp: counter_is_def)
  show ?thesis
    using start_term_state [OF assms(3)] redis_shows_other [OF conjunct2 [OF redis_incr [OF assms(1) n get]] assms(4)]
    by auto
qed

lemma lock_kept:
  assumes "redis_laws R" and "0 < LEADER_LOCK_TTL_MS S" and "inj tok" and "epochs_ok R tok c"
    and "rd_get R REDIS_LEADER_KEY (cl_clock c) (cl_redis c) = Some (tok p)"
    and "cluster_step R S a c c'" and "a \<noteq> Some p" and "cl_clock c' \<le> t"
  shows "rd_get R REDIS_LEADER_KEY t (cl_redis c') = rd_get R REDIS_LEADER_KEY t (cl_redis c)"
  using assms(6)
proof cases
  case (acquire q fl reply s')
  then show ?thesis using foreign_acquire [OF assms(1,2,5) acquire(5)] by simp
next
  case (start q fl reply s')
  from assms(4) obtain n where "counter_is R (cl_clock c) n (cl_redis c)"
    unfolding epochs_ok_def by blast
  from start_term_lock [OF assms(1) this start(4)] start assms(8) show ?thesis by simp
next
  case (beat q fl e' s')
  then have "tok p \<noteq> el_token (cl_election c q)"
    using assms(3,4,7) unfolding epochs_ok_def by (metis injD)
  with heartbeat_state [OF beat(4)] foreign_renew [OF assms(5)] beat show ?thesis by auto
next
  case (release fl q outcome e' s')
  then have "tok p \<noteq> el_token (cl_election c q)"
    using assms(3,4,7) unfolding epochs_ok_def by (metis injD)
  with release_state [OF release(3)] foreign_release [OF assms(5)] release show ?thesis by auto
qed simp_all

text \<open>
  While a process's token is in the lock, no call of another process, whether it acquires,
  renews, verifies or releases and however its calls fail, changes the lock now or for any
  later moment; so it can only end by its owner's release or by expiry.
\<close>

theorem lock_safe_from_others:
  assumes "redis_laws R" and "0 < LEADER_LOCK_TTL_MS S" and "inj tok" and "epochs_ok R tok c"
    and "rd_get R REDIS_LEADER_KEY (cl_clock c) (cl_redis c) = Some (tok p)"
    and "cluster_step R S a c c'" and "a \<noteq> Some p" and "cl_clock c' \<le> t"
  shows "rd_get R REDIS_LEADER_KEY t (cl_redis c') = rd_get R REDIS_LEADER_KEY t (cl_redis c)"
  using assms by (rule lock_kept)

section \<open>A leader that renews in time\<close>

text \<open>
  \<open>on_time R S p\<close> relates a cluster with a deadline to the next: the deadline is the moment the
  lock of \<open>p\<close> would expire. Other processes and the clock move at will before the deadline, \<open>p\<close>
  verifies at will, and an answered heartbeat of \<open>p\<close> before the deadline moves it to one TTL later.
\<close>

inductive on_time :: "'s redis \<Rightarrow> Settings \<Rightarrow> nat \<Rightarrow> int \<times> 's cluster \<Rightarrow> int \<times> 's cluster \<Rightarrow> bool"
  for R S p where
  other: "cluster_step R S a c c' \<Longrightarrow> a \<noteq> Some p \<Longrightarrow> cl_clock c' < d \<Longrightarrow> on_time R S p (d, c) (d, c')"
| renew: "heartbeat R S Answered (cl_clock c) (cl_election c p) (cl_redis c) = (e', s') \<Longrightarrow>
     on_time R S p (d, c) (cl_clock c + LEADER_LOCK_TTL_MS S,
       c\<lparr>cl_redis := s', cl_election := (cl_election c)(p := e')\<rparr>)"
| check: "verify_still_leader R Answered (cl_clock c) (cl_election c p) (cl_redis c) = (answer, e') \<Longrightarrow>
     on_time R S p (d, c) (d, c\<lparr>cl_election := (cl_election c)(p := e')\<rparr>)"

inductive_cases on_timeE: "on_time R S p dc dc'"

definition holds_until :: "'s redis \<Rightarrow> (nat \<Rightarrow> string) \<Rightarrow> nat \<Rightarrow> int \<times> 's cluster \<Rightarrow> bool" where
  "holds_until R tok p = (\<lambda>(d, c). epochs_ok R tok c \<and> cl_clock c < d
     \<and> el_is_leader (cl_election c p) \<and> el_heartbeat (cl_election c p) \<and> p \<notin> cl_acquiring c
     \<and> (\<forall>t. cl_clock c \<le> t \<and> t < d \<longrightarrow> rd_get R REDIS_LEADER_KEY t (cl_redis c) = Some (tok p)))"

lemma cluster_step_self:
  "cluster_step R S a c c' \<Longrightarrow> a \<noteq> Some p \<Longrightarrow>
     cl_election c' p = cl_election c p \<and> (p \<in> cl_acquiring c' \<longleftrightarrow> p \<in> cl_acquiring c) \<and> cl_clock c \<le> cl_clock c'"
  by (erule cluster_stepE) (auto split: sum.splits)

lemma holds_until_now:
  "holds_until R tok p (d, c) \<Longrightarrow> rd_get R REDIS_LEADER_KEY (cl_clock c) (cl_redis c) = Some (tok p)"
  by (simp add: holds_until_def)

lemma holds_until_on_time:
  assumes "redis_laws R" and "0 < LEADER_LOCK_TTL_MS S" and "inj tok"
    and "holds_until R tok p dc" and "on_time R S p dc dc'"
  shows "holds_until R tok p dc'"
  using assms(5)
proof cases
  case (other a c c' d)
  then have h: "holds_until R tok p (d, c)" using assms(4) by simp
  then have ok: "epochs_ok R tok c" by (simp add: holds_until_def)
  note lock = lock_kept [OF assms(1-3) ok holds_until_now [OF h] other(3,4)]
  from epochs_ok_step [OF assms(1,2) ok other(3)] cluster_step_self [OF other(3,4)] lock h other(5)
  show ?thesis unfolding other(2) holds_until_def by auto
next
  case (renew c e' s' d)
  then have h: "holds_until R tok p (d, c)" using assms(4) by simp
  then have ok: "epochs_ok R tok c" and hb: "el_is_leader (cl_election c p)" "el_heartbeat (cl_election c p)"
    by (simp_all add: holds_until_def)
  then have tok: "el_token (cl_election c p) = tok p" by (simp add: epochs_ok_def)
  from renew(3) hb holds_until_now [OF h]
    renew_script_state [OF assms(1,2), of "cl_clock c" "cl_redis c" "tok p"]
  have e': "e' = cl_election c p"
    and s': "redis_shows R REDIS_LEADER_KEY (cl_clock c) (until (cl_clock c + LEADER_LOCK_TTL_MS S) (tok p))
               (cl_redis c) s'"
    by (auto simp: heartbeat_def tok split: prod.splits if_splits)
  let ?c = "c\<lparr>cl_redis := s', cl_election := (cl_election c)(p := e')\<rparr>"
  have "epochs_ok R tok ?c"
    using counter_other [OF s'] e' by (intro epochs_ok_frame [OF ok]) auto
  with h e' assms(2) redis_shows_key [OF s'] show ?thesis
    unfolding renew(2) holds_until_def by (simp add: until_def)
next
  case (check c answer e' d)
  then have h: "holds_until R tok p (d, c)" using assms(4) by simp
  then have "el_token (cl_election c p) = tok p" "el_is_leader (cl_election c p)"
    by (simp_all add: holds_until_def epochs_ok_def)
  with check(3) holds_until_now [OF h] have "e' = cl_election c p"
    by (auto simp: verify_still_leader_def)
  then have "c\<lparr>cl_election := (cl_election c)(p := e')\<rparr> = c" by simp
  with h show ?thesis unfolding check(2) by simp
qed

interpretation timely: inductive_invariant
  "\<lambda>dc. redis_laws R \<and> 0 < LEADER_LOCK_TTL_MS S \<and> inj tok \<and> holds_until R tok p dc"
  "on_time R S p"
  "\<lambda>dc. redis_laws R \<and> 0 < LEADER_LOCK_TTL_MS S \<and> inj tok \<and> holds_until R tok p dc"
  by unfold_locales (auto intro: holds_until_on_time)

text \<open>
  C23: a leader whose heartbeats are answered before its lock expires stays leader for as long
  as this goes on: after any interleaving with other processes it still is the leader, its
  verification succeeds, and no other process's attempt to acquire the lock does.
\<close>

theorem timely_leader_stays:
  assumes "redis_laws R" and "0 < LEADER_LOCK_TTL_MS S" and "inj tok"
    and "holds_until R tok p (d, c)" and "(on_time R S p)\<^sup>*\<^sup>* (d, c) (d', c')"
  shows "el_is_leader (cl_election c' p)
    \<and> fst (verify_still_leader R Answered (cl_clock c') (cl_election c' p) (cl_redis c')) = Inr True
    \<and> fst (acquire_lock R S fl (cl_clock c') (cl_election c' q) (cl_redis c')) \<noteq> Inr True"
proof -
  have h: "holds_until R tok p (d', c')"
    using timely.inv_reachable [of R S tok p "(d, c)" "(d', c')"] assms by blast
  then have "el_is_leader (cl_election c' p)" "el_token (cl_election c' p) = tok p"
    by (simp_all add: holds_until_def epochs_ok_def)
  moreover note now = holds_until_now [OF h]
  moreover have "fst (acquire_lock R S fl (cl_clock c') (cl_election c' q) (cl_redis c')) \<noteq> Inr True"
    using foreign_acquire [OF assms(1,2) now, of fl "cl_election c' q"] by (metis prod.collapse)
  ultimately show ?thesis by (simp add: verify_still_leader_def)
qed

section \<open>An instance of the server\<close>

text \<open>A store of texts with optional expiry times, which satisfies the laws; the worked examples
  run on it.\<close>

type_synonym store = "string \<Rightarrow> (string \<times> int option) option"

definition store_get :: "string \<Rightarrow> int \<Rightarrow> store \<Rightarrow> string option" where
  "store_get k now s = (case s k of None \<Rightarrow> None | Some (v, None) \<Rightarrow> Some v
     | Some (v, Some deadline) \<Rightarrow> if now < deadline then Some v else None)"

definition example_redis :: "store redis" where
  "example_redis = \<lparr>
     rd_get = store_get,
     rd_set_nx_px = (\<lambda>k v px now s. if store_get k now s = None
        then (True, s(k \<mapsto> (v, Some (now + px)))) else (False, s)),
     rd_pexpire = (\<lambda>k px now s. case store_get k now s of None \<Rightarrow> (False, s)
        | Some v \<Rightarrow> (True, s(k \<mapsto> (v, Some (now + px))))),
     rd_del = (\<lambda>k now s. (store_get k now s \<noteq> None, s(k := None))),
     rd_incr = (\<lambda>k now s. case store_get k now s of
          None \<Rightarrow> (1, s(k \<mapsto> (int_str 1, None)))
        | Some v \<Rightarrow> (int (digits_val v) + 1,
            s(k \<mapsto> (int_str (int (digits_val v) + 1), case s k of None \<Rightarrow> None | Some (_, e) \<Rightarrow> e))))\<rparr>"

lemma example_redis_simps [simp]:
  "rd_get example_redis = store_get"
  "rd_set_nx_px example_redis k v px now s = (if store_get k now s = None
        then (True, s(k \<mapsto> (v, Some (now + px)))) else (False, s))"
  "rd_pexpire example_redis k px now s = (case store_get k now s of None \<Rightarrow> (False, s)
        | Some v \<Rightarrow> (True, s(k \<mapsto> (v, Some (now + px)))))"
  "rd_del example_redis k now s = (store_get k now s \<noteq> None, s(k := None))"
  "rd_incr example_redis k now s = (case store_get k now s of
          None \<Rightarrow> (1, s(k \<mapsto> (int_str 1, None)))
        | Some v \<Rightarrow> (int (digits_val v) + 1,
            s(k \<mapsto> (int_str (int (digits_val v) + 1), case s k of None \<Rightarrow> None | Some (_, e) \<Rightarrow> e))))"
  by (simp_all add: example_redis_def)

lemma digits_val_int_str: "0 \<le> n \<Longrightarrow> int (digits_val (int_str n)) = n"
  by (simp add: int_str_def digits_val_nat_str)

lemma example_redis_laws [simp]: "redis_laws example_redis"
proof -
  have "set_law example_redis"
    by (auto simp: set_law_def redis_shows_def until_def store_get_def)
  moreover have "pexpire_law example_redis"
    by (auto simp: pexpire_law_def redis_shows_def until_def store_get_def)
  moreover have "del_law example_redis"
    by (auto simp: del_law_def redis_shows_def store_get_def)
  moreover have "incr_law example_redis"
    by (auto simp: incr_law_def redis_shows_def store_get_def digits_val_int_str
        split: option.splits if_splits)
  moreover have "absent_law example_redis"
    by (auto simp: absent_law_def store_get_def split: option.splits if_splits)
  ultimately show ?thesis by (simp add: redis_laws_def)
qed

definition example_cluster :: "store cluster" where
  "example_cluster = \<lparr>cl_election = (\<lambda>p. Election_init (nat_str p)), cl_acquiring = {},
     cl_redis = (\<lambda>k. None), cl_clock = 0\<rparr>"

lemma inj_nat_str: "inj nat_str"
  by (simp add: inj_on_def)

lemma example_cluster_start: "cluster_start example_redis nat_str example_cluster"
  by (simp add: cluster_start_def example_cluster_def store_get_def)

text \<open>Process 0 sets the lock; later its term starts.\<close>

definition lock_0 :: store where
  "lock_0 = (\<lambda>k. None)(REDIS_LEADER_KEY \<mapsto> (nat_str 0, Some 15000))"

definition leader_of :: "nat \<Rightarrow> int \<Rightarrow> Election" where
  "leader_of p n = \<lparr>el_token = nat_str p, el_epoch = n, el_is_leader = True, el_heartbeat = True\<rparr>"

lemma example_acquired:
  "cluster_moves example_redis default_settings example_cluster
     (example_cluster\<lparr>cl_redis := lock_0, cl_acquiring := {0}\<rparr>)"
proof -
  have "acquire_lock example_redis default_settings Answered 0 (Election_init (nat_str 0)) (\<lambda>k. None) = (Inr True, lock_0)"
    by (simp add: acquire_lock_def store_get_def lock_0_def Election_init_def)
  then have "cluster_step example_redis default_settings (Some 0) example_cluster
      (example_cluster\<lparr>cl_redis := lock_0, cl_acquiring := insert 0 {}\<rparr>)"
    using cluster_step.acquire [of example_cluster 0 example_redis default_settings Answered "Inr True" lock_0]
    by (simp add: example_cluster_def Election_init_def)
  then show ?thesis unfolding cluster_moves_def by auto
qed

definition term_0 :: "store cluster" where
  "term_0 = example_cluster\<lparr>cl_redis := lock_0(REDIS_LEADER_EPOCH_KEY \<mapsto> (int_str 1, None)),
     cl_election := (cl_election example_cluster)(0 := leader_of 0 1)\<rparr>"

lemma example_term_0: "(cluster_moves example_redis default_settings)\<^sup>*\<^sup>* example_cluster term_0"
proof -
  let ?c = "example_cluster\<lparr>cl_redis := lock_0, cl_acquiring := {0}\<rparr>"
  have "start_term example_redis Answered 0 (Election_init (nat_str 0)) lock_0
      = (Inr (leader_of 0 1), lock_0(REDIS_LEADER_EPOCH_KEY \<mapsto> (int_str 1, None)))"
    by (simp add: start_term_def store_get_def lock_0_def Election_init_def leader_of_def)
  then have "cluster_step example_redis default_settings (Some 0) ?c term_0"
    using cluster_step.start [of 0 ?c example_redis Answered "Inr (leader_of 0 1)"
        "lock_0(REDIS_LEADER_EPOCH_KEY \<mapsto> (int_str 1, None))" default_settings]
    by (simp add: example_cluster_def term_0_def)
  then have "cluster_moves example_redis default_settings ?c term_0"
    unfolding cluster_moves_def by blast
  with example_acquired show ?thesis by (meson rtranclp.rtrancl_into_rtrancl r_into_rtranclp)
qed

lemma term_0_epochs: "epochs_ok example_redis nat_str term_0"
  using epochs.inv_reachable [of example_redis default_settings nat_str example_cluster term_0]
    example_term_0 example_cluster_start by simp

lemma term_0_simps [simp]:
  "cl_clock term_0 = 0" "cl_acquiring term_0 = {}"
  "cl_election term_0 0 = leader_of 0 1"
  "store_get REDIS_LEADER_KEY t (cl_redis term_0) = (if t < 15000 then Some (nat_str 0) else None)"
  by (simp_all add: term_0_def example_cluster_def store_get_def lock_0_def)


theorem lock_safe_from_others_witness:
  "\<exists>c'. cluster_step example_redis default_settings (Some 1) term_0 c'
     \<and> store_get REDIS_LEADER_KEY 14000 (cl_redis c') = Some (nat_str 0)"
proof -
  have el: "cl_election term_0 1 = Election_init (nat_str 1)"
    by (simp add: term_0_def example_cluster_def)
  have "acquire_lock example_redis default_settings Answered 0 (cl_election term_0 1) (cl_redis term_0)
      = (Inr False, cl_redis term_0)"
    by (simp add: acquire_lock_def)
  then have "cluster_step example_redis default_settings (Some 1) term_0
      (term_0\<lparr>cl_redis := cl_redis term_0, cl_acquiring := cl_acquiring term_0\<rparr>)"
    using cluster_step.acquire [of term_0 1 example_redis default_settings Answered "Inr False" "cl_redis term_0"]
    by (simp add: el Election_init_def del: One_nat_def)
  moreover have "term_0\<lparr>cl_redis := cl_redis term_0, cl_acquiring := cl_acquiring term_0\<rparr> = term_0"
    by (cases term_0) simp
  ultimately have step: "cluster_step example_redis default_settings (Some 1) term_0 term_0" by metis
  have "rd_get example_redis REDIS_LEADER_KEY 14000 (cl_redis term_0)
      = rd_get example_redis REDIS_LEADER_KEY 14000 (cl_redis term_0)"
    by (rule lock_safe_from_others [OF example_redis_laws _ inj_nat_str term_0_epochs _ step, of 0]) simp_all
  with step show ?thesis by auto
qed

theorem timely_leader_stays_witness:
  "fst (acquire_lock example_redis default_settings Answered 0 (cl_election term_0 1) (cl_redis term_0)) \<noteq> Inr True"
proof -
  have "holds_until example_redis nat_str 0 (15000, term_0)"
    using term_0_epochs by (simp add: holds_until_def leader_of_def)
  from timely_leader_stays [OF example_redis_laws _ inj_nat_str this rtranclp.rtrancl_refl, of default_settings Answered 1]
  show ?thesis by simp
qed

text \<open>
  Epochs do not order the terms by the lock. The lock is set before the epoch is drawn, so
  a process can set the lock, stall until it expires, and draw its epoch after the next holder
  has: it then believes itself leader with the larger epoch while the lock, and every
  verification, belong to the holder with the smaller one.
\<close>

theorem epochs_can_invert:
  "\<exists>c. (cluster_moves example_redis default_settings)\<^sup>*\<^sup>* example_cluster c
     \<and> el_is_leader (cl_election c 0) \<and> el_is_leader (cl_election c 1)
     \<and> el_epoch (cl_election c 1) < el_epoch (cl_election c 0)
     \<and> fst (verify_still_leader example_redis Answered (cl_clock c) (cl_election c 1) (cl_redis c)) = Inr True
     \<and> fst (verify_still_leader example_redis Answered (cl_clock c) (cl_election c 0) (cl_redis c)) = Inr False"
proof -
  let ?E = REDIS_LEADER_EPOCH_KEY
  let ?c1 = "example_cluster\<lparr>cl_redis := lock_0, cl_acquiring := {0}\<rparr>"
  let ?c2 = "?c1\<lparr>cl_clock := 15000\<rparr>"
  let ?lock_1 = "lock_0(REDIS_LEADER_KEY \<mapsto> (nat_str 1, Some 30000))"
  let ?c3 = "?c2\<lparr>cl_redis := ?lock_1, cl_acquiring := {0, 1}\<rparr>"
  let ?c4 = "?c3\<lparr>cl_redis := ?lock_1(?E \<mapsto> (int_str 1, None)), cl_acquiring := {0},
    cl_election := (cl_election ?c3)(1 := leader_of 1 1)\<rparr>"
  let ?c5 = "?c4\<lparr>cl_redis := ?lock_1(?E \<mapsto> (int_str 2, None)), cl_acquiring := {},
    cl_election := (cl_election ?c4)(0 := leader_of 0 2)\<rparr>"
  have s2: "cluster_step example_redis default_settings None ?c1 ?c2"
    by (rule wait) (simp add: example_cluster_def)
  have "acquire_lock example_redis default_settings Answered 15000 (Election_init (nat_str 1)) lock_0
      = (Inr True, ?lock_1)"
    by (simp add: acquire_lock_def store_get_def lock_0_def Election_init_def)
  then have s3: "cluster_step example_redis default_settings (Some 1) ?c2 ?c3"
    using cluster_step.acquire [of ?c2 1 example_redis default_settings Answered "Inr True" ?lock_1]
    by (simp add: example_cluster_def Election_init_def insert_commute)
  have "start_term example_redis Answered 15000 (Election_init (nat_str 1)) ?lock_1
      = (Inr (leader_of 1 1), ?lock_1(?E \<mapsto> (int_str 1, None)))"
    by (simp add: start_term_def store_get_def lock_0_def Election_init_def leader_of_def)
  then have s4: "cluster_step example_redis default_settings (Some 1) ?c3 ?c4"
    using cluster_step.start [of 1 ?c3 example_redis Answered "Inr (leader_of 1 1)"
        "?lock_1(?E \<mapsto> (int_str 1, None))" default_settings]
    by (simp add: example_cluster_def insert_Diff_if)
  have "start_term example_redis Answered 15000 (Election_init (nat_str 0)) (?lock_1(?E \<mapsto> (int_str 1, None)))
      = (Inr (leader_of 0 2), ?lock_1(?E \<mapsto> (int_str 2, None)))"
    by (simp add: start_term_def store_get_def lock_0_def Election_init_def leader_of_def digits_val_int_str)
  then have s5: "cluster_step example_redis default_settings (Some 0) ?c4 ?c5"
    using cluster_step.start [of 0 ?c4 example_redis Answered "Inr (leader_of 0 2)"
        "?lock_1(?E \<mapsto> (int_str 2, None))" default_settings]
    by (simp add: example_cluster_def)
  have "cluster_moves example_redis default_settings ?c1 ?c2" "cluster_moves example_redis default_settings ?c2 ?c3"
    "cluster_moves example_redis default_settings ?c3 ?c4" "cluster_moves example_redis default_settings ?c4 ?c5"
    using s2 s3 s4 s5 unfolding cluster_moves_def by blast+
  with example_acquired
  have reach: "(cluster_moves example_redis default_settings)\<^sup>*\<^sup>* example_cluster ?c5"
    by (meson rtranclp.rtrancl_into_rtrancl rtranclp.rtrancl_refl)
  show ?thesis
    by (rule exI [of _ ?c5], rule conjI, rule reach)
      (simp add: verify_still_leader_def leader_of_def store_get_def example_cluster_def)
qed

end
