(* ===== verification/Recovery.thy ===== *)
theory Recovery
  imports ExecutorFacts Leader
begin

text \<open>
  \<open>app/workers/recovery.py\<close>: the search for stuck runs, the compare-and-set that reclaims one, the
  routing of a reclaimed run to a retry or to the dead-letter queue, the scan for jobs whose
  dependency is dead, and the tick with its election calls. A transaction that has committed
  stays committed when a later one of the same tick raises, so results carry the database next
  to the exception.
\<close>

section \<open>Stuck runs\<close>

definition stuck :: "datetime \<Rightarrow> JobRun \<Rightarrow> bool" where
  "stuck now r \<longleftrightarrow> r_status r = JobRunStatus.RUNNING
     \<and> (case r_lock_expires_at r of None \<Rightarrow> False | Some t \<Rightarrow> t < now)"

definition stuck_run_ids :: "datetime \<Rightarrow> db \<Rightarrow> uuid list" where
  "stuck_run_ids now d =
     map r_id (select_limit (stuck now) (\<lambda>r. time_key (r_lock_expires_at r)) 50 (job_runs d))"

text \<open>The compare-and-set UPDATE with its RETURNING row, and the subscription loaded with it.\<close>

definition reclaimed :: "datetime \<Rightarrow> JobRun \<Rightarrow> JobRun" where
  "reclaimed now r = r\<lparr>r_status := JobRunStatus.FAILED,
     r_error_message := Some ''Recovered: lock expired without completion'', r_finished_at := Some now,
     r_lock_expires_at := None, r_worker_id := None\<rparr>"

lemma reclaimed_simps [simp]:
  "r_id (reclaimed now r) = r_id r"
  "r_job_id (reclaimed now r) = r_job_id r"
  "r_attempt (reclaimed now r) = r_attempt r"
  "r_status (reclaimed now r) = JobRunStatus.FAILED"
  "r_lock_expires_at (reclaimed now r) = None"
  by (simp_all add: reclaimed_def)

definition subscriptions_of_job :: "uuid \<Rightarrow> db \<Rightarrow> Subscription list" where
  "subscriptions_of_job job_id d =
     concat (map (\<lambda>s. map (\<lambda>_. s)
         (filter (\<lambda>j. j_id j = job_id \<and> j_subscription_id j = s_id s) (scheduled_jobs d)))
       (subscriptions d))"

definition reclaim_run ::
  "datetime \<Rightarrow> uuid \<Rightarrow> db \<Rightarrow> exn + (uuid \<times> int \<times> Subscription option) option \<times> db" where
  "reclaim_run now run_id d =
     and_then (scalar_one_or_none (map (\<lambda>r. (r_job_id r, r_attempt r))
                 (filter (\<lambda>r. r_id r = run_id \<and> stuck now r) (job_runs d)))) (\<lambda>claimed.
       case claimed of
         None \<Rightarrow> Inr (None, d)
       | Some (job_id, attempt) \<Rightarrow>
           let d1 = update_runs (\<lambda>r. r_id r = run_id \<and> stuck now r) (reclaimed now) d in
           and_then (scalar_one_or_none (subscriptions_of_job job_id d1)) (\<lambda>sub.
             Inr (Some (job_id, attempt, sub), d1)))"

section \<open>Routing a reclaimed run\<close>

definition exhausted_reason :: "int \<Rightarrow> string" where
  "exhausted_reason attempt =
     ''Exhausted after '' @ int_str attempt @ '' attempts (recovered from stuck RUNNING state)''"

definition recovery_move_to_dlq ::
  "datetime \<Rightarrow> uuid \<Rightarrow> uuid \<Rightarrow> uuid \<Rightarrow> int \<Rightarrow> Subscription \<Rightarrow> string \<Rightarrow> db \<Rightarrow> exn + db" where
  "recovery_move_to_dlq now dlq_id run_id job_id attempt sub reason d =
     insert_dlq
       (dlq_entry dlq_id run_id job_id (s_id sub) (truncate_error reason) (Some ''StuckRunRecovery'')
         (JObj [(''payment_config'', s_payment_config sub), (''attempt'', JInt attempt)]) (db_now d))
       (count_failure now (s_id sub)
         (update_runs (\<lambda>r. r_id r = run_id)
           (\<lambda>r. r\<lparr>r_status := JobRunStatus.DEAD, r_error_message := Some (truncate_error reason),
                 r_finished_at := Some now, r_lock_expires_at := None, r_worker_id := None\<rparr>) d))"

record recover_inputs =
  vi_run_id :: uuid
  vi_dlq_id :: uuid
  vi_dlq_now :: datetime

definition route_reclaimed ::
  "recover_inputs \<Rightarrow> uuid \<Rightarrow> uuid \<Rightarrow> int \<Rightarrow> Subscription \<Rightarrow> db \<Rightarrow> exn + db" where
  "route_reclaimed i run_id job_id attempt sub d =
     and_then (policy_of (s_retry_policy sub)) (\<lambda>policy.
     and_then (is_exhausted policy attempt) (\<lambda>exhausted.
       if exhausted then
         recovery_move_to_dlq (vi_dlq_now i) (vi_dlq_id i) run_id job_id attempt sub (exhausted_reason attempt) d
       else
         and_then (insert_run (new_run (vi_run_id i) job_id (attempt + 1) None (db_now d)) d)
           (\<lambda>(_, d'). Inr d')))"

definition recover_single_run_by_id ::
  "recover_inputs \<Rightarrow> uuid \<Rightarrow> datetime \<Rightarrow> db \<Rightarrow> (exn + bool) \<times> db" where
  "recover_single_run_by_id i run_id now d =
     (case reclaim_run now run_id d of
        Inl e \<Rightarrow> (Inl e, d)
      | Inr (None, d1) \<Rightarrow> (Inr False, d1)
      | Inr (Some (job_id, attempt, sub), d1) \<Rightarrow>
          (case sub of
             None \<Rightarrow> (Inr True, d1)
           | Some subscription \<Rightarrow>
               (case route_reclaimed i run_id job_id attempt subscription d1 of
                  Inl e \<Rightarrow> (Inl e, d1)
                | Inr d2 \<Rightarrow> (Inr True, d2))))"

text \<open>The loop over the candidates: an exception ends it.\<close>

fun recover_all ::
  "(uuid \<Rightarrow> recover_inputs) \<Rightarrow> datetime \<Rightarrow> uuid list \<Rightarrow> db \<Rightarrow> (exn + nat) \<times> db" where
  "recover_all ins now [] d = (Inr 0, d)"
| "recover_all ins now (run_id # ids) d =
     (case recover_single_run_by_id (ins run_id) run_id now d of
        (Inl e, d1) \<Rightarrow> (Inl e, d1)
      | (Inr did, d1) \<Rightarrow>
          (case recover_all ins now ids d1 of
             (Inl e, d2) \<Rightarrow> (Inl e, d2)
           | (Inr n, d2) \<Rightarrow> (Inr (if did then n + 1 else n), d2)))"

definition recover_stuck_runs :: "(uuid \<Rightarrow> recover_inputs) \<Rightarrow> datetime \<Rightarrow> db \<Rightarrow> (exn + nat) \<times> db" where
  "recover_stuck_runs ins now d = recover_all ins now (stuck_run_ids now d) d"

section \<open>Orphaned jobs\<close>

text \<open>One pass over the dependencies of a job, as \<open>uuid.UUID\<close> parses them; the first one with a
  DEAD run cancels the job and fails its PENDING runs.\<close>

definition cancel_downstream :: "datetime \<Rightarrow> uuid \<Rightarrow> string \<Rightarrow> db \<Rightarrow> db" where
  "cancel_downstream now job_id dep d =
     update_runs (\<lambda>r. r_job_id r = job_id \<and> r_status r = JobRunStatus.PENDING)
       (\<lambda>r. r\<lparr>r_status := JobRunStatus.FAILED,
             r_error_message := Some (''DAG dependency '' @ dep @ '' permanently failed''),
             r_finished_at := Some now\<rparr>)
       (update_jobs (\<lambda>j. j_id j = job_id) (\<lambda>j. j\<lparr>j_status := JobStatus.CANCELLED\<rparr>) d)"

fun scan_dependencies :: "datetime \<Rightarrow> uuid \<Rightarrow> string list \<Rightarrow> db \<Rightarrow> exn + db" where
  "scan_dependencies now job_id [] d = Inr d"
| "scan_dependencies now job_id (dep # deps) d =
     (case uuid_parse dep of
        None \<Rightarrow> Inl (ValueError ''badly formed hexadecimal UUID string'')
      | Some dep_id \<Rightarrow>
          and_then (scalar_one_or_none (filter (\<lambda>j. j_id j = dep_id) (scheduled_jobs d))) (\<lambda>found.
            case found of
              None \<Rightarrow> scan_dependencies now job_id deps d
            | Some j \<Rightarrow>
                and_then (scalar_one_or_none
                    (filter (\<lambda>r. r_job_id r = j_id j \<and> r_status r = JobRunStatus.DEAD) (job_runs d))) (\<lambda>dead.
                  case dead of
                    None \<Rightarrow> scan_dependencies now job_id deps d
                  | Some _ \<Rightarrow> Inr (cancel_downstream now job_id dep d))))"

definition evaluate_dag_job :: "datetime \<Rightarrow> ScheduledJob \<Rightarrow> db \<Rightarrow> exn + db" where
  "evaluate_dag_job now job d = scan_dependencies now (j_id job) (j_depends_on job) d"

definition orphan_candidates :: "db \<Rightarrow> ScheduledJob list" where
  "orphan_candidates d =
     select_limit (\<lambda>j. j_status j \<in> {JobStatus.PENDING, JobStatus.READY, JobStatus.BLOCKED} \<and> j_depends_on j \<noteq> [])
       j_created_at 100 (scheduled_jobs d)"

fun evaluate_all :: "(uuid \<Rightarrow> datetime) \<Rightarrow> ScheduledJob list \<Rightarrow> db \<Rightarrow> exn option \<times> db" where
  "evaluate_all clock [] d = (None, d)"
| "evaluate_all clock (job # jobs) d =
     (case evaluate_dag_job (clock (j_id job)) job d of
        Inl e \<Rightarrow> (Some e, d) | Inr d' \<Rightarrow> evaluate_all clock jobs d')"

definition cancel_orphaned_dag_jobs :: "(uuid \<Rightarrow> datetime) \<Rightarrow> db \<Rightarrow> exn option \<times> db" where
  "cancel_orphaned_dag_jobs clock d = evaluate_all clock (orphan_candidates d) d"

section \<open>The tick\<close>

record 's recovery_inputs =
  wi_set :: "fault \<times> int"
  wi_incr :: "fault \<times> int"
  wi_verify1 :: "fault \<times> int \<times> 's"
  wi_verify2 :: "fault \<times> int \<times> 's"
  wi_now :: datetime
  wi_runs :: "uuid \<Rightarrow> recover_inputs"
  wi_dag_clock :: "uuid \<Rightarrow> datetime"

text \<open>The two phases run one after the other on the same database here; their transactions also
  interleave with those of other workers.\<close>

definition recovery_tick ::
  "Settings \<Rightarrow> 's redis \<Rightarrow> 's recovery_inputs \<Rightarrow> Election \<Rightarrow> 's \<Rightarrow> db \<Rightarrow> exn option \<times> Election \<times> 's \<times> db" where
  "recovery_tick S R i e s d =
     (case try_acquire R S (fst (wi_set i)) (fst (wi_incr i)) (snd (wi_set i)) (snd (wi_incr i)) e s of
        (Inl x, e1, s1) \<Rightarrow> (Some x, e1, s1, d)
      | (Inr acquired, e1, s1) \<Rightarrow>
          if \<not> acquired then (None, e1, s1, d)
          else (case verify_at R (wi_verify1 i) e1 of
              (Inl x, e2) \<Rightarrow> (Some x, e2, s1, d)
            | (Inr ok1, e2) \<Rightarrow>
                if \<not> ok1 then (None, e2, s1, d)
                else (case recover_stuck_runs (wi_runs i) (wi_now i) d of
                    (Inl x, d1) \<Rightarrow> (Some x, e2, s1, d1)
                  | (Inr n, d1) \<Rightarrow>
                      (case verify_at R (wi_verify2 i) e2 of
                         (Inl x, e3) \<Rightarrow> (Some x, e3, s1, d1)
                       | (Inr ok2, e3) \<Rightarrow>
                           if \<not> ok2 then (None, e3, s1, d1)
                           else (case cancel_orphaned_dag_jobs (wi_dag_clock i) d1 of
                                   (x, d2) \<Rightarrow> (x, e3, s1, d2))))))"

end
