(* ===== verification/RecoveryFacts.thy ===== *)
theory RecoveryFacts
  imports Recovery
begin

text \<open>
  What recovery guarantees: every transaction keeps \<open>db_ok\<close>; a run is reclaimed at most once and
  only when its lock has expired, then retried or dead-lettered; other runs are untouched; the
  scan for orphaned jobs cancels exactly the jobs with a dead dependency; writes happen under
  the lock. Two theorems show what it does not do: pick up a run reclaimed by a process that
  then stopped, and scan past a job that died twice.
\<close>

section \<open>Reclaiming\<close>

lemma filter_run_unique:
  assumes "db_ok d" and "r \<in> set (job_runs d)" and "r_id r = i" and "stuck now r"
  shows "filter (\<lambda>r. r_id r = i \<and> stuck now r) (job_runs d) = [r]"
proof -
  have "filter (\<lambda>r. r_id r = i) (job_runs d) = [r]"
    using assms(1-3) by (intro filter_unique [of r_id]) (auto simp: db_ok_defs)
  then have "filter (stuck now) (filter (\<lambda>r. r_id r = i) (job_runs d)) = [r]" using assms(4) by simp
  then show ?thesis by (simp add: conj_commute)
qed

lemma reclaim_run_Inr:
  assumes "reclaim_run now i d = Inr (res, d1)"
  shows "(res = None \<and> d1 = d) \<or> (\<exists>run \<in> set (job_runs d). \<exists>sub. r_id run = i \<and> stuck now run
    \<and> res = Some (r_job_id run, r_attempt run, sub)
    \<and> d1 = update_runs (\<lambda>r. r_id r = i \<and> stuck now r) (reclaimed now) d
    \<and> scalar_one_or_none (subscriptions_of_job (r_job_id run) d1) = Inr sub)"
  using assms
  by (auto simp: reclaim_run_def and_then_Inr_iff Let_def dest!: scalar_one_or_none_in split: option.splits)

lemma db_ok_reclaimed: "db_ok d \<Longrightarrow> db_ok (update_runs p (reclaimed now) d)"
  by (intro db_ok_updates) simp_all

lemma db_ok_reclaim_run: "db_ok d \<Longrightarrow> reclaim_run now i d = Inr (res, d1) \<Longrightarrow> db_ok d1"
  by (drule reclaim_run_Inr) (auto intro: db_ok_reclaimed)

lemma concat_map_if: "concat (map (\<lambda>x. if P x then [x] else []) l) = filter P l"
  by (induction l) simp_all

text \<open>In a consistent database the run has its job, the job its subscription, and each one only.\<close>

lemma subscriptions_of_job_one:
  assumes "db_ok d" and "job_id \<in> j_id ` set (scheduled_jobs d)"
  shows "\<exists>s \<in> set (subscriptions d). subscriptions_of_job job_id d = [s]
    \<and> (\<exists>j \<in> set (scheduled_jobs d). j_id j = job_id \<and> j_subscription_id j = s_id s)"
proof -
  obtain j where j: "j \<in> set (scheduled_jobs d)" "j_id j = job_id" using assms(2) by auto
  have "j_subscription_id j \<in> s_id ` set (subscriptions d)"
    using assms(1) j(1) by (auto simp: db_ok_defs)
  then obtain s where s: "s \<in> set (subscriptions d)" "s_id s = j_subscription_id j" by auto
  have "filter (\<lambda>j'. j_id j' = job_id) (scheduled_jobs d) = [j]"
    using assms(1) j by (intro filter_unique [of j_id]) (auto simp: db_ok_defs)
  then have "filter (\<lambda>j'. j_id j' = job_id \<and> j_subscription_id j' = s_id x) (scheduled_jobs d)
      = (if s_id x = s_id s then [j] else [])" for x :: Subscription
    unfolding filter_filter [symmetric] using s(2) filter_filter by (simp add: conj_commute flip: filter_filter)
  then have "map (\<lambda>_. x) (filter (\<lambda>j'. j_id j' = job_id \<and> j_subscription_id j' = s_id x) (scheduled_jobs d))
      = (if s_id x = s_id s then [x] else [])" for x :: Subscription
    by simp
  then have "subscriptions_of_job job_id d = filter (\<lambda>x. s_id x = s_id s) (subscriptions d)"
    unfolding subscriptions_of_job_def by (simp only: concat_map_if)
  moreover have "\<dots> = [s]"
    using assms(1) s by (intro filter_unique [of s_id]) (auto simp: db_ok_defs)
  ultimately show ?thesis using j s by auto
qed

text \<open>So a reclaimed run always comes with the subscription to route it by.\<close>

lemma reclaim_run_iff:
  assumes "db_ok d"
  shows "reclaim_run now i d = Inr (Some (job_id, attempt, sub), d1) \<longleftrightarrow>
    (\<exists>run \<in> set (job_runs d). \<exists>s \<in> set (subscriptions d). r_id run = i \<and> stuck now run
       \<and> job_id = r_job_id run \<and> attempt = r_attempt run \<and> sub = Some s
       \<and> subscriptions_of_job job_id d = [s]
       \<and> d1 = update_runs (\<lambda>r. r_id r = i \<and> stuck now r) (reclaimed now) d)"
    (is "?l \<longleftrightarrow> ?r")
proof -
  have same: "subscriptions_of_job k (update_runs p (reclaimed now) d) = subscriptions_of_job k d" for k p
    by (simp add: subscriptions_of_job_def)
  have one: "\<exists>s \<in> set (subscriptions d). subscriptions_of_job (r_job_id run) d = [s]"
    if "run \<in> set (job_runs d)" for run
    using subscriptions_of_job_one [OF assms db_ok_run_job [OF assms that]] by blast
  show ?thesis
  proof
    assume ?l
    then obtain run where run: "run \<in> set (job_runs d)" "r_id run = i" "stuck now run"
      "job_id = r_job_id run" "attempt = r_attempt run"
      "d1 = update_runs (\<lambda>r. r_id r = i \<and> stuck now r) (reclaimed now) d"
      "scalar_one_or_none (subscriptions_of_job job_id d1) = Inr sub"
      using reclaim_run_Inr [OF \<open>?l\<close>] by auto
    with one [OF run(1)] same show ?r by auto
  next
    assume ?r
    then obtain run s where "run \<in> set (job_runs d)" "r_id run = i" "stuck now run"
      "job_id = r_job_id run" "attempt = r_attempt run" "sub = Some s" "subscriptions_of_job job_id d = [s]"
      "d1 = update_runs (\<lambda>r. r_id r = i \<and> stuck now r) (reclaimed now) d"
      by blast
    with filter_run_unique [OF assms] same show ?l by (simp add: reclaim_run_def Let_def)
  qed
qed

lemma reclaim_run_None:
  assumes "\<forall>r \<in> set (job_runs d). r_id r = i \<longrightarrow> \<not> stuck now r"
  shows "reclaim_run now i d = Inr (None, d)"
proof -
  have "filter (\<lambda>r. r_id r = i \<and> stuck now r) (job_runs d) = []"
    using assms by (auto simp: filter_empty_conv)
  then show ?thesis by (simp add: reclaim_run_def)
qed

section \<open>Every transaction keeps the database consistent\<close>

lemma db_ok_recovery_move_to_dlq:
  assumes "db_ok d" and "recovery_move_to_dlq now i run_id job_id attempt sub reason d = Inr d'"
  shows "db_ok d'"
proof -
  have "db_ok (count_failure now (s_id sub)
         (update_runs (\<lambda>r. r_id r = run_id)
           (\<lambda>r. r\<lparr>r_status := JobRunStatus.DEAD, r_error_message := Some (truncate_error reason),
                 r_finished_at := Some now, r_lock_expires_at := None, r_worker_id := None\<rparr>) d))"
    using assms(1) by (intro db_ok_count_failure db_ok_updates) simp_all
  then show ?thesis using assms(2) unfolding recovery_move_to_dlq_def by (rule db_ok_insert_dlq)
qed

lemma db_ok_route_reclaimed:
  "db_ok d \<Longrightarrow> route_reclaimed i run_id job_id attempt sub d = Inr d' \<Longrightarrow> db_ok d'"
  by (auto simp: route_reclaimed_def and_then_Inr_iff split: if_splits
      dest: db_ok_recovery_move_to_dlq db_ok_insert_run)

lemma db_ok_recover_single:
  "db_ok d \<Longrightarrow> recover_single_run_by_id i run_id now d = (res, d') \<Longrightarrow> db_ok d'"
  by (auto simp: recover_single_run_by_id_def split: sum.splits option.splits prod.splits
      dest: db_ok_reclaim_run db_ok_route_reclaimed)

lemma db_ok_recover_all:
  "db_ok d \<Longrightarrow> recover_all ins now ids d = (res, d') \<Longrightarrow> db_ok d'"
proof (induction ids arbitrary: d res)
  case (Cons i ids)
  obtain r1 d1 where one: "recover_single_run_by_id (ins i) i now d = (r1, d1)" by fastforce
  with Cons.prems have "db_ok d1" by (auto intro: db_ok_recover_single)
  obtain r2 d2 where rest: "recover_all ins now ids d1 = (r2, d2)" by fastforce
  with Cons.IH [OF \<open>db_ok d1\<close>] \<open>db_ok d1\<close> Cons.prems(2) one show ?case
    by (auto split: sum.splits)
qed simp

lemma db_ok_cancel_downstream: "db_ok d \<Longrightarrow> db_ok (cancel_downstream now job_id dep d)"
  unfolding cancel_downstream_def by (intro db_ok_updates) simp_all

lemma db_ok_scan_dependencies:
  "db_ok d \<Longrightarrow> scan_dependencies now job_id deps d = Inr d' \<Longrightarrow> db_ok d'"
  by (induction deps) (auto simp: and_then_Inr_iff split: option.splits intro: db_ok_cancel_downstream)

lemma db_ok_evaluate_all:
  "db_ok d \<Longrightarrow> evaluate_all clock jobs d = (res, d') \<Longrightarrow> db_ok d'"
  by (induction jobs arbitrary: d)
    (auto simp: evaluate_dag_job_def split: sum.splits dest: db_ok_scan_dependencies)

section \<open>Other runs are left alone\<close>

lemma kept_by_update: "r \<in> set t \<Longrightarrow> \<not> p r \<Longrightarrow> r \<in> set (update_where p f t)"
  by (force simp: set_update_where)

lemma route_reclaimed_others:
  assumes "route_reclaimed i run_id job_id attempt sub d = Inr d'" and "r \<in> set (job_runs d)"
    and "r_id r \<noteq> run_id"
  shows "r \<in> set (job_runs d')"
proof -
  have dlq: "r \<in> set (job_runs d'')"
    if "recovery_move_to_dlq now k run_id job_id attempt sub reason d = Inr d''" for now k reason d''
    using that assms(2,3) unfolding recovery_move_to_dlq_def insert_dlq_Inr_iff
    by (simp add: kept_by_update)
  have retry: "r \<in> set (job_runs d'')" if "insert_run row d = Inr (b, d'')" for row b d''
    using that assms(2) by (auto simp: insert_run_Inr_iff split: if_splits)
  from assms(1) show ?thesis
    by (auto simp: route_reclaimed_def and_then_Inr_iff split: if_splits dest: dlq retry)
qed

lemma recover_single_others:
  assumes "recover_single_run_by_id i run_id now d = (res, d')" and "r \<in> set (job_runs d)"
    and "r_id r \<noteq> run_id"
  shows "r \<in> set (job_runs d')"
proof (cases "reclaim_run now run_id d")
  case (Inl e)
  with assms show ?thesis by (simp add: recover_single_run_by_id_def)
next
  case (Inr c)
  obtain res1 d1 where c: "c = (res1, d1)" by (cases c)
  then have r1: "r \<in> set (job_runs d1)"
    using reclaim_run_Inr [of now run_id d res1 d1] Inr assms(2,3) by (auto simp: set_update_where)
  with assms(1,3) Inr c show ?thesis
    by (auto simp: recover_single_run_by_id_def split: option.splits sum.splits intro: route_reclaimed_others)
qed

lemma recover_single_not_stuck:
  assumes "db_ok d" and "recover_single_run_by_id i run_id now d = (res, d')" and "r \<in> set (job_runs d)"
    and "\<not> stuck now r"
  shows "r \<in> set (job_runs d')"
proof (cases "r_id r = run_id")
  case True
  have "\<forall>r' \<in> set (job_runs d). r_id r' = run_id \<longrightarrow> \<not> stuck now r'"
    using assms(3,4) True db_ok_run_eq [OF assms(1)] by blast
  then have "reclaim_run now run_id d = Inr (None, d)" by (rule reclaim_run_None)
  with assms(2,3) show ?thesis by (simp add: recover_single_run_by_id_def)
qed (use assms recover_single_others in blast)

lemma recover_all_not_stuck:
  "db_ok d \<Longrightarrow> recover_all ins now ids d = (res, d') \<Longrightarrow> r \<in> set (job_runs d) \<Longrightarrow> \<not> stuck now r
     \<Longrightarrow> r \<in> set (job_runs d')"
proof (induction ids arbitrary: d res d')
  case (Cons i ids)
  obtain r1 d1 where one: "recover_single_run_by_id (ins i) i now d = (r1, d1)" by fastforce
  then have d1: "db_ok d1" "r \<in> set (job_runs d1)"
    using Cons.prems by (auto intro: db_ok_recover_single recover_single_not_stuck)
  obtain r2 d2 where rest: "recover_all ins now ids d1 = (r2, d2)" by fastforce
  with Cons.IH [OF d1(1) rest d1(2) Cons.prems(4)] d1 Cons.prems(2) one show ?case
    by (auto split: sum.splits)
qed simp

section \<open>What a recovery does\<close>

lemma recovery_move_to_dlq_Inr:
  assumes "recovery_move_to_dlq now i run_id job_id attempt sub reason d = Inr d'"
  shows "(\<forall>r \<in> set (job_runs d'). r_id r = run_id \<longrightarrow> r_status r = JobRunStatus.DEAD \<and> r_lock_expires_at r = None)
    \<and> map r_id (job_runs d') = map r_id (job_runs d)
    \<and> (\<exists>e. dead_letter_queue d' = dead_letter_queue d @ [e] \<and> d_job_run_id e = run_id
          \<and> d_subscription_id e = s_id sub \<and> d_error_class e = Some ''StuckRunRecovery'')"
  using assms unfolding recovery_move_to_dlq_def insert_dlq_Inr_iff
  by (auto simp: ball_update_where map_update_where dlq_entry_def)

lemma reclaimed_rows:
  assumes "db_ok d" and "run \<in> set (job_runs d)" and "r_id run = i" and "stuck now run"
  shows "\<forall>r \<in> set (job_runs (update_runs (\<lambda>r. r_id r = i \<and> stuck now r) (reclaimed now) d)).
    r_id r = i \<longrightarrow> r = reclaimed now run"
proof -
  have "r = run" if "r \<in> set (job_runs d)" "r_id r = i" for r
    using db_ok_run_eq [OF assms(1) that(1) assms(2)] that(2) assms(3) by simp
  with assms(3,4) show ?thesis by (auto simp: ball_update_where)
qed


text \<open>
  Recovery never touches a run that is not stuck: whatever a pass over the stuck runs does
  and however it ends, every run that is not RUNNING with an expired lock when the pass starts
  is in the database afterwards exactly as it was.
\<close>

theorem live_runs_spared:
  assumes "db_ok d" and "recover_stuck_runs ins now d = (res, d')"
    and "r \<in> set (job_runs d)" and "\<not> stuck now r"
  shows "r \<in> set (job_runs d') \<and> db_ok d'"
  using assms recover_all_not_stuck db_ok_recover_all unfolding recover_stuck_runs_def by blast

section \<open>One recovery per run\<close>

definition not_running :: "uuid \<Rightarrow> db \<Rightarrow> bool" where
  "not_running i d \<longleftrightarrow> (\<forall>r \<in> set (job_runs d). r_id r = i \<longrightarrow> r_status r \<noteq> JobRunStatus.RUNNING)"

lemma recover_not_running:
  assumes "not_running run_id d"
  shows "recover_single_run_by_id i run_id now d = (Inr False, d)"
proof -
  have "reclaim_run now run_id d = Inr (None, d)"
    using assms by (intro reclaim_run_None) (auto simp: not_running_def stuck_def)
  then show ?thesis by (simp add: recover_single_run_by_id_def)
qed

lemma route_reclaimed_not_running:
  assumes "not_running run_id d" and "route_reclaimed i run_id job_id attempt sub d = Inr d'"
  shows "not_running run_id d'"
proof -
  have "not_running run_id d''"
    if "recovery_move_to_dlq now k run_id job_id attempt sub reason d = Inr d''" for now k reason d''
    using recovery_move_to_dlq_Inr [OF that] by (auto simp: not_running_def)
  moreover have "not_running run_id d''" if "insert_run (new_run k job_id a t c) d = Inr (b, d'')" for k a t c b d''
    using that assms(1) by (auto simp: not_running_def insert_run_Inr_iff split: if_splits)
  ultimately show ?thesis
    using assms(2) by (auto simp: route_reclaimed_def and_then_Inr_iff split: if_splits)
qed

text \<open>A reclaim of a consistent database never raises, so anything but a plain False has reclaimed.\<close>

lemma recover_outcome:
  assumes "db_ok d" and "recover_single_run_by_id i run_id now d = (res, d')"
  shows "res = Inr False \<and> d' = d \<or> not_running run_id d'"
proof (cases "\<forall>r \<in> set (job_runs d). r_id r = run_id \<longrightarrow> \<not> stuck now r")
  case True
  with assms(2) show ?thesis by (simp add: recover_single_run_by_id_def reclaim_run_None)
next
  case False
  then obtain run where run: "run \<in> set (job_runs d)" "r_id run = run_id" "stuck now run" by blast
  let ?d1 = "update_runs (\<lambda>r. r_id r = run_id \<and> stuck now r) (reclaimed now) d"
  obtain sub where "reclaim_run now run_id d = Inr (Some (r_job_id run, r_attempt run, Some sub), ?d1)"
    using iffD2 [OF reclaim_run_iff [OF assms(1)], of run_id now "r_job_id run" "r_attempt run"] run
      subscriptions_of_job_one [OF assms(1) db_ok_run_job [OF assms(1) run(1)]] by metis
  moreover have "not_running run_id ?d1"
    using reclaimed_rows [OF assms(1) run] by (auto simp: not_running_def)
  ultimately show ?thesis
    using assms(2) route_reclaimed_not_running
    by (auto simp: recover_single_run_by_id_def split: sum.splits)
qed

text \<open>Several recovery workers going for the same run, each with its own clock and identifiers.\<close>

fun recovery_race :: "uuid \<Rightarrow> (datetime \<times> recover_inputs) list \<Rightarrow> db \<Rightarrow> (exn + bool) list \<times> db" where
  "recovery_race run_id [] d = ([], d)"
| "recovery_race run_id ((now, i) # ws) d =
     (let (res, d1) = recover_single_run_by_id i run_id now d; (rs, d2) = recovery_race run_id ws d1
      in (res # rs, d2))"

lemma recovery_race_idle:
  "not_running run_id d \<Longrightarrow> set (fst (recovery_race run_id ws d)) \<subseteq> {Inr False} \<and> snd (recovery_race run_id ws d) = d"
proof (induction ws)
  case (Cons w ws)
  then show ?case by (cases w) (auto simp: recover_not_running split_beta)
qed simp

text \<open>
  The compare-and-set reclaims a run once. Of any number of recovery workers that go for
  the same run, in any order and with whatever clocks, at most one does anything; all others
  report False.
\<close>

theorem one_recovery_per_run:
  assumes "db_ok d"
  shows "length (filter (\<lambda>res. res \<noteq> Inr False) (fst (recovery_race run_id ws d))) \<le> 1"
  using assms
proof (induction run_id ws d rule: recovery_race.induct)
  case (2 run_id now i ws d)
  obtain res d1 where one: "recover_single_run_by_id i run_id now d = (res, d1)" by fastforce
  from recover_outcome [OF 2(2) one] show ?case
  proof
    assume "res = Inr False \<and> d1 = d"
    with 2(1) [OF one [symmetric]] 2(2) one show ?thesis by (simp add: split_beta)
  next
    assume "not_running run_id d1"
    then have "filter (\<lambda>res. res \<noteq> Inr False) (fst (recovery_race run_id ws d1)) = []"
      using recovery_race_idle [of run_id d1 ws] by (auto simp: filter_empty_conv)
    with one show ?thesis by (simp add: split_beta)
  qed
qed simp

section \<open>A reclaimed run whose recovery stops\<close>

lemma not_selected:
  assumes "db_ok d" and "r \<in> set (job_runs d)" and "\<not> P r"
  shows "r_id r \<notin> r_id ` set (select_limit P key n (job_runs d))"
proof
  assume "r_id r \<in> r_id ` set (select_limit P key n (job_runs d))"
  then obtain r' where r': "r' \<in> set (select_limit P key n (job_runs d))" "r_id r' = r_id r" by auto
  then have "r' \<in> set (job_runs d)" "P r'"
    using subsetD [OF select_limit_subset r'(1)] by simp_all
  with db_ok_run_eq [OF assms(1) _ assms(2) r'(2)] assms(3) show False by simp
qed

text \<open>
  C31: the two transactions of a recovery are not atomic together. If a worker stops, or raises,
  after reclaiming the only active run of a job and before routing it, no query of any worker
  finds a run of that job again: the run is FAILED, no retry and no dead letter exists, and
  neither the executor's batch nor the search for stuck runs contains a run of the job at any
  later time.
\<close>

theorem reclaimed_job_is_stranded:
  assumes "db_ok d" and "reclaim_run now run_id d = Inr (Some (job_id, attempt, sub), d1)"
    and "\<forall>r \<in> set (job_runs d). r_job_id r = job_id \<and> r_status r \<in> {JobRunStatus.PENDING, JobRunStatus.RUNNING}
           \<longrightarrow> r_id r = run_id"
  shows "dead_letter_queue d1 = dead_letter_queue d \<and> length (job_runs d1) = length (job_runs d)
    \<and> (\<forall>r \<in> set (job_runs d1). r_job_id r = job_id \<longrightarrow>
          r_id r \<notin> set (fetch_pending_run_ids S t locked d1) \<and> r_id r \<notin> set (stuck_run_ids t d1))"
proof -
  from iffD1 [OF reclaim_run_iff [OF assms(1)] assms(2)]
  obtain run where run: "run \<in> set (job_runs d)" "r_id run = run_id" "stuck now run" "job_id = r_job_id run"
    and d1: "d1 = update_runs (\<lambda>r. r_id r = run_id \<and> stuck now r) (reclaimed now) d"
    by (elim bexE conjE) simp
  have ok: "db_ok d1" unfolding d1 using assms(1) by (rule db_ok_reclaimed)
  have "r_status r \<notin> {JobRunStatus.PENDING, JobRunStatus.RUNNING}"
    if r: "r \<in> set (job_runs d1)" "r_job_id r = job_id" for r
  proof (cases "r_id r = run_id")
    case True
    then have "r = reclaimed now run" using reclaimed_rows [OF assms(1) run(1-3)] r(1) unfolding d1 by blast
    then show ?thesis by simp
  next
    case False
    then have "r \<in> set (job_runs d)" using r(1) by (auto simp: d1 set_update_where split: if_splits)
    with False assms(3) r(2) show ?thesis by auto
  qed
  then have idle: "\<not> claimable t r \<and> \<not> stuck t r" if "r \<in> set (job_runs d1)" "r_job_id r = job_id" for r
    using that by (auto simp: claimable_def stuck_def)
  have "r_id r \<notin> set (fetch_pending_run_ids S t locked d1) \<and> r_id r \<notin> set (stuck_run_ids t d1)"
    if r: "r \<in> set (job_runs d1)" "r_job_id r = job_id" for r
    using idle [OF r]
    by (simp add: fetch_pending_run_ids_def stuck_run_ids_def not_selected [OF ok r(1)])
  then show ?thesis by (simp add: d1)
qed

section \<open>The scan for orphaned jobs\<close>

definition dies :: "db \<Rightarrow> string \<Rightarrow> bool" where
  "dies d dep \<longleftrightarrow> (\<exists>r \<in> set (job_runs d). Some (r_job_id r) = uuid_parse dep \<and> r_status r = JobRunStatus.DEAD)"

lemma scalar_of_few:
  assumes "distinct xs" and "\<And>x y. x \<in> set xs \<Longrightarrow> y \<in> set xs \<Longrightarrow> x = y"
  shows "scalar_one_or_none xs = Inr (case xs of [] \<Rightarrow> None | x # _ \<Rightarrow> Some x)"
proof (cases xs)
  case (Cons x ys)
  have "ys = []"
  proof (rule ccontr)
    assume "ys \<noteq> []"
    then have "x = hd ys" using Cons by (intro assms(2)) auto
    with \<open>ys \<noteq> []\<close> assms(1) Cons show False by simp
  qed
  with Cons show ?thesis by simp
qed simp

lemma dead_runs_lookup:
  assumes "db_ok d" and "\<forall>r \<in> set (job_runs d). \<forall>r' \<in> set (job_runs d).
      r_status r = JobRunStatus.DEAD \<and> r_status r' = JobRunStatus.DEAD \<and> r_job_id r = r_job_id r' \<longrightarrow> r = r'"
  shows "\<exists>res. scalar_one_or_none (filter (\<lambda>r. r_job_id r = i \<and> r_status r = JobRunStatus.DEAD) (job_runs d)) = Inr res
    \<and> (res = None \<longleftrightarrow> \<not> (\<exists>r \<in> set (job_runs d). r_job_id r = i \<and> r_status r = JobRunStatus.DEAD))"
proof -
  let ?l = "filter (\<lambda>r. r_job_id r = i \<and> r_status r = JobRunStatus.DEAD) (job_runs d)"
  have "distinct ?l" using assms(1) by (auto simp: db_ok_defs distinct_map)
  then have "scalar_one_or_none ?l = Inr (case ?l of [] \<Rightarrow> None | x # _ \<Rightarrow> Some x)"
    using assms(2) by (intro scalar_of_few) auto
  moreover have "?l = [] \<longleftrightarrow> \<not> (\<exists>r \<in> set (job_runs d). r_job_id r = i \<and> r_status r = JobRunStatus.DEAD)"
    by (auto simp: filter_empty_conv)
  ultimately show ?thesis by (cases ?l) auto
qed

lemma scan_dependencies_find:
  assumes "db_ok d" and "\<forall>dep \<in> set deps. uuid_parse dep \<noteq> None"
    and "\<forall>r \<in> set (job_runs d). \<forall>r' \<in> set (job_runs d).
      r_status r = JobRunStatus.DEAD \<and> r_status r' = JobRunStatus.DEAD \<and> r_job_id r = r_job_id r' \<longrightarrow> r = r'"
  shows "scan_dependencies now job_id deps d =
    Inr (case find (dies d) deps of None \<Rightarrow> d | Some dep \<Rightarrow> cancel_downstream now job_id dep d)"
  using assms(2)
proof (induction deps)
  case (Cons dep deps)
  then obtain i where i: "uuid_parse dep = Some i" by auto
  have dies: "dies d dep \<longleftrightarrow> (\<exists>r \<in> set (job_runs d). r_job_id r = i \<and> r_status r = JobRunStatus.DEAD)"
    by (simp add: dies_def i)
  show ?case
  proof (cases "i \<in> j_id ` set (scheduled_jobs d)")
    case True
    then obtain j where j: "j \<in> set (scheduled_jobs d)" "j_id j = i" by auto
    have "filter (\<lambda>j. j_id j = i) (scheduled_jobs d) = [j]"
      using assms(1) j by (intro filter_unique [of j_id]) (auto simp: db_ok_defs)
    with i j dies dead_runs_lookup [OF assms(1,3), of i] Cons show ?thesis
      by (auto split: option.splits)
  next
    case False
    then have "filter (\<lambda>j. j_id j = i) (scheduled_jobs d) = []" by (auto simp: filter_empty_conv)
    moreover have "\<not> dies d dep" using False db_ok_run_job [OF assms(1)] by (auto simp: dies)
    ultimately show ?thesis using i Cons by simp
  qed
qed simp


text \<open>
  A job that died twice stops the scan for good. If the oldest candidate's first dependency
  has two DEAD runs, the pass raises MultipleResultsFound before it has changed anything, so
  every later pass meets the same candidate and raises again; no orphan behind it is ever
  cancelled.
\<close>

theorem double_death_blocks_scan:
  assumes "db_ok d" and "orphan_candidates d = job # jobs" and "j_depends_on job = dep # deps"
    and "uuid_parse dep = Some i"
    and "r \<in> set (job_runs d)" and "r' \<in> set (job_runs d)" and "r \<noteq> r'"
    and "r_job_id r = i" and "r_job_id r' = i"
    and "r_status r = JobRunStatus.DEAD" and "r_status r' = JobRunStatus.DEAD"
  shows "cancel_orphaned_dag_jobs clock d = (Some MultipleResultsFound, d)"
proof -
  obtain j where j: "j \<in> set (scheduled_jobs d)" "j_id j = i"
    using db_ok_run_job [OF assms(1,5)] assms(8) by auto
  have jobs: "filter (\<lambda>j. j_id j = i) (scheduled_jobs d) = [j]"
    using assms(1) j by (intro filter_unique [of j_id]) (auto simp: db_ok_defs)
  let ?l = "filter (\<lambda>r. r_job_id r = i \<and> r_status r = JobRunStatus.DEAD) (job_runs d)"
  have "r \<in> set ?l" "r' \<in> set ?l" using assms(5-11) by auto
  then have "scalar_one_or_none ?l = Inl MultipleResultsFound"
    using assms(7) by (cases ?l rule: remdups_adj.cases) auto
  with j jobs show ?thesis
    by (simp add: cancel_orphaned_dag_jobs_def assms(2-4) evaluate_dag_job_def)
qed

section \<open>Writes happen under the lock\<close>

lemma scheduled_jobs_recover_single:
  "recover_single_run_by_id i run_id now d = (res, d') \<Longrightarrow> scheduled_jobs d' = scheduled_jobs d"
  by (auto simp: recover_single_run_by_id_def route_reclaimed_def recovery_move_to_dlq_def and_then_Inr_iff
      insert_dlq_Inr_iff insert_run_Inr_iff split: sum.splits option.splits prod.splits if_splits
      dest!: reclaim_run_Inr)

lemma scheduled_jobs_recover_all:
  "recover_all ins now ids d = (res, d') \<Longrightarrow> scheduled_jobs d' = scheduled_jobs d"
proof (induction ids arbitrary: d res d')
  case (Cons i ids)
  obtain r1 d1 where one: "recover_single_run_by_id (ins i) i now d = (r1, d1)" by fastforce
  obtain r2 d2 where rest: "recover_all ins now ids d1 = (r2, d2)" by fastforce
  from Cons.prems one rest Cons.IH [OF rest] scheduled_jobs_recover_single [OF one] show ?case
    by (auto split: sum.splits)
qed simp

lemma try_acquire_token:
  "try_acquire R S fl fl' t t' e s = (res, e1, s1) \<Longrightarrow> el_token e1 = el_token e"
  by (auto simp: try_acquire_def start_term_def split: sum.splits if_splits prod.splits)

text \<open>
  Recovery writes only as leader. If a tick changed the database, the lock server held
  this process's token at the first verification; if it changed any job, that is, if it
  cancelled an orphan, then also at the second one; and the database stays consistent.
\<close>

theorem recovery_writes_under_lock:
  assumes "db_ok d" and "recovery_tick S R i e s d = (x, e', s', d')" and "d' \<noteq> d"
  shows "\<exists>e1. el_token e1 = el_token e \<and> lock_held R (wi_verify1 i) e1
    \<and> (scheduled_jobs d' \<noteq> scheduled_jobs d \<longrightarrow> lock_held R (wi_verify2 i) e1) \<and> db_ok d'"
proof -
  obtain e1 s1 where acq: "try_acquire R S (fst (wi_set i)) (fst (wi_incr i)) (snd (wi_set i)) (snd (wi_incr i)) e s
      = (Inr True, e1, s1)"
    using assms(2,3) by (auto simp: recovery_tick_def split: prod.splits sum.splits if_splits)
  with assms(2,3) obtain e2 where v1: "verify_at R (wi_verify1 i) e1 = (Inr True, e2)"
    by (auto simp: recovery_tick_def split: prod.splits sum.splits if_splits)
  note held1 = election.verify_sound [OF v1]
  obtain res d1 where rec: "recover_stuck_runs (wi_runs i) (wi_now i) d = (res, d1)" by fastforce
  then have d1: "db_ok d1" "scheduled_jobs d1 = scheduled_jobs d"
    using assms(1) db_ok_recover_all scheduled_jobs_recover_all unfolding recover_stuck_runs_def by blast+
  have "d' = d1 \<or> (\<exists>e3 y. verify_at R (wi_verify2 i) e1 = (Inr True, e3)
      \<and> evaluate_all (wi_dag_clock i) (orphan_candidates d1) d1 = (y, d'))"
    using assms(2) acq v1 held1 rec
    by (auto simp: recovery_tick_def cancel_orphaned_dag_jobs_def split: prod.splits sum.splits if_splits)
  then have "db_ok d' \<and> (scheduled_jobs d' \<noteq> scheduled_jobs d \<longrightarrow> lock_held R (wi_verify2 i) e1)"
    using d1 db_ok_evaluate_all election.verify_sound by blast
  with held1 try_acquire_token [OF acq] show ?thesis by blast
qed

section \<open>Worked examples\<close>

definition stuck_run :: JobRun where
  "stuck_run = example_run\<lparr>r_status := JobRunStatus.RUNNING, r_worker_id := Some ''w1'', r_lock_expires_at := Some 150\<rparr>"

definition stuck_db :: db where
  "stuck_db = example_db\<lparr>job_runs := [stuck_run]\<rparr>"

definition example_recover :: recover_inputs where
  "example_recover = \<lparr>vi_run_id = 3, vi_dlq_id = 9, vi_dlq_now = 210\<rparr>"

lemma db_ok_stuck [simp]: "db_ok stuck_db"
  by (simp add: stuck_db_def stuck_run_def example_defs db_ok_defs)

lemma stuck_example [simp]: "stuck 200 stuck_run"
  by (simp add: stuck_def stuck_run_def)

definition recovered_db :: db where
  "recovered_db = stuck_db\<lparr>job_runs := [reclaimed 200 stuck_run, new_run 3 5 2 None 200]\<rparr>"

lemma example_reclaim:
  "reclaim_run 200 1 stuck_db = Inr (Some (5, 1, Some example_sub), stuck_db\<lparr>job_runs := [reclaimed 200 stuck_run]\<rparr>)"
  by (simp add: reclaim_run_def subscriptions_of_job_def update_runs_def stuck_db_def stuck_run_def stuck_def
      example_defs)

lemma example_recovery: "recover_single_run_by_id example_recover 1 200 stuck_db = (Inr True, recovered_db)"
proof -
  obtain p where p: "policy_of (s_retry_policy example_sub) = Inr p" "max_attempts p = JInt 2"
    using example_policy by blast
  then have "route_reclaimed example_recover 1 5 1 example_sub (stuck_db\<lparr>job_runs := [reclaimed 200 stuck_run]\<rparr>)
      = Inr recovered_db"
    by (simp add: route_reclaimed_def is_exhausted_def insert_run_def insert_row_def recovered_db_def
        example_recover_def stuck_db_def stuck_run_def example_defs reclaimed_def)
  then show ?thesis by (simp add: recover_single_run_by_id_def example_reclaim)
qed


theorem live_runs_spared_witness:
  "\<exists>d'. snd (recover_stuck_runs (\<lambda>_. example_recover) 200 example_db) = d' \<and> example_run \<in> set (job_runs d')"
proof -
  obtain res d' where r: "recover_stuck_runs (\<lambda>_. example_recover) 200 example_db = (res, d')" by fastforce
  have "example_run \<in> set (job_runs example_db)" "\<not> stuck 200 example_run"
    by (simp_all add: example_defs stuck_def)
  from live_runs_spared [OF db_ok_example r this] r show ?thesis by simp
qed

theorem one_recovery_per_run_witness:
  "length (filter (\<lambda>res. res \<noteq> Inr False)
     (fst (recovery_race 1 [(200, example_recover), (300, example_recover)] stuck_db))) \<le> 1
   \<and> fst (recovery_race 1 [(200, example_recover)] stuck_db) = [Inr True]"
  using one_recovery_per_run [OF db_ok_stuck, of 1 "[(200, example_recover), (300, example_recover)]"]
  by (auto simp: example_recovery)

theorem reclaimed_job_is_stranded_witness:
  "dead_letter_queue (stuck_db\<lparr>job_runs := [reclaimed 200 stuck_run]\<rparr>) = []
   \<and> 1 \<notin> set (fetch_pending_run_ids default_settings 900 (\<lambda>_. False) (stuck_db\<lparr>job_runs := [reclaimed 200 stuck_run]\<rparr>))"
  using reclaimed_job_is_stranded [OF db_ok_stuck example_reclaim, of default_settings 900 "\<lambda>_. False"]
  by (simp add: stuck_db_def stuck_run_def example_defs)

text \<open>Job 6 waits for job 5, whose runs are given.\<close>

definition dag_job :: ScheduledJob where
  "dag_job = example_job\<lparr>j_id := 6, j_scheduled_for := 300, j_fingerprint := ''f6'', j_depends_on := [uuid_str 5]\<rparr>"

definition dead_run :: "uuid \<Rightarrow> int \<Rightarrow> JobRun" where
  "dead_run i n = (new_run i 5 n None 0)\<lparr>r_status := JobRunStatus.DEAD\<rparr>"

definition dag_db :: "JobRun list \<Rightarrow> db" where
  "dag_db runs = example_db\<lparr>scheduled_jobs := [dag_job, example_job], job_runs := runs\<rparr>"

lemma db_ok_dag [simp]: "db_ok (dag_db [dead_run 1 1])" "db_ok (dag_db [dead_run 1 1, dead_run 2 2])"
  by (simp_all add: dag_db_def dag_job_def dead_run_def example_defs db_ok_defs)


theorem double_death_blocks_scan_witness:
  "cancel_orphaned_dag_jobs (\<lambda>_. 400) (dag_db [dead_run 1 1, dead_run 2 2])
     = (Some MultipleResultsFound, dag_db [dead_run 1 1, dead_run 2 2])"
proof (rule double_death_blocks_scan [OF db_ok_dag(2)])
  show "orphan_candidates (dag_db [dead_run 1 1, dead_run 2 2]) = [dag_job]"
    by (simp add: orphan_candidates_def select_limit_def dag_db_def dag_job_def example_job_def)
  show "j_depends_on dag_job = [uuid_str 5]" by (simp add: dag_job_def)
  show "uuid_parse (uuid_str 5) = Some 5" by simp
  show "dead_run 1 1 \<in> set (job_runs (dag_db [dead_run 1 1, dead_run 2 2]))"
    "dead_run 2 2 \<in> set (job_runs (dag_db [dead_run 1 1, dead_run 2 2]))" by (simp_all add: dag_db_def)
qed (simp_all add: dead_run_def new_run_def)

definition example_wake :: "store recovery_inputs" where
  "example_wake = \<lparr>wi_set = (Answered, 0), wi_incr = (Answered, 0),
     wi_verify1 = (Answered, 0, cl_redis term_0), wi_verify2 = (Answered, 0, cl_redis term_0),
     wi_now = 200, wi_runs = (\<lambda>_. example_recover), wi_dag_clock = (\<lambda>_. 0)\<rparr>"

lemma example_recovery_tick:
  "recovery_tick default_settings example_redis example_wake (leader_of 0 1) (cl_redis term_0) stuck_db
     = (None, leader_of 0 1, cl_redis term_0, recovered_db)"
proof -
  have "stuck_run_ids 200 stuck_db = [1]"
    by (simp add: stuck_run_ids_def select_limit_def stuck_db_def) (simp add: stuck_run_def example_defs)
  then have "recover_stuck_runs (\<lambda>_. example_recover) 200 stuck_db = (Inr 1, recovered_db)"
    by (simp add: recover_stuck_runs_def example_recovery)
  moreover have "verify_at example_redis (Answered, 0, cl_redis term_0) (leader_of 0 1) = (Inr True, leader_of 0 1)"
    by (simp add: verify_at_def verify_still_leader_def leader_of_def)
  moreover have "orphan_candidates recovered_db = []"
    by (simp add: orphan_candidates_def select_limit_def recovered_db_def stuck_db_def example_defs)
  ultimately show ?thesis
    by (simp add: recovery_tick_def try_acquire_def cancel_orphaned_dag_jobs_def example_wake_def leader_of_def)
qed

theorem recovery_writes_under_lock_witness:
  "\<exists>e1. el_token e1 = nat_str 0 \<and> lock_held example_redis (wi_verify1 example_wake) e1"
proof -
  have "length (job_runs recovered_db) \<noteq> length (job_runs stuck_db)" by (simp add: recovered_db_def stuck_db_def)
  then have "recovered_db \<noteq> stuck_db" by metis
  from recovery_writes_under_lock [OF db_ok_stuck example_recovery_tick this] show ?thesis
    by (auto simp: leader_of_def)
qed

end
