(* ===== verification/Scheduler.thy ===== *)
theory Scheduler
  imports Schema Leader
begin

text \<open>
  \<open>app/workers/scheduler.py\<close>: the due query, the job and its first run for one due subscription,
  the advance of \<open>next_fire_at\<close>, the transaction of a tick and the tick with its election calls.
  The tick takes as inputs what it meets outside the process: the clock readings, new
  identifiers, rows other transactions hold, and the lock server's state and faults at each of
  its calls.
\<close>

section \<open>One subscription\<close>

record sub_inputs =
  ci_job_id :: uuid
  ci_run_id :: uuid
  ci_cron_now :: datetime
  ci_pause_now :: datetime

text \<open>\<open>_next_fire\<close>: an unknown time zone falls back to UTC, a failing cron library gives None.\<close>

definition next_fire :: "ext \<Rightarrow> datetime \<Rightarrow> Subscription \<Rightarrow> datetime option" where
  "next_fire X now sub =
     x_cron_next X (s_cron_expression sub)
       (if x_tz_known X (s_timezone sub) then Some (s_timezone sub) else None) now"

definition new_job :: "ext \<Rightarrow> uuid \<Rightarrow> Subscription \<Rightarrow> datetime \<Rightarrow> int \<Rightarrow> datetime \<Rightarrow> ScheduledJob" where
  "new_job X job_id sub fire_at epoch created =
     \<lparr>j_id = job_id, j_subscription_id = s_id sub, j_scheduled_for = fire_at,
      j_fingerprint = JobFingerprint_for_job X (s_id sub) fire_at, j_depends_on = [],
      j_status = JobStatus.READY, j_created_by_epoch = epoch, j_created_at = created,
      j_updated_at = created\<rparr>"

lemma new_job_simps [simp]:
  "j_id (new_job X i sub f e c) = i"
  "j_subscription_id (new_job X i sub f e c) = s_id sub"
  "j_scheduled_for (new_job X i sub f e c) = f"
  "j_fingerprint (new_job X i sub f e c) = JobFingerprint_for_job X (s_id sub) f"
  "j_depends_on (new_job X i sub f e c) = []"
  "j_status (new_job X i sub f e c) = JobStatus.READY"
  by (simp_all add: new_job_def)

definition create_job_for_subscription ::
  "ext \<Rightarrow> int \<Rightarrow> sub_inputs \<Rightarrow> Subscription \<Rightarrow> db \<Rightarrow> exn + db" where
  "create_job_for_subscription X epoch i sub d =
     (case s_next_fire_at sub of
        None \<Rightarrow> Inr d
      | Some fire_at \<Rightarrow>
          and_then (insert_job (new_job X (ci_job_id i) sub fire_at epoch (db_now d)) d) (\<lambda>(created, d1).
          and_then (if created
                    then and_then (insert_run (new_run (ci_run_id i) (ci_job_id i) 1 None (db_now d)) d1)
                           (\<lambda>(_, d2). Inr d2)
                    else Inr d1) (\<lambda>d2.
            Inr (case next_fire X (ci_cron_now i) sub of
                   None \<Rightarrow> update_subscriptions (\<lambda>s. s_id s = s_id sub)
                     (\<lambda>s. s\<lparr>s_status := SubscriptionStatus.PAUSED, s_paused_at := Some (ci_pause_now i)\<rparr>) d2
                 | Some t \<Rightarrow> update_subscriptions (\<lambda>s. s_id s = s_id sub)
                     (\<lambda>s. s\<lparr>s_next_fire_at := Some t\<rparr>) d2))))"

section \<open>The transaction of a tick\<close>

definition due :: "datetime \<Rightarrow> Subscription \<Rightarrow> bool" where
  "due cutoff s \<longleftrightarrow> s_status s = SubscriptionStatus.ACTIVE
     \<and> (case s_next_fire_at s of None \<Rightarrow> False | Some t \<Rightarrow> t \<le> cutoff)"

definition due_subscriptions :: "datetime \<Rightarrow> (uuid \<Rightarrow> bool) \<Rightarrow> db \<Rightarrow> Subscription list" where
  "due_subscriptions cutoff locked d =
     select_limit (\<lambda>s. due cutoff s \<and> \<not> locked (s_id s)) (\<lambda>s. time_key (s_next_fire_at s)) 100 (subscriptions d)"

fun create_jobs ::
  "ext \<Rightarrow> int \<Rightarrow> (uuid \<Rightarrow> sub_inputs) \<Rightarrow> Subscription list \<Rightarrow> db \<Rightarrow> exn + db" where
  "create_jobs X epoch ins [] d = Inr d"
| "create_jobs X epoch ins (sub # subs) d =
     and_then (create_job_for_subscription X epoch (ins (s_id sub)) sub d) (create_jobs X epoch ins subs)"

text \<open>Everything a tick meets.\<close>

record 's sched_inputs =
  si_set :: "fault \<times> int"
  si_incr :: "fault \<times> int"
  si_verify1 :: "fault \<times> int \<times> 's"
  si_verify2 :: "fault \<times> int \<times> 's"
  si_now :: datetime
  si_locked :: "uuid \<Rightarrow> bool"
  si_subs :: "uuid \<Rightarrow> sub_inputs"

datatype sched_outcome = NotLeader | NothingDue | Scheduled nat

definition schedule_due_subscriptions ::
  "ext \<Rightarrow> Settings \<Rightarrow> 's redis \<Rightarrow> 's sched_inputs \<Rightarrow> int \<Rightarrow> Election \<Rightarrow> db
     \<Rightarrow> (exn + sched_outcome) \<times> Election \<times> db" where
  "schedule_due_subscriptions X S R i epoch e d =
     (case add_seconds (si_now i) (SCHEDULER_LOOKAHEAD_S S) of
        None \<Rightarrow> (Inl (ValueError ''year is out of range''), e, d)
      | Some cutoff \<Rightarrow>
         (case verify_at R (si_verify1 i) e of
            (Inl x, e1) \<Rightarrow> (Inl x, e1, d)
          | (Inr ok1, e1) \<Rightarrow>
              if \<not> ok1 then (Inr NotLeader, e1, d)
              else
                let subs = due_subscriptions cutoff (si_locked i) d in
                if subs = [] then (Inr NothingDue, e1, d)
                else (case verify_at R (si_verify2 i) e1 of
                        (Inl x, e2) \<Rightarrow> (Inl x, e2, d)
                      | (Inr ok2, e2) \<Rightarrow>
                          if \<not> ok2 then (Inr NotLeader, e2, d)
                          else (case create_jobs X epoch (si_subs i) subs d of
                                  Inl x \<Rightarrow> (Inl x, e2, d)
                                | Inr d' \<Rightarrow> (Inr (Scheduled (length subs)), e2, d')))))"

definition scheduler_tick ::
  "ext \<Rightarrow> Settings \<Rightarrow> 's redis \<Rightarrow> 's sched_inputs \<Rightarrow> Election \<Rightarrow> 's \<Rightarrow> db
     \<Rightarrow> (exn + sched_outcome) \<times> Election \<times> 's \<times> db" where
  "scheduler_tick X S R i e s d =
     (case try_acquire R S (fst (si_set i)) (fst (si_incr i)) (snd (si_set i)) (snd (si_incr i)) e s of
        (Inl x, e1, s1) \<Rightarrow> (Inl x, e1, s1, d)
      | (Inr acquired, e1, s1) \<Rightarrow>
          if \<not> acquired then (Inr NotLeader, e1, s1, d)
          else case schedule_due_subscriptions X S R i (el_epoch e1) e1 d of
                 (res, e2, d') \<Rightarrow> (res, e2, s1, d'))"

section \<open>What one subscription's turn does\<close>

definition advanced :: "ext \<Rightarrow> sub_inputs \<Rightarrow> datetime \<Rightarrow> Subscription \<Rightarrow> Subscription \<Rightarrow> Subscription" where
  "advanced X i stamp sub s =
     (case next_fire X (ci_cron_now i) sub of
        None \<Rightarrow> s\<lparr>s_status := SubscriptionStatus.PAUSED, s_paused_at := Some (ci_pause_now i), s_updated_at := stamp\<rparr>
      | Some t \<Rightarrow> s\<lparr>s_next_fire_at := Some t, s_updated_at := stamp\<rparr>)"

lemma s_id_advanced [simp]: "s_id (advanced X i stamp sub s) = s_id s"
  by (simp add: advanced_def split: option.split)

text \<open>The rows a turn adds: none when the window's fingerprint is there, else the job and its run.\<close>

definition added_jobs :: "ext \<Rightarrow> int \<Rightarrow> sub_inputs \<Rightarrow> Subscription \<Rightarrow> datetime \<Rightarrow> db \<Rightarrow> ScheduledJob list" where
  "added_jobs X epoch i sub f d =
     (if JobFingerprint_for_job X (s_id sub) f \<in> j_fingerprint ` set (scheduled_jobs d) then []
      else [new_job X (ci_job_id i) sub f epoch (db_now d)])"

definition added_runs :: "ext \<Rightarrow> sub_inputs \<Rightarrow> Subscription \<Rightarrow> datetime \<Rightarrow> db \<Rightarrow> JobRun list" where
  "added_runs X i sub f d =
     (if JobFingerprint_for_job X (s_id sub) f \<in> j_fingerprint ` set (scheduled_jobs d) then []
      else [new_run (ci_run_id i) (ci_job_id i) 1 None (db_now d)])"

lemma create_job_Inr:
  assumes "db_ok d" and "s_next_fire_at sub = Some f"
    and "create_job_for_subscription X epoch i sub d = Inr d'"
  shows "d' = d\<lparr>subscriptions := update_where (\<lambda>s. s_id s = s_id sub) (advanced X i (db_now d) sub) (subscriptions d),
               scheduled_jobs := scheduled_jobs d @ added_jobs X epoch i sub f d,
               job_runs := job_runs d @ added_runs X i sub f d\<rparr>"
proof -
  obtain created d1 d2 where job: "insert_job (new_job X (ci_job_id i) sub f epoch (db_now d)) d = Inr (created, d1)"
    and run: "if created then \<exists>b. insert_run (new_run (ci_run_id i) (ci_job_id i) 1 None (db_now d)) d1 = Inr (b, d2)
              else d2 = d1"
    and d': "d' = (case next_fire X (ci_cron_now i) sub of
                   None \<Rightarrow> update_subscriptions (\<lambda>s. s_id s = s_id sub)
                     (\<lambda>s. s\<lparr>s_status := SubscriptionStatus.PAUSED, s_paused_at := Some (ci_pause_now i)\<rparr>) d2
                 | Some t \<Rightarrow> update_subscriptions (\<lambda>s. s_id s = s_id sub) (\<lambda>s. s\<lparr>s_next_fire_at := Some t\<rparr>) d2)"
    using assms(2,3) by (fastforce simp: create_job_for_subscription_def and_then_Inr_iff split: if_splits)
  have "d2 = d\<lparr>scheduled_jobs := scheduled_jobs d @ added_jobs X epoch i sub f d,
               job_runs := job_runs d @ added_runs X i sub f d\<rparr>"
  proof (cases created)
    case True
    then have d1: "d1 = d\<lparr>scheduled_jobs := scheduled_jobs d @ [new_job X (ci_job_id i) sub f epoch (db_now d)]\<rparr>"
      and new: "ci_job_id i \<notin> j_id ` set (scheduled_jobs d)"
      and fp: "JobFingerprint_for_job X (s_id sub) f \<notin> j_fingerprint ` set (scheduled_jobs d)"
      using job by (auto simp: insert_job_Inr_iff split: if_splits)
    have "(ci_job_id i, 1) \<notin> run_slot ` set (job_runs d)"
      using assms(1) new by (auto simp: db_ok_defs)
    with True run d1 have "d2 = d1\<lparr>job_runs := job_runs d1 @ [new_run (ci_run_id i) (ci_job_id i) 1 None (db_now d)]\<rparr>"
      by (auto simp: insert_run_Inr_iff split: if_splits)
    with d1 fp show ?thesis by (simp add: added_jobs_def added_runs_def)
  next
    case False
    then have "d1 = d" and "JobFingerprint_for_job X (s_id sub) f \<in> j_fingerprint ` set (scheduled_jobs d)"
      using job by (auto simp: insert_job_Inr_iff split: if_splits)
    with False run show ?thesis by (simp add: added_jobs_def added_runs_def)
  qed
  then show ?thesis
    unfolding d' by (auto simp: update_subscriptions_def update_where_def advanced_def split: option.split)
qed

lemma db_ok_create_job:
  assumes "db_ok d" and "create_job_for_subscription X epoch i sub d = Inr d'"
  shows "db_ok d'"
  using assms
  by (auto simp: create_job_for_subscription_def and_then_Inr_iff split: option.splits if_splits
      intro!: db_ok_update_subscriptions)
    (metis db_ok_insert_job db_ok_insert_run)+

lemma db_ok_create_jobs:
  "db_ok d \<Longrightarrow> create_jobs X epoch ins subs d = Inr d' \<Longrightarrow> db_ok d'"
  by (induction subs arbitrary: d) (auto simp: and_then_Inr_iff dest: db_ok_create_job)

section \<open>What the transaction does\<close>

text \<open>The rows added for a list of due subscriptions, and the subscriptions after their turns.\<close>

definition scheduled_for_all :: "ext \<Rightarrow> Subscription list \<Rightarrow> db \<Rightarrow> bool" where
  "scheduled_for_all X subs d \<longleftrightarrow> (\<forall>sub \<in> set subs. \<forall>f. s_next_fire_at sub = Some f \<longrightarrow>
     JobFingerprint_for_job X (s_id sub) f \<in> j_fingerprint ` set (scheduled_jobs d))"

definition fresh_pairs :: "int \<Rightarrow> Subscription list \<Rightarrow> ScheduledJob list \<Rightarrow> JobRun list \<Rightarrow> bool" where
  "fresh_pairs epoch subs js rs \<longleftrightarrow> map r_job_id rs = map j_id js
     \<and> (\<forall>j \<in> set js. j_status j = JobStatus.READY \<and> j_depends_on j = [] \<and> j_created_by_epoch j = epoch
          \<and> (\<exists>sub \<in> set subs. j_subscription_id j = s_id sub \<and> s_next_fire_at sub = Some (j_scheduled_for j)))
     \<and> (\<forall>r \<in> set rs. r_status r = JobRunStatus.PENDING \<and> r_attempt r = 1 \<and> r_retry_after r = None)"

lemma create_jobs_Inr:
  assumes "db_ok d" and "\<forall>sub \<in> set subs. s_next_fire_at sub \<noteq> None" and "distinct (map s_id subs)"
    and "create_jobs X epoch ins subs d = Inr d'"
  shows "(\<exists>js rs. scheduled_jobs d' = scheduled_jobs d @ js \<and> job_runs d' = job_runs d @ rs \<and> fresh_pairs epoch subs js rs)
    \<and> scheduled_for_all X subs d'
    \<and> subscriptions d' = map (\<lambda>s. case get_by s_id (s_id s) subs of None \<Rightarrow> s
        | Some sub \<Rightarrow> advanced X (ins (s_id sub)) (db_now d) sub s) (subscriptions d)
    \<and> idempotency_keys d' = idempotency_keys d \<and> dead_letter_queue d' = dead_letter_queue d
    \<and> db_now d' = db_now d"
  using assms
proof (induction subs arbitrary: d)
  case Nil
  then show ?case by (simp add: fresh_pairs_def scheduled_for_all_def)
next
  case (Cons sub subs)
  obtain f where f: "s_next_fire_at sub = Some f" using Cons.prems(2) by auto
  obtain d1 where d1: "create_job_for_subscription X epoch (ins (s_id sub)) sub d = Inr d1"
    and rest: "create_jobs X epoch ins subs d1 = Inr d'"
    using Cons.prems(4) by (auto simp: and_then_Inr_iff)
  note turn = create_job_Inr [OF Cons.prems(1) f d1]
  have "db_ok d1" using Cons.prems(1) d1 by (rule db_ok_create_job)
  with Cons.IH [of d1] Cons.prems(2,3) rest obtain js rs where
    jobs: "scheduled_jobs d' = scheduled_jobs d1 @ js" and runs: "job_runs d' = job_runs d1 @ rs"
    and fresh: "fresh_pairs epoch subs js rs" and all: "scheduled_for_all X subs d'"
    and subs: "subscriptions d' = map (\<lambda>s. case get_by s_id (s_id s) subs of None \<Rightarrow> s
        | Some sub \<Rightarrow> advanced X (ins (s_id sub)) (db_now d1) sub s) (subscriptions d1)"
    and frame: "idempotency_keys d' = idempotency_keys d1 \<and> dead_letter_queue d' = dead_letter_queue d1
      \<and> db_now d' = db_now d1"
    by auto
  have "fresh_pairs epoch (sub # subs) (added_jobs X epoch (ins (s_id sub)) sub f d @ js)
      (added_runs X (ins (s_id sub)) sub f d @ rs)"
    using fresh f by (auto simp: fresh_pairs_def added_jobs_def added_runs_def new_job_def)
  moreover have "scheduled_for_all X (sub # subs) d'"
    using all f jobs turn by (auto simp: scheduled_for_all_def added_jobs_def)
  moreover have "s_id sub \<notin> s_id ` set subs" using Cons.prems(3) by auto
  then have "get_by s_id (s_id sub) subs = None" by (simp add: get_by_None_iff)
  then have "subscriptions d' = map (\<lambda>s. case get_by s_id (s_id s) (sub # subs) of None \<Rightarrow> s
        | Some sub \<Rightarrow> advanced X (ins (s_id sub)) (db_now d) sub s) (subscriptions d)"
    unfolding subs turn by (auto simp: update_where_def split: option.split)
  ultimately show ?case using jobs runs frame turn by auto
qed

section \<open>The tick under the lock\<close>

text \<open>The transaction is guarded by two verifications, one before and one inside it.\<close>

lemma schedule_due_guarded:
  "schedule_due_subscriptions X S R i epoch e d =
     (case add_seconds (si_now i) (SCHEDULER_LOOKAHEAD_S S) of
        None \<Rightarrow> (Inl (ValueError ''year is out of range''), e, d)
      | Some cutoff \<Rightarrow> election.guarded R (si_verify1 i) NotLeader (\<lambda>e1 d.
          if due_subscriptions cutoff (si_locked i) d = [] then (Inr NothingDue, e1, d)
          else election.guarded R (si_verify2 i) NotLeader (\<lambda>e2 d.
            case create_jobs X epoch (si_subs i) (due_subscriptions cutoff (si_locked i) d) d of
              Inl x \<Rightarrow> (Inl x, e2, d)
            | Inr d' \<Rightarrow> (Inr (Scheduled (length (due_subscriptions cutoff (si_locked i) d))), e2, d')) e1 d) e d)"
  by (auto simp: schedule_due_subscriptions_def election.guarded_def Let_def
      split: option.splits prod.splits sum.splits)

lemma schedule_due_writes:
  assumes "schedule_due_subscriptions X S R i epoch e d = (res, e', d')" and "d' \<noteq> d"
  shows "\<exists>cutoff. add_seconds (si_now i) (SCHEDULER_LOOKAHEAD_S S) = Some cutoff
    \<and> lock_held R (si_verify1 i) e \<and> lock_held R (si_verify2 i) e \<and> e' = e
    \<and> create_jobs X epoch (si_subs i) (due_subscriptions cutoff (si_locked i) d) d = Inr d'
    \<and> res = Inr (Scheduled (length (due_subscriptions cutoff (si_locked i) d)))"
proof (cases "add_seconds (si_now i) (SCHEDULER_LOOKAHEAD_S S)")
  case None
  with assms show ?thesis by (simp add: schedule_due_guarded)
next
  case (Some cutoff)
  note eq = assms(1) [unfolded schedule_due_guarded Some option.case]
  show ?thesis
    using eq
  proof (cases rule: election.guarded_cases)
    case skipping
    with assms(2) show ?thesis by simp
  next
    case outer: writing
    then have "due_subscriptions cutoff (si_locked i) d \<noteq> []" using assms(2) by auto
    with outer(2) have inner: "election.guarded R (si_verify2 i) NotLeader (\<lambda>e2 d.
            case create_jobs X epoch (si_subs i) (due_subscriptions cutoff (si_locked i) d) d of
              Inl x \<Rightarrow> (Inl x, e2, d)
            | Inr d' \<Rightarrow> (Inr (Scheduled (length (due_subscriptions cutoff (si_locked i) d))), e2, d')) e d
        = (res, e', d')" by simp
    show ?thesis
      using inner
    proof (cases rule: election.guarded_cases)
      case skipping
      with assms(2) show ?thesis by simp
    next
      case writing
      with outer(1) Some assms(2) show ?thesis by (auto split: sum.splits)
    qed
  qed
qed

lemma scheduler_tick_writes:
  assumes "scheduler_tick X S R i e s d = (res, e', s', d')" and "d' \<noteq> d"
  shows "schedule_due_subscriptions X S R i (el_epoch e') e' d = (res, e', d')"
proof -
  obtain e1 where due: "schedule_due_subscriptions X S R i (el_epoch e1) e1 d = (res, e', d')"
    using assms by (auto simp: scheduler_tick_def split: prod.splits sum.splits if_splits)
  with schedule_due_writes [OF due assms(2)] show ?thesis by auto
qed

lemma due_subscriptions_facts:
  "sub \<in> set (due_subscriptions cutoff locked d) \<Longrightarrow> sub \<in> set (subscriptions d) \<and> due cutoff sub \<and> \<not> locked (s_id sub)"
  using select_limit_subset by (fastforce simp: due_subscriptions_def)

lemma due_subscriptions_distinct:
  "db_ok d \<Longrightarrow> distinct (map s_id (due_subscriptions cutoff locked d))"
  unfolding due_subscriptions_def by (rule select_limit_distinct) (simp add: db_ok_defs)


section \<open>One job per window\<close>

lemma count_list_distinct: "distinct xs \<Longrightarrow> count_list xs x = (if x \<in> set xs then 1 else 0)"
  by (induction xs) auto

text \<open>The turns several leaders take for one subscription as they read it, each with its epoch; a
  turn that raises is rolled back.\<close>

fun turns :: "ext \<Rightarrow> Subscription \<Rightarrow> (int \<times> sub_inputs) list \<Rightarrow> db \<Rightarrow> db" where
  "turns X sub [] d = d"
| "turns X sub ((epoch, i) # ts) d =
     (case create_job_for_subscription X epoch i sub d of
        Inl e \<Rightarrow> turns X sub ts d | Inr d' \<Rightarrow> turns X sub ts d')"

lemma turn_again:
  assumes "db_ok d" and "s_next_fire_at sub = Some f"
    and "JobFingerprint_for_job X (s_id sub) f \<in> j_fingerprint ` set (scheduled_jobs d)"
  shows "scheduled_jobs (turns X sub ts d) = scheduled_jobs d \<and> job_runs (turns X sub ts d) = job_runs d"
  using assms(1,3)
proof (induction ts arbitrary: d)
  case (Cons t ts)
  obtain epoch i where t: "t = (epoch, i)" by (cases t)
  show ?case
  proof (cases "create_job_for_subscription X epoch i sub d")
    case (Inl e)
    with Cons t show ?thesis by simp
  next
    case (Inr d')
    have "scheduled_jobs d' = scheduled_jobs d" "job_runs d' = job_runs d"
      using create_job_Inr [OF Cons.prems(1) assms(2) Inr] Cons.prems(2)
      by (simp_all add: added_jobs_def added_runs_def)
    moreover have "db_ok d'" using Cons.prems(1) Inr by (rule db_ok_create_job)
    ultimately show ?thesis using Cons Inr t by simp
  qed
qed simp

text \<open>
  C19: however many leaders, of whatever epochs, schedule the same due window of a subscription
  one after the other, for example because leadership changed hands in between, after the first
  turn that went through there is exactly one job with the window's fingerprint, and all further
  turns leave jobs and runs as they are.
\<close>

theorem one_job_per_window:
  assumes "db_ok d" and "s_next_fire_at sub = Some f"
    and "create_job_for_subscription X epoch i sub d = Inr d1"
  shows "count_list (map j_fingerprint (scheduled_jobs (turns X sub ts d1))) (JobFingerprint_for_job X (s_id sub) f) = 1
    \<and> scheduled_jobs (turns X sub ts d1) = scheduled_jobs d1 \<and> job_runs (turns X sub ts d1) = job_runs d1"
proof -
  let ?fp = "JobFingerprint_for_job X (s_id sub) f"
  have ok: "db_ok d1" using assms(1,3) by (rule db_ok_create_job)
  have "?fp \<in> j_fingerprint ` set (scheduled_jobs d1)"
    using create_job_Inr [OF assms] by (auto simp: added_jobs_def)
  moreover have "distinct (map j_fingerprint (scheduled_jobs d1))" using ok by (simp add: db_ok_defs)
  ultimately show ?thesis
    using turn_again [OF ok assms(2)] by (simp add: count_list_distinct)
qed

section \<open>Every window is left behind\<close>

text \<open>croniter's documented result: an occurrence strictly after the moment it starts from.\<close>

definition cron_advances :: "ext \<Rightarrow> bool" where
  "cron_advances X \<longleftrightarrow> (\<forall>c tz now t. x_cron_next X c tz now = Some t \<longrightarrow> now < t)"


section \<open>Worked examples\<close>

text \<open>A database with one due subscription and nothing scheduled yet, and a leader's tick on it.\<close>

definition example_fresh_db :: db where
  "example_fresh_db = example_db\<lparr>scheduled_jobs := [], job_runs := []\<rparr>"

lemma db_ok_example_fresh [simp]: "db_ok example_fresh_db"
  by (simp add: example_fresh_db_def example_defs db_ok_defs)

definition example_turn :: sub_inputs where
  "example_turn = \<lparr>ci_job_id = 11, ci_run_id = 12, ci_cron_now = 200, ci_pause_now = 201\<rparr>"

definition example_sched :: "store sched_inputs" where
  "example_sched = \<lparr>si_set = (Answered, 0), si_incr = (Answered, 0),
     si_verify1 = (Answered, 0, cl_redis term_0), si_verify2 = (Answered, 0, cl_redis term_0),
     si_now = 200, si_locked = (\<lambda>_. False), si_subs = (\<lambda>_. example_turn)\<rparr>"

definition scheduled_db :: db where
  "scheduled_db = example_fresh_db\<lparr>
     subscriptions := [example_sub\<lparr>s_next_fire_at := Some 60000200, s_updated_at := 200\<rparr>],
     scheduled_jobs := [new_job example_ext 11 example_sub 100 1 200],
     job_runs := [new_run 12 11 1 None 200]\<rparr>"

lemma example_create:
  "create_job_for_subscription example_ext 1 example_turn example_sub example_fresh_db = Inr scheduled_db"
  by (simp add: create_job_for_subscription_def insert_job_def insert_run_def insert_row_def next_fire_def
      update_subscriptions_def update_where_def scheduled_db_def example_fresh_db_def example_turn_def
      example_defs new_job_def)

lemma example_tick:
  "scheduler_tick example_ext default_settings example_redis example_sched (leader_of 0 1) (cl_redis term_0) example_fresh_db
     = (Inr (Scheduled 1), leader_of 0 1, cl_redis term_0, scheduled_db)"
proof -
  have "add_seconds 200 60 = Some 60000200"
    using round_half_even_int [of 60000000]
    by (simp add: add_seconds_def microseconds_def datetime_min_def datetime_max_def)
  moreover have "due_subscriptions 60000200 (\<lambda>_. False) example_fresh_db = [example_sub]"
    by (simp add: due_subscriptions_def select_limit_def due_def example_fresh_db_def example_db_def example_sub_def)
  moreover have "verify_at example_redis (Answered, 0, cl_redis term_0) (leader_of 0 1) = (Inr True, leader_of 0 1)"
    by (simp add: verify_at_def verify_still_leader_def leader_of_def)
  ultimately show ?thesis
    using example_create
    by (simp add: scheduler_tick_def try_acquire_def schedule_due_subscriptions_def example_sched_def
        leader_of_def Let_def)
qed


theorem one_job_per_window_witness:
  "length (scheduled_jobs (turns example_ext example_sub [(2, example_turn), (3, example_turn)] scheduled_db)) = 1"
  using one_job_per_window [OF db_ok_example_fresh _ example_create, of 100 "[(2, example_turn), (3, example_turn)]"]
  by (simp add: example_sub_def scheduled_db_def)


end
