(* ===== verification/Api.thy ===== *)
theory Api
  imports Schema
begin

text \<open>
  The HTTP layer: \<open>app/api/routes\<close> and the exception handlers of \<open>app/main.py\<close>. The request
  bodies are records with the schema's validation as a predicate; a handler returns its response
  and the new database, or an error and nothing, as the session of \<open>get_db\<close> commits on a normal
  return and rolls back on any exception. Parsing and serialisation of JSON are the web
  framework's.
\<close>

section \<open>Responses\<close>

text \<open>A client error raised by the route or by the schema validation, or an exception the route
  does not catch.\<close>

datatype http_error = HTTPException int string | Unhandled exn

section \<open>Schemas\<close>

record RetryPolicySchema =
  rs_max_attempts :: int
  rs_base_backoff_s :: rat
  rs_max_backoff_s :: rat
  rs_jitter :: bool

definition RetryPolicySchema_default :: RetryPolicySchema where
  "RetryPolicySchema_default =
     \<lparr>rs_max_attempts = 5, rs_base_backoff_s = 60, rs_max_backoff_s = 3600, rs_jitter = True\<rparr>"

definition RetryPolicySchema_ok :: "RetryPolicySchema \<Rightarrow> bool" where
  "RetryPolicySchema_ok p \<longleftrightarrow> 1 \<le> rs_max_attempts p \<and> rs_max_attempts p \<le> 20
     \<and> 1 \<le> rs_base_backoff_s p \<and> 60 \<le> rs_max_backoff_s p"

definition RetryPolicySchema_dump :: "RetryPolicySchema \<Rightarrow> json" where
  "RetryPolicySchema_dump p =
     JObj [(''max_attempts'', JInt (rs_max_attempts p)), (''base_backoff_s'', JFloat (rs_base_backoff_s p)),
           (''max_backoff_s'', JFloat (rs_max_backoff_s p)), (''jitter'', JBool (rs_jitter p))]"

record PaymentConfigSchema =
  ps_amount :: string
  ps_currency :: string
  ps_counterparty_iban :: string
  ps_counterparty_name :: string
  ps_description :: string
  ps_monetary_account_id :: "int option"

definition PaymentConfigSchema_ok :: "PaymentConfigSchema \<Rightarrow> bool" where
  "PaymentConfigSchema_ok c \<longleftrightarrow> length (ps_currency c) = 3"

definition PaymentConfigSchema_dump :: "PaymentConfigSchema \<Rightarrow> json" where
  "PaymentConfigSchema_dump c =
     JObj [(''amount'', JStr (ps_amount c)), (''currency'', JStr (ps_currency c)),
           (''counterparty_iban'', JStr (ps_counterparty_iban c)),
           (''counterparty_name'', JStr (ps_counterparty_name c)),
           (''description'', JStr (ps_description c)),
           (''monetary_account_id'', case ps_monetary_account_id c of None \<Rightarrow> JNull | Some i \<Rightarrow> JInt i)]"

record SubscriptionCreate =
  sc_name :: string
  sc_description :: "string option"
  sc_cron_expression :: string
  sc_timezone :: string
  sc_payment_config :: PaymentConfigSchema
  sc_retry_policy :: RetryPolicySchema

definition SubscriptionCreate_ok :: "ext \<Rightarrow> SubscriptionCreate \<Rightarrow> bool" where
  "SubscriptionCreate_ok X b \<longleftrightarrow> sc_name b \<noteq> [] \<and> length (sc_name b) \<le> 255
     \<and> x_cron_valid X (sc_cron_expression b) \<and> x_all_timezones X (sc_timezone b)
     \<and> PaymentConfigSchema_ok (sc_payment_config b) \<and> RetryPolicySchema_ok (sc_retry_policy b)"

record SubscriptionUpdate =
  su_name :: "string option"
  su_description :: "string option"
  su_cron_expression :: "string option"
  su_timezone :: "string option"
  su_payment_config :: "PaymentConfigSchema option"
  su_retry_policy :: "RetryPolicySchema option"
  su_status :: "string option"

definition option_ok :: "('a \<Rightarrow> bool) \<Rightarrow> 'a option \<Rightarrow> bool" where
  "option_ok ok v = (case v of None \<Rightarrow> True | Some x \<Rightarrow> ok x)"

definition SubscriptionUpdate_ok :: "ext \<Rightarrow> SubscriptionUpdate \<Rightarrow> bool" where
  "SubscriptionUpdate_ok X b \<longleftrightarrow> option_ok (x_cron_valid X) (su_cron_expression b)
     \<and> option_ok PaymentConfigSchema_ok (su_payment_config b)
     \<and> option_ok RetryPolicySchema_ok (su_retry_policy b)"

definition validation_error :: http_error where
  "validation_error = HTTPException 422 ''validation error''"

section \<open>Subscriptions\<close>

definition compute_next_fire :: "ext \<Rightarrow> string \<Rightarrow> string \<Rightarrow> datetime \<Rightarrow> http_error + datetime" where
  "compute_next_fire X cron_expr tz_name now =
     (if \<not> x_tz_known X tz_name then Inl (Unhandled UnknownTimeZoneError)
      else case x_cron_next X cron_expr (Some tz_name) now of
        None \<Rightarrow> Inl (Unhandled CroniterError) | Some t \<Rightarrow> Inr t)"

definition unhandled :: "exn + 'a \<Rightarrow> http_error + 'a" where
  "unhandled r = (case r of Inl e \<Rightarrow> Inl (Unhandled e) | Inr x \<Rightarrow> Inr x)"

definition create_subscription ::
  "ext \<Rightarrow> datetime \<Rightarrow> uuid \<Rightarrow> SubscriptionCreate \<Rightarrow> db \<Rightarrow> http_error + Subscription \<times> db" where
  "create_subscription X now new_id body d =
     (if \<not> SubscriptionCreate_ok X body then Inl validation_error
      else and_then (compute_next_fire X (sc_cron_expression body) (sc_timezone body) now) (\<lambda>next_fire.
        let sub = \<lparr>s_id = new_id, s_name = sc_name body, s_description = sc_description body,
              s_cron_expression = sc_cron_expression body, s_timezone = sc_timezone body,
              s_next_fire_at = Some next_fire,
              s_payment_config = PaymentConfigSchema_dump (sc_payment_config body),
              s_retry_policy = RetryPolicySchema_dump (sc_retry_policy body),
              s_status = SubscriptionStatus.ACTIVE, s_consecutive_failures = 0, s_paused_at = None,
              s_created_at = db_now d, s_updated_at = db_now d\<rparr> in
        and_then (unhandled (insert_subscription sub d)) (\<lambda>d'. Inr (sub, d'))))"

text \<open>LIMIT and OFFSET of a query; negative values are the database's error.\<close>

definition page :: "int \<Rightarrow> int \<Rightarrow> 'a list \<Rightarrow> http_error + 'a list" where
  "page limit offset xs =
     (if limit < 0 \<or> offset < 0 then Inl (Unhandled DataError)
      else Inr (take (nat limit) (drop (nat offset) xs)))"

definition list_subscriptions ::
  "string option \<Rightarrow> int \<Rightarrow> int \<Rightarrow> db \<Rightarrow> http_error + Subscription list" where
  "list_subscriptions status limit offset d =
     page limit offset (sort_key (\<lambda>s. - s_created_at s)
       (filter (\<lambda>s. case status of None \<Rightarrow> True | Some v \<Rightarrow>
            v = [] \<or> subscription_status_value (s_status s) = str_upper v) (subscriptions d)))"

definition find_subscription :: "uuid \<Rightarrow> db \<Rightarrow> http_error + Subscription" where
  "find_subscription subscription_id d =
     (case get_by s_id subscription_id (subscriptions d) of
        None \<Rightarrow> Inl (HTTPException 404 ''Subscription not found'') | Some sub \<Rightarrow> Inr sub)"

definition get_subscription :: "uuid \<Rightarrow> db \<Rightarrow> http_error + Subscription" where
  "get_subscription subscription_id d = find_subscription subscription_id d"

text \<open>\<open>body.timezone or sub.timezone\<close>: an empty text counts as absent here, and is stored all the
  same.\<close>

definition effective_timezone :: "string option \<Rightarrow> Subscription \<Rightarrow> string" where
  "effective_timezone tz sub =
     (case tz of None \<Rightarrow> s_timezone sub | Some t \<Rightarrow> if t = [] then s_timezone sub else t)"

definition set_if :: "'a option \<Rightarrow> ('a \<Rightarrow> 'r \<Rightarrow> 'r) \<Rightarrow> 'r \<Rightarrow> 'r" where
  "set_if v f r = (case v of None \<Rightarrow> r | Some x \<Rightarrow> f x r)"

text \<open>The dict of changes as the update it makes: the fields given, the next fire time with a new
  cron expression, the status and, for PAUSED, the time of the pause.\<close>

definition apply_changes ::
  "SubscriptionUpdate \<Rightarrow> datetime option \<Rightarrow> SubscriptionStatus option \<Rightarrow> datetime \<Rightarrow> Subscription \<Rightarrow> Subscription" where
  "apply_changes body next_fire status pause_now =
     set_if status (\<lambda>v s. if v = SubscriptionStatus.PAUSED then s\<lparr>s_status := v, s_paused_at := Some pause_now\<rparr>
                          else s\<lparr>s_status := v\<rparr>)
   \<circ> set_if (su_retry_policy body) (\<lambda>v s. s\<lparr>s_retry_policy := RetryPolicySchema_dump v\<rparr>)
   \<circ> set_if (su_payment_config body) (\<lambda>v s. s\<lparr>s_payment_config := PaymentConfigSchema_dump v\<rparr>)
   \<circ> set_if (su_timezone body) (\<lambda>v s. s\<lparr>s_timezone := v\<rparr>)
   \<circ> set_if next_fire (\<lambda>v s. s\<lparr>s_next_fire_at := Some v\<rparr>)
   \<circ> set_if (su_cron_expression body) (\<lambda>v s. s\<lparr>s_cron_expression := v\<rparr>)
   \<circ> set_if (su_description body) (\<lambda>v s. s\<lparr>s_description := Some v\<rparr>)
   \<circ> set_if (su_name body) (\<lambda>v s. s\<lparr>s_name := v\<rparr>)"

definition has_changes :: "SubscriptionUpdate \<Rightarrow> bool" where
  "has_changes b \<longleftrightarrow> su_name b \<noteq> None \<or> su_description b \<noteq> None \<or> su_cron_expression b \<noteq> None
     \<or> su_timezone b \<noteq> None \<or> su_payment_config b \<noteq> None \<or> su_retry_policy b \<noteq> None \<or> su_status b \<noteq> None"

text \<open>The 422 for an unknown status prints a Python set, whose order is not fixed; the text here lists
  its members.\<close>

definition update_subscription ::
  "ext \<Rightarrow> datetime \<Rightarrow> datetime \<Rightarrow> uuid \<Rightarrow> SubscriptionUpdate \<Rightarrow> db \<Rightarrow> http_error + Subscription \<times> db" where
  "update_subscription X now pause_now subscription_id body d =
     (if \<not> SubscriptionUpdate_ok X body then Inl validation_error
      else and_then (find_subscription subscription_id d) (\<lambda>sub.
        and_then (case su_cron_expression body of
                    None \<Rightarrow> Inr None
                  | Some cron \<Rightarrow> and_then (compute_next_fire X cron (effective_timezone (su_timezone body) sub) now)
                      (\<lambda>t. Inr (Some t))) (\<lambda>next_fire.
        and_then (case su_status body of
                    None \<Rightarrow> Inr None
                  | Some v \<Rightarrow> (case SubscriptionStatus_of (str_upper v) of
                      None \<Rightarrow> Inl (HTTPException 422 ''status must be one of ACTIVE, PAUSED, CANCELLED'')
                    | Some st \<Rightarrow> Inr (Some st))) (\<lambda>status.
          let d' = (if has_changes body
                    then update_subscriptions (\<lambda>s. s_id s = subscription_id)
                           (apply_changes body next_fire status pause_now) d
                    else d) in
          and_then (find_subscription subscription_id d') (\<lambda>sub'. Inr (sub', d'))))))"

definition delete_subscription :: "uuid \<Rightarrow> db \<Rightarrow> http_error + unit \<times> db" where
  "delete_subscription subscription_id d =
     and_then (find_subscription subscription_id d) (\<lambda>_.
       Inr ((), update_subscriptions (\<lambda>s. s_id s = subscription_id)
                  (\<lambda>s. s\<lparr>s_status := SubscriptionStatus.CANCELLED\<rparr>) d))"

definition resume_subscription ::
  "ext \<Rightarrow> datetime \<Rightarrow> uuid \<Rightarrow> db \<Rightarrow> http_error + Subscription \<times> db" where
  "resume_subscription X now subscription_id d =
     and_then (find_subscription subscription_id d) (\<lambda>sub.
     and_then (compute_next_fire X (s_cron_expression sub) (s_timezone sub) now) (\<lambda>next_fire.
       let d' = update_subscriptions (\<lambda>s. s_id s = subscription_id)
             (\<lambda>s. s\<lparr>s_status := SubscriptionStatus.ACTIVE, s_paused_at := None,
                   s_consecutive_failures := 0, s_next_fire_at := Some next_fire\<rparr>) d in
       and_then (find_subscription subscription_id d') (\<lambda>sub'. Inr (sub', d'))))"

section \<open>Jobs and runs\<close>

definition list_jobs ::
  "uuid option \<Rightarrow> string option \<Rightarrow> int \<Rightarrow> int \<Rightarrow> db \<Rightarrow> http_error + ScheduledJob list" where
  "list_jobs subscription_id status limit offset d =
     page limit offset (sort_key (\<lambda>j. - j_scheduled_for j)
       (filter (\<lambda>j. option_ok (\<lambda>i. j_subscription_id j = i) subscription_id
            \<and> option_ok (\<lambda>v. v = [] \<or> job_status_value (j_status j) = str_upper v) status) (scheduled_jobs d)))"

definition get_job :: "uuid \<Rightarrow> db \<Rightarrow> http_error + ScheduledJob" where
  "get_job job_id d =
     (case get_by j_id job_id (scheduled_jobs d) of
        None \<Rightarrow> Inl (HTTPException 404 ''Job not found'') | Some j \<Rightarrow> Inr j)"

definition list_job_runs :: "uuid \<Rightarrow> db \<Rightarrow> JobRun list" where
  "list_job_runs job_id d = sort_key r_attempt (filter (\<lambda>r. r_job_id r = job_id) (job_runs d))"

definition get_job_run :: "uuid \<Rightarrow> db \<Rightarrow> http_error + JobRun" where
  "get_job_run run_id d =
     (case get_by r_id run_id (job_runs d) of
        None \<Rightarrow> Inl (HTTPException 404 ''Job run not found'') | Some r \<Rightarrow> Inr r)"

section \<open>The dead-letter queue\<close>

definition list_dlq :: "uuid option \<Rightarrow> bool \<Rightarrow> int \<Rightarrow> int \<Rightarrow> db \<Rightarrow> http_error + DeadLetterEntry list" where
  "list_dlq subscription_id resolved limit offset d =
     page limit offset (sort_key (\<lambda>e. - d_created_at e)
       (filter (\<lambda>e. option_ok (\<lambda>i. d_subscription_id e = i) subscription_id
            \<and> (resolved \<or> d_resolved_at e = None)) (dead_letter_queue d)))"

definition dlq_count :: "db \<Rightarrow> nat" where
  "dlq_count d = length (filter (\<lambda>e. d_resolved_at e = None) (dead_letter_queue d))"

definition resolve_dlq_entry ::
  "datetime \<Rightarrow> uuid \<Rightarrow> string \<Rightarrow> db \<Rightarrow> http_error + DeadLetterEntry \<times> db" where
  "resolve_dlq_entry now entry_id resolved_by d =
     (case get_by d_id entry_id (dead_letter_queue d) of
        None \<Rightarrow> Inl (HTTPException 404 ''DLQ entry not found'')
      | Some e \<Rightarrow>
          if d_resolved_at e \<noteq> None then Inl (HTTPException 409 ''Already resolved'')
          else
            let d' = update_dlq (\<lambda>e. d_id e = entry_id)
                  (\<lambda>e. e\<lparr>d_resolved_at := Some now, d_resolved_by := Some resolved_by\<rparr>) d in
            (case get_by d_id entry_id (dead_letter_queue d') of
               None \<Rightarrow> Inl (Unhandled RuntimeError) | Some e' \<Rightarrow> Inr (e', d')))"

section \<open>Health and exception handlers\<close>

text \<open>A response is a status and a JSON body. A tuple a handler returns is serialised as the body,
  the status is the route's 200.\<close>

definition liveness :: "int \<times> json" where
  "liveness = (200, JObj [(''status'', JStr ''ok'')])"

definition readiness :: "ext \<Rightarrow> exn option \<Rightarrow> int \<times> json" where
  "readiness X failure =
     (case failure of
        None \<Rightarrow> (200, JObj [(''status'', JStr ''ready''), (''db'', JStr ''ok'')])
      | Some exc \<Rightarrow> (200, JArr [JObj [(''status'', JStr ''not_ready''), (''db'', JStr (exn_str X exc))], JInt 503]))"

text \<open>The handlers registered in \<open>create_app\<close>: the first class of the exception's ancestry that has
  one decides; anything that is no \<open>SchedulerError\<close> is the server's 500.\<close>

definition error_response :: "ext \<Rightarrow> exn \<Rightarrow> int \<times> json" where
  "error_response X e =
     (case e of
        SubscriptionNotFoundError m \<Rightarrow> (404, JObj [(''detail'', JStr m)])
      | JobNotFoundError m \<Rightarrow> (404, JObj [(''detail'', JStr m)])
      | SubscriptionValidationError m \<Rightarrow> (422, JObj [(''detail'', JStr m)])
      | _ \<Rightarrow> if is_scheduler_error e then (500, JObj [(''detail'', JStr ''An internal error occurred.'')])
             else (500, JStr ''Internal Server Error''))"

end
