(* ===== verification/ApiFacts.thy ===== *)
theory ApiFacts
  imports Api Executor
begin

text \<open>
  What the HTTP layer guarantees: each handler keeps \<open>db_ok\<close>; a subscription it creates can be
  scheduled and retried by the workers; a patch changes exactly the fields it names; a dead
  letter is resolved once.
\<close>

section \<open>Every handler keeps the database consistent\<close>

lemma set_if_simps [simp]:
  "set_if None f r = r"
  "set_if (Some x) f r = f x r"
  by (simp_all add: set_if_def)

lemma set_if_keeps: "(\<And>x r. g (f x r) = g r) \<Longrightarrow> g (set_if v f r) = g r"
  by (simp add: set_if_def split: option.split)

lemma s_id_apply_changes [simp]: "s_id (apply_changes body nf st t s) = s_id s"
  by (simp add: apply_changes_def set_if_keeps [of s_id])

lemma unhandled_Inr_iff: "unhandled r = Inr x \<longleftrightarrow> r = Inr x"
  by (cases r) (simp_all add: unhandled_def)

lemma db_ok_create_subscription:
  "db_ok d \<Longrightarrow> create_subscription X now i body d = Inr (sub, d') \<Longrightarrow> db_ok d'"
  by (auto simp: create_subscription_def and_then_Inr_iff Let_def unhandled_Inr_iff
      split: if_splits dest: db_ok_insert_subscription)

lemma db_ok_update_subscription:
  "db_ok d \<Longrightarrow> update_subscription X now t i body d = Inr (sub, d') \<Longrightarrow> db_ok d'"
  by (auto simp: update_subscription_def and_then_Inr_iff Let_def split: if_splits
      intro!: db_ok_update_subscriptions)

lemma db_ok_delete_subscription:
  "db_ok d \<Longrightarrow> delete_subscription i d = Inr (u, d') \<Longrightarrow> db_ok d'"
  by (auto simp: delete_subscription_def and_then_Inr_iff intro!: db_ok_update_subscriptions)

lemma db_ok_resume_subscription:
  "db_ok d \<Longrightarrow> resume_subscription X now i d = Inr (sub, d') \<Longrightarrow> db_ok d'"
  by (auto simp: resume_subscription_def and_then_Inr_iff Let_def intro!: db_ok_update_subscriptions)

lemma db_ok_resolve_dlq_entry:
  "db_ok d \<Longrightarrow> resolve_dlq_entry now i who d = Inr (e, d') \<Longrightarrow> db_ok d'"
  by (auto simp: resolve_dlq_entry_def Let_def split: option.splits if_splits intro!: db_ok_update_dlq)

section \<open>Created subscriptions\<close>

lemma policy_of_dump:
  "policy_of (RetryPolicySchema_dump p) =
     Inr \<lparr>max_attempts = JInt (rs_max_attempts p), base_backoff_s = JFloat (rs_base_backoff_s p),
          max_backoff_s = JFloat (rs_max_backoff_s p), jitter = JBool (rs_jitter p)\<rparr>"
  by (simp add: policy_of_def RetryPolicySchema_dump_def RetryPolicy_from_dict_def Let_def field_or_def
      RETRY_POLICY_KNOWN_KEYS_def)

definition readable_policy :: "json \<Rightarrow> bool" where
  "readable_policy v \<longleftrightarrow> (\<exists>p m. policy_of v = Inr p \<and> max_attempts p = JInt m \<and> 1 \<le> m \<and> m \<le> 20
     \<and> (\<forall>a u. 1 \<le> a \<and> a \<le> 1024 \<longrightarrow> (\<exists>delay. next_delay_s p a u = Inr delay)))"

lemma readable_policy_dump: "RetryPolicySchema_ok p \<Longrightarrow> readable_policy (RetryPolicySchema_dump p)"
  by (simp add: readable_policy_def policy_of_dump RetryPolicySchema_ok_def next_delay_s_def)


section \<open>Patches\<close>

definition given :: "'a option \<Rightarrow> 'a \<Rightarrow> 'a" where
  "given v old = (case v of None \<Rightarrow> old | Some x \<Rightarrow> x)"

lemma given_simps [simp]: "given None x = x" "given (Some y) x = y"
  by (simp_all add: given_def)

lemma apply_changes_fields:
  "s_name (apply_changes b nf st t s) = given (su_name b) (s_name s)"
  "s_description (apply_changes b nf st t s) = (if su_description b = None then s_description s else su_description b)"
  "s_cron_expression (apply_changes b nf st t s) = given (su_cron_expression b) (s_cron_expression s)"
  "s_timezone (apply_changes b nf st t s) = given (su_timezone b) (s_timezone s)"
  "s_next_fire_at (apply_changes b nf st t s) = (if nf = None then s_next_fire_at s else nf)"
  "s_payment_config (apply_changes b nf st t s) =
     given (map_option PaymentConfigSchema_dump (su_payment_config b)) (s_payment_config s)"
  "s_retry_policy (apply_changes b nf st t s) =
     given (map_option RetryPolicySchema_dump (su_retry_policy b)) (s_retry_policy s)"
  "s_status (apply_changes b nf st t s) = given st (s_status s)"
  "s_consecutive_failures (apply_changes b nf st t s) = s_consecutive_failures s"
  "s_paused_at (apply_changes b nf st t s) =
     (if st = Some SubscriptionStatus.PAUSED then Some t else s_paused_at s)"
  by (simp_all add: apply_changes_def set_if_def split: option.split)

text \<open>
  A patch changes exactly what it names. Every field of the subscription is the value
  given, or as it was; a new cron expression also recomputes the next fire time, in the time
  zone given with it or else the stored one; a status is one of the three, in any case, and
  PAUSED records the time; the failure count is never touched; all other rows of the database
  are as they were.
\<close>

theorem patch_exact:
  assumes "db_ok d" and "update_subscription X now pause_now i body d = Inr (sub', d')"
  shows "\<exists>sub status. get_by s_id i (subscriptions d) = Some sub
      \<and> s_id sub' = i \<and> s_name sub' = given (su_name body) (s_name sub)
      \<and> s_cron_expression sub' = given (su_cron_expression body) (s_cron_expression sub)
      \<and> s_timezone sub' = given (su_timezone body) (s_timezone sub)
      \<and> s_payment_config sub' = given (map_option PaymentConfigSchema_dump (su_payment_config body)) (s_payment_config sub)
      \<and> s_retry_policy sub' = given (map_option RetryPolicySchema_dump (su_retry_policy body)) (s_retry_policy sub)
      \<and> s_next_fire_at sub' = (if su_cron_expression body = None then s_next_fire_at sub
           else x_cron_next X (s_cron_expression sub') (Some (effective_timezone (su_timezone body) sub)) now)
      \<and> (case su_status body of None \<Rightarrow> status = None
           | Some v \<Rightarrow> status = SubscriptionStatus_of (str_upper v) \<and> status \<noteq> None)
      \<and> s_status sub' = given status (s_status sub)
      \<and> s_paused_at sub' = (if status = Some SubscriptionStatus.PAUSED then Some pause_now else s_paused_at sub)
      \<and> s_consecutive_failures sub' = s_consecutive_failures sub
      \<and> filter (\<lambda>s. s_id s \<noteq> i) (subscriptions d') = filter (\<lambda>s. s_id s \<noteq> i) (subscriptions d)
      \<and> scheduled_jobs d' = scheduled_jobs d \<and> job_runs d' = job_runs d
      \<and> idempotency_keys d' = idempotency_keys d \<and> dead_letter_queue d' = dead_letter_queue d \<and> db_ok d'"
proof -
  obtain sub nf st where sub: "get_by s_id i (subscriptions d) = Some sub"
    and nf: "(case su_cron_expression body of None \<Rightarrow> Inr None
        | Some cron \<Rightarrow> and_then (compute_next_fire X cron (effective_timezone (su_timezone body) sub) now)
            (\<lambda>t. Inr (Some t))) = Inr nf"
    and st: "(case su_status body of None \<Rightarrow> Inr None
        | Some v \<Rightarrow> (case SubscriptionStatus_of (str_upper v) of
            None \<Rightarrow> Inl (HTTPException 422 ''status must be one of ACTIVE, PAUSED, CANCELLED'')
          | Some st \<Rightarrow> Inr (Some st))) = Inr st"
    and d': "d' = (if has_changes body then update_subscriptions (\<lambda>s. s_id s = i) (apply_changes body nf st pause_now) d
                   else d)"
    and sub': "get_by s_id i (subscriptions d') = Some sub'"
    using assms(2)
    by (auto simp: update_subscription_def find_subscription_def and_then_Inr_iff Let_def
        split: if_splits option.splits)
  have id: "s_id sub = i" using get_by_Some_in [OF sub] by simp
  have eq: "\<exists>stamp. sub' = (apply_changes body nf st pause_now sub)\<lparr>s_updated_at := stamp\<rparr>"
  proof (cases "has_changes body")
    case True
    with sub' d' sub id show ?thesis by (auto simp: get_by_update_where)
  next
    case False
    then have "apply_changes body nf st pause_now sub = sub"
      using nf st by (simp add: has_changes_def apply_changes_def)
    moreover have "sub' = sub" using False d' sub sub' by simp
    ultimately show ?thesis by (intro exI [of _ "s_updated_at sub"]) simp
  qed
  have "filter (\<lambda>s. s_id s \<noteq> i) (update_where (\<lambda>s. s_id s = i) f t) = filter (\<lambda>s. s_id s \<noteq> i) t"
    if "\<And>s. s_id (f s) = s_id s" for f :: "Subscription \<Rightarrow> Subscription" and t
    using that by (induction t) auto
  then have frame: "filter (\<lambda>s. s_id s \<noteq> i) (subscriptions d') = filter (\<lambda>s. s_id s \<noteq> i) (subscriptions d)
      \<and> scheduled_jobs d' = scheduled_jobs d \<and> job_runs d' = job_runs d
      \<and> idempotency_keys d' = idempotency_keys d \<and> dead_letter_queue d' = dead_letter_queue d"
    by (simp add: d')
  have fire: "s_next_fire_at sub' = (if su_cron_expression body = None then s_next_fire_at sub
      else x_cron_next X (s_cron_expression sub') (Some (effective_timezone (su_timezone body) sub)) now)"
    using eq nf by (auto simp: apply_changes_fields compute_next_fire_def and_then_Inr_iff split: option.splits if_splits)
  have status: "case su_status body of None \<Rightarrow> st = None
      | Some v \<Rightarrow> st = SubscriptionStatus_of (str_upper v) \<and> st \<noteq> None"
  proof (cases "su_status body")
    case (Some v)
    with st show ?thesis by (cases "SubscriptionStatus_of (str_upper v)") auto
  qed (use st in simp)
  have "db_ok d'" using assms by (rule db_ok_update_subscription)
  moreover from eq obtain stamp where "sub' = (apply_changes body nf st pause_now sub)\<lparr>s_updated_at := stamp\<rparr>" ..
  then have "s_id sub' = i \<and> s_name sub' = given (su_name body) (s_name sub)
      \<and> s_cron_expression sub' = given (su_cron_expression body) (s_cron_expression sub)
      \<and> s_timezone sub' = given (su_timezone body) (s_timezone sub)
      \<and> s_payment_config sub' = given (map_option PaymentConfigSchema_dump (su_payment_config body)) (s_payment_config sub)
      \<and> s_retry_policy sub' = given (map_option RetryPolicySchema_dump (su_retry_policy body)) (s_retry_policy sub)
      \<and> s_status sub' = given st (s_status sub)
      \<and> s_paused_at sub' = (if st = Some SubscriptionStatus.PAUSED then Some pause_now else s_paused_at sub)
      \<and> s_consecutive_failures sub' = s_consecutive_failures sub"
    by (simp add: apply_changes_fields id)
  ultimately show ?thesis using sub fire status frame by blast
qed

section \<open>Dead letters\<close>

lemma resolve_count:
  assumes "distinct (map d_id t)" and "get_by d_id i t = Some e" and "d_resolved_at e = None"
  shows "length (filter (\<lambda>e. d_resolved_at e = None) t) = Suc (length (filter (\<lambda>e. d_resolved_at e = None)
    (update_where (\<lambda>e. d_id e = i) (\<lambda>e. e\<lparr>d_resolved_at := Some now, d_resolved_by := who\<rparr>) t)))"
  using assms
proof (induction t)
  case (Cons x t)
  show ?case
  proof (cases "d_id x = i")
    case True
    then have "\<forall>r \<in> set t. d_id r \<noteq> i" using Cons.prems(1) by (auto simp: image_iff)
    then have "update_where (\<lambda>e. d_id e = i) f t = t" for f
      by (intro update_where_none) blast
    with True Cons.prems show ?thesis by simp
  next
    case False
    with Cons show ?thesis by simp
  qed
qed simp

text \<open>
  A dead letter is resolved once. A successful resolution stamps exactly that entry,
  lowers the count of unresolved entries by one and leaves every other row as it was; any
  later resolution of the same entry is refused with 409.
\<close>

theorem dlq_resolved_once:
  assumes "db_ok d" and "resolve_dlq_entry now i who d = Inr (e, d')"
  shows "d_resolved_at e = Some now \<and> d_resolved_by e = Some who \<and> e \<in> set (dead_letter_queue d')
    \<and> dlq_count d = Suc (dlq_count d')
    \<and> filter (\<lambda>x. d_id x \<noteq> i) (dead_letter_queue d') = filter (\<lambda>x. d_id x \<noteq> i) (dead_letter_queue d)
    \<and> job_runs d' = job_runs d \<and> subscriptions d' = subscriptions d
    \<and> resolve_dlq_entry now' i who' d' = Inl (HTTPException 409 ''Already resolved'')"
proof -
  let ?f = "\<lambda>e. e\<lparr>d_resolved_at := Some now, d_resolved_by := Some who\<rparr>"
  let ?d = "update_dlq (\<lambda>e. d_id e = i) ?f d"
  obtain e0 where e0: "get_by d_id i (dead_letter_queue d) = Some e0" "d_resolved_at e0 = None"
    using assms(2) by (auto simp: resolve_dlq_entry_def split: option.splits if_splits)
  have id: "d_id e0 = i" using get_by_Some_in [OF e0(1)] by simp
  have get: "get_by d_id i (dead_letter_queue ?d) = Some (?f e0)"
    using e0(1) id by (simp add: get_by_update_where)
  then have eq: "e = ?f e0" "d' = ?d"
    using assms(2) e0 by (simp_all add: resolve_dlq_entry_def Let_def)
  have "dlq_count d = Suc (dlq_count ?d)"
    using resolve_count [OF _ e0, where now = now and who = "Some who"] assms(1) by (simp add: dlq_count_def db_ok_defs)
  moreover have "filter (\<lambda>x. d_id x \<noteq> i) (update_where (\<lambda>e. d_id e = i) ?f t) = filter (\<lambda>x. d_id x \<noteq> i) t" for t
    by (induction t) auto
  moreover have "?f e0 \<in> set (dead_letter_queue ?d)" using get_by_Some_in [OF get] by simp
  ultimately show ?thesis using get by (simp add: eq resolve_dlq_entry_def)
qed

section \<open>Worked examples\<close>

definition example_create :: SubscriptionCreate where
  "example_create = \<lparr>sc_name = ''rent'', sc_description = None, sc_cron_expression = ''0 9 1 * *'',
     sc_timezone = ''UTC'',
     sc_payment_config = \<lparr>ps_amount = ''25.00'', ps_currency = ''EUR'', ps_counterparty_iban = ''NL02ABNA0123456789'',
       ps_counterparty_name = ''Landlord'', ps_description = '''', ps_monetary_account_id = None\<rparr>,
     sc_retry_policy = RetryPolicySchema_default\<rparr>"


definition example_patch :: SubscriptionUpdate where
  "example_patch = \<lparr>su_name = Some ''flat'', su_description = None, su_cron_expression = None, su_timezone = None,
     su_payment_config = None, su_retry_policy = None, su_status = Some ''paused''\<rparr>"

theorem patch_exact_witness:
  "\<exists>sub d'. update_subscription example_ext 500 501 7 example_patch example_db = Inr (sub, d')
     \<and> s_name sub = ''flat'' \<and> s_status sub = SubscriptionStatus.PAUSED \<and> s_paused_at sub = Some 501"
proof -
  have up: "SubscriptionStatus_of (str_upper ''paused'') = Some SubscriptionStatus.PAUSED"
    by code_simp
  then have "\<exists>p. update_subscription example_ext 500 501 7 example_patch example_db = Inr p"
    by (simp add: update_subscription_def SubscriptionUpdate_ok_def option_ok_def find_subscription_def
        has_changes_def example_patch_def example_defs)
  then obtain sub d' where c: "update_subscription example_ext 500 501 7 example_patch example_db = Inr (sub, d')"
    by auto
  from patch_exact [OF db_ok_example c] up c show ?thesis by (auto simp: example_patch_def)
qed

definition example_dlq_db :: db where
  "example_dlq_db = example_db\<lparr>dead_letter_queue := [dlq_entry 9 1 5 7 ''declined'' None (JObj []) 100]\<rparr>"

theorem dlq_resolved_once_witness:
  "\<exists>e d'. resolve_dlq_entry 600 9 ''ops'' example_dlq_db = Inr (e, d') \<and> dlq_count example_dlq_db = 1
     \<and> dlq_count d' = 0 \<and> resolve_dlq_entry 700 9 ''ops'' d' = Inl (HTTPException 409 ''Already resolved'')"
proof -
  have "\<exists>p. resolve_dlq_entry 600 9 ''ops'' example_dlq_db = Inr p"
    by (simp add: resolve_dlq_entry_def example_dlq_db_def dlq_entry_def)
  then obtain e d' where r: "resolve_dlq_entry 600 9 ''ops'' example_dlq_db = Inr (e, d')" by auto
  have ok: "db_ok example_dlq_db" by (simp add: example_dlq_db_def example_defs db_ok_defs dlq_entry_def)
  have "dlq_count example_dlq_db = 1" by (simp add: dlq_count_def example_dlq_db_def dlq_entry_def)
  with dlq_resolved_once [OF ok r] r show ?thesis by auto
qed

end
