(* ===== verification/System.thy ===== *)
theory System
  imports ExecutorFacts RecoveryFacts Scheduler ApiFacts
begin

text \<open>
  The running system: one database, any number of executors, recovery workers and schedulers,
  and API clients, interleaved transaction by transaction. An executor is the phase of the run
  it is at, a recovery worker the run it has reclaimed and not yet routed; both may stop at any
  point. The step relation is deliberately generous (any clock readings, any recovery at any
  time, leadership not required), so its invariants hold whatever the timing is: no attempt is
  ever paid for twice, a job sends at most 20 requests, every SUCCEEDED run has its key and
  every DEAD run its dead letter, and a job has at most one active run, its last. A reachable
  state with two payments for one job shows what the per-attempt key does not prevent.
\<close>

section \<open>States and steps\<close>

record sys =
  y_world :: world
  y_exec :: "nat \<Rightarrow> phase"
  y_rec :: "nat \<Rightarrow> (uuid \<times> uuid \<times> int \<times> Subscription) option"

abbreviation y_db :: "sys \<Rightarrow> db" where
  "y_db y \<equiv> w_db (y_world y)"

definition set_db :: "db \<Rightarrow> sys \<Rightarrow> sys" where
  "set_db d y = y\<lparr>y_world := (y_world y)\<lparr>w_db := d\<rparr>\<rparr>"

lemma set_db_simps [simp]:
  "y_db (set_db d y) = d"
  "w_requests (y_world (set_db d y)) = w_requests (y_world y)"
  "y_exec (set_db d y) = y_exec y"
  "y_rec (set_db d y) = y_rec y"
  by (simp_all add: set_db_def)

definition idle :: "phase \<Rightarrow> bool" where
  "idle p = (case p of Finished \<Rightarrow> True | Raised e \<Rightarrow> True | _ \<Rightarrow> False)"

inductive sys_step :: "ext \<Rightarrow> Settings \<Rightarrow> client \<Rightarrow> (nat \<Rightarrow> string) \<Rightarrow> sys \<Rightarrow> sys \<Rightarrow> bool"
  for X S c name where
  clock: "sys_step X S c name y (set_db ((y_db y)\<lparr>db_now := t\<rparr>) y)"
| claim: "idle (y_exec y e) \<Longrightarrow>
     claim_run S (name e) t_lock t_start locked run_id (y_db y) = (RunClaimed, d) \<Longrightarrow>
     sys_step X S c name y ((set_db d y)\<lparr>y_exec := (y_exec y)(e := Load run_id)\<rparr>)"
| execute: "exec_step X S c (name e) i (y_exec y e) (y_world y) = (p, w) \<Longrightarrow>
     sys_step X S c name y (y\<lparr>y_world := w, y_exec := (y_exec y)(e := p)\<rparr>)"
| crash: "sys_step X S c name y (y\<lparr>y_exec := (y_exec y)(e := Finished)\<rparr>)"
| reclaim: "y_rec y k = None \<Longrightarrow>
     reclaim_run now run_id (y_db y) = Inr (Some (job_id, attempt, Some sub), d) \<Longrightarrow>
     sys_step X S c name y ((set_db d y)\<lparr>y_rec := (y_rec y)(k \<mapsto> (run_id, job_id, attempt, sub))\<rparr>)"
| route: "y_rec y k = Some (run_id, job_id, attempt, sub) \<Longrightarrow>
     route_reclaimed i run_id job_id attempt sub (y_db y) = Inr d \<Longrightarrow>
     sys_step X S c name y ((set_db d y)\<lparr>y_rec := (y_rec y)(k := None)\<rparr>)"
| give_up: "sys_step X S c name y (y\<lparr>y_rec := (y_rec y)(k := None)\<rparr>)"
| orphan: "evaluate_dag_job now job (y_db y) = Inr d \<Longrightarrow> sys_step X S c name y (set_db d y)"
| schedule: "create_job_for_subscription X epoch turn sub (y_db y) = Inr d \<Longrightarrow>
     sub \<in> set (subscriptions (y_db y)) \<Longrightarrow> sys_step X S c name y (set_db d y)"
| api_create: "create_subscription X now i body (y_db y) = Inr (sub, d) \<Longrightarrow> sys_step X S c name y (set_db d y)"
| api_update: "update_subscription X now t i patch (y_db y) = Inr (sub, d) \<Longrightarrow> sys_step X S c name y (set_db d y)"
| api_delete: "delete_subscription i (y_db y) = Inr (u, d) \<Longrightarrow> sys_step X S c name y (set_db d y)"
| api_resume: "resume_subscription X now i (y_db y) = Inr (sub, d) \<Longrightarrow> sys_step X S c name y (set_db d y)"
| api_resolve: "resolve_dlq_entry now i who (y_db y) = Inr (entry, d) \<Longrightarrow> sys_step X S c name y (set_db d y)"

definition sys_start :: "sys \<Rightarrow> bool" where
  "sys_start y \<longleftrightarrow> (\<exists>now. y_world y = \<lparr>w_db = empty_db now, w_requests = []\<rparr>)
     \<and> y_exec y = (\<lambda>e. Finished) \<and> y_rec y = (\<lambda>k. None)"

section \<open>What every transaction keeps of a run\<close>

definition active :: "JobRun \<Rightarrow> bool" where
  "active r \<longleftrightarrow> r_status r = JobRunStatus.PENDING \<or> r_status r = JobRunStatus.RUNNING"

definition run_evolves :: "JobRun \<Rightarrow> JobRun \<Rightarrow> bool" where
  "run_evolves r r' \<longleftrightarrow> r_id r' = r_id r \<and> run_slot r' = run_slot r
     \<and> (r_status r \<noteq> JobRunStatus.PENDING \<longrightarrow> r_status r' \<noteq> JobRunStatus.PENDING)
     \<and> (\<not> active r \<longrightarrow> \<not> active r')"

definition evolves :: "db \<Rightarrow> db \<Rightarrow> bool" where
  "evolves d d' \<longleftrightarrow> (\<forall>r \<in> set (job_runs d). \<exists>r' \<in> set (job_runs d'). run_evolves r r')"

lemma run_evolves_refl [simp]: "run_evolves r r"
  by (simp add: run_evolves_def)

lemma run_evolves_trans: "run_evolves r r' \<Longrightarrow> run_evolves r' r'' \<Longrightarrow> run_evolves r r''"
  by (auto simp: run_evolves_def)

lemma evolves_refl [simp]: "evolves d d"
  unfolding evolves_def using run_evolves_refl by blast

lemma evolves_trans: "evolves d d' \<Longrightarrow> evolves d' d'' \<Longrightarrow> evolves d d''"
  unfolding evolves_def by (meson run_evolves_trans)

lemma evolves_by_update:
  assumes "job_runs d' = update_where p f (job_runs d) @ new"
    and "\<And>r. r \<in> set (job_runs d) \<Longrightarrow> p r \<Longrightarrow> run_evolves r (f r)"
  shows "evolves d d'"
  unfolding evolves_def
proof
  fix r assume r: "r \<in> set (job_runs d)"
  then have "(if p r then f r else r) \<in> set (job_runs d')"
    unfolding assms(1) by (auto simp: set_update_where)
  then show "\<exists>r' \<in> set (job_runs d'). run_evolves r r'" using assms(2) [OF r] by (metis run_evolves_refl)
qed

lemma evolves_same: "job_runs d' = job_runs d @ new \<Longrightarrow> evolves d d'"
  by (rule evolves_by_update [of _ "\<lambda>r. False" id]) (simp_all add: update_where_def)

lemma run_evolves_end:
  "r_id r' = r_id r \<Longrightarrow> run_slot r' = run_slot r \<Longrightarrow> \<not> active r' \<Longrightarrow> run_evolves r r'"
  by (simp add: run_evolves_def active_def)

section \<open>The ledger\<close>

text \<open>
  The invariant on the tables: attempts are numbered without gaps from 1 to at most 20; an
  active run (PENDING or RUNNING) is the last attempt of its job; a DEAD run has a dead letter
  and a SUCCEEDED one its idempotency key; no job has dependencies (only the scheduler creates
  jobs, and it gives them none); every stored policy is readable.
\<close>

definition slots :: "db \<Rightarrow> (uuid \<times> int) set" where
  "slots d = run_slot ` set (job_runs d)"

definition run_ledger_ok :: "db \<Rightarrow> JobRun \<Rightarrow> bool" where
  "run_ledger_ok d r \<longleftrightarrow> 1 \<le> r_attempt r \<and> r_attempt r \<le> 20
     \<and> (r_attempt r = 1 \<or> (r_job_id r, r_attempt r - 1) \<in> slots d)
     \<and> (active r \<longrightarrow> (r_job_id r, r_attempt r + 1) \<notin> slots d)
     \<and> (r_status r = JobRunStatus.DEAD \<longrightarrow> r_id r \<in> d_job_run_id ` set (dead_letter_queue d))
     \<and> (r_status r = JobRunStatus.SUCCEEDED \<longrightarrow> (r_id r, r_attempt r) \<in> key_slot ` set (idempotency_keys d))"

definition ledger_ok :: "db \<Rightarrow> bool" where
  "ledger_ok d \<longleftrightarrow> (\<forall>r \<in> set (job_runs d). run_ledger_ok d r)
     \<and> (\<forall>j \<in> set (scheduled_jobs d). j_depends_on j = [])
     \<and> (\<forall>s \<in> set (subscriptions d). readable_policy (s_retry_policy s))"

text \<open>An update of runs keeps the ledger when it makes nothing active and pays for what it ends.\<close>

lemma ledger_ok_update:
  assumes "ledger_ok d" and "job_runs d' = update_where p f (job_runs d)"
    and "\<And>r. r_id (f r) = r_id r" and "\<And>r. run_slot (f r) = run_slot r"
    and "\<And>r. r \<in> set (job_runs d) \<Longrightarrow> p r \<Longrightarrow> active (f r) \<longrightarrow> active r"
    and "\<And>r. r \<in> set (job_runs d) \<Longrightarrow> p r \<Longrightarrow> r_status (f r) = JobRunStatus.DEAD \<longrightarrow>
           r_id r \<in> d_job_run_id ` set (dead_letter_queue d')"
    and "\<And>r. r \<in> set (job_runs d) \<Longrightarrow> p r \<Longrightarrow> r_status (f r) = JobRunStatus.SUCCEEDED \<longrightarrow>
           (r_id r, r_attempt r) \<in> key_slot ` set (idempotency_keys d')"
    and "d_job_run_id ` set (dead_letter_queue d) \<subseteq> d_job_run_id ` set (dead_letter_queue d')"
    and "key_slot ` set (idempotency_keys d) \<subseteq> key_slot ` set (idempotency_keys d')"
    and "\<forall>j \<in> set (scheduled_jobs d'). j_depends_on j = []"
    and "\<forall>s \<in> set (subscriptions d'). readable_policy (s_retry_policy s)"
  shows "ledger_ok d'"
proof -
  have slots: "slots d' = slots d"
    unfolding slots_def assms(2) by (rule image_update_where) (rule assms(4))
  have "if p r then run_ledger_ok d' (f r) else run_ledger_ok d' r" if r: "r \<in> set (job_runs d)" for r
  proof -
    have ok: "run_ledger_ok d r" using assms(1) r by (simp add: ledger_ok_def)
    have "r_job_id (f r) = r_job_id r" "r_attempt (f r) = r_attempt r" using assms(4) [of r] by simp_all
    then show ?thesis
      using ok assms(3,5-9) r unfolding run_ledger_ok_def slots by (cases "p r") auto
  qed
  then show ?thesis
    using assms(10,11) unfolding ledger_ok_def assms(2) ball_update_where by blast
qed

text \<open>A new attempt keeps it when the attempt before it is there, is over and is below 20.\<close>

lemma ledger_ok_insert:
  assumes "ledger_ok d" and "job_runs d' = job_runs d @ [new_run i job (n + 1) t cr]"
    and "0 \<le> n" and "n < 20" and "n = 0 \<or> (job, n) \<in> slots d" and "(job, n + 1) \<notin> slots d"
    and "\<And>r. r \<in> set (job_runs d) \<Longrightarrow> run_slot r = (job, n) \<Longrightarrow> \<not> active r"
    and "dead_letter_queue d' = dead_letter_queue d" and "idempotency_keys d' = idempotency_keys d"
    and "\<forall>j \<in> set (scheduled_jobs d'). j_depends_on j = []"
    and "\<forall>s \<in> set (subscriptions d'). readable_policy (s_retry_policy s)"
  shows "ledger_ok d'"
proof -
  have slots: "slots d' = insert (job, n + 1) (slots d)" by (simp add: slots_def assms(2))
  have old: "run_ledger_ok d' r" if r: "r \<in> set (job_runs d)" for r
  proof -
    have ok: "run_ledger_ok d r" using assms(1) r by (simp add: ledger_ok_def)
    moreover have "active r \<longrightarrow> (r_job_id r, r_attempt r + 1) \<noteq> (job, n + 1)"
      using assms(7) [OF r] by auto
    ultimately show ?thesis
      using assms(8,9) unfolding run_ledger_ok_def slots by auto
  qed
  have gap: "(job, n + 2) \<notin> slots d"
  proof
    assume "(job, n + 2) \<in> slots d"
    then obtain r where r: "r \<in> set (job_runs d)" "r_job_id r = job" "r_attempt r = n + 2"
      by (auto simp: slots_def)
    then have "run_ledger_ok d r" using assms(1) by (simp add: ledger_ok_def)
    with r assms(3,6) show False by (auto simp: run_ledger_ok_def add.commute)
  qed
  have "run_ledger_ok d' (new_run i job (n + 1) t cr)"
    using assms(3-5) gap unfolding run_ledger_ok_def slots by (auto simp: active_def add.commute)
  with old assms(10,11) show ?thesis by (simp add: ledger_ok_def assms(2))
qed

lemma ledger_ok_frame:
  assumes "ledger_ok d" and "job_runs d' = job_runs d" and "idempotency_keys d' = idempotency_keys d"
    and "d_job_run_id ` set (dead_letter_queue d) \<subseteq> d_job_run_id ` set (dead_letter_queue d')"
    and "\<forall>j \<in> set (scheduled_jobs d'). j_depends_on j = []"
    and "\<forall>s \<in> set (subscriptions d'). readable_policy (s_retry_policy s)"
  shows "ledger_ok d'"
proof (rule ledger_ok_update [where p = "\<lambda>r. False" and f = id])
  show "job_runs d' = update_where (\<lambda>r. False) id (job_runs d)" by (simp add: assms(2) update_where_def)
qed (use assms in auto)

section \<open>Every transaction evolves the runs and keeps the ledger\<close>

definition tx_ok :: "db \<Rightarrow> db \<Rightarrow> bool" where
  "tx_ok d d' \<longleftrightarrow> evolves d d' \<and> ledger_ok d'"

lemma ledger_ok_rows:
  assumes "ledger_ok d"
  shows "j \<in> set (scheduled_jobs d) \<Longrightarrow> j_depends_on j = []"
    and "s \<in> set (subscriptions d) \<Longrightarrow> readable_policy (s_retry_policy s)"
    and "r \<in> set (job_runs d) \<Longrightarrow> run_ledger_ok d r"
  using assms by (auto simp: ledger_ok_def)

lemma count_failure_policies [simp]:
  "s_retry_policy ` set (subscriptions (count_failure now i d)) = s_retry_policy ` set (subscriptions d)"
  by (simp add: count_failure_def Let_def image_update_where split: option.split)

text \<open>\<open>knows d run\<close>: the row a worker once read is still there under its identifier and attempt, and
  has left PENDING.\<close>

definition knows :: "db \<Rightarrow> JobRun \<Rightarrow> bool" where
  "knows d run \<longleftrightarrow> (\<exists>r \<in> set (job_runs d). r_id r = r_id run \<and> run_slot r = run_slot run
     \<and> r_status r \<noteq> JobRunStatus.PENDING)"

lemma knows_evolves: "knows d run \<Longrightarrow> evolves d d' \<Longrightarrow> knows d' run"
  unfolding knows_def evolves_def run_evolves_def by metis

lemma knows_slot:
  "db_ok d \<Longrightarrow> knows d run \<Longrightarrow> r \<in> set (job_runs d) \<Longrightarrow> r_id r = r_id run \<Longrightarrow> run_slot r = run_slot run"
  unfolding knows_def by (metis db_ok_run_eq)

lemma find_Some_mem: "find P xs = Some x \<Longrightarrow> x \<in> set xs \<and> P x"
  by (induction xs) (auto split: if_splits)

lemma tx_claim:
  assumes "db_ok d" and "ledger_ok d" and "claim_run S w t u l i d = (RunClaimed, d')"
  shows "tx_ok d d'"
proof -
  let ?f = "\<lambda>r. r\<lparr>r_status := JobRunStatus.RUNNING, r_worker_id := Some w,
       r_lock_expires_at := Some (t + EXECUTOR_LOCK_TIMEOUT_S S * 1000000), r_started_at := Some u\<rparr>"
  from assms(3) obtain run where run: "run \<in> set (job_runs d)" "r_id run = i" "r_status run = JobRunStatus.PENDING"
    and d': "d' = update_runs (\<lambda>r. r_id r = i) ?f d"
    unfolding claim_run_Claimed_iff by (auto dest!: find_Some_mem)
  have pending: "r_status r = JobRunStatus.PENDING" if "r \<in> set (job_runs d)" "r_id r = i" for r
    using db_ok_run_eq [OF assms(1) that(1) run(1)] that(2) run(2,3) by simp
  have "evolves d d'"
    by (rule evolves_by_update [of _ "\<lambda>r. r_id r = i" ?f _ "[]"])
      (auto simp: d' run_evolves_def active_def pending)
  moreover have "ledger_ok d'"
    by (rule ledger_ok_update [OF assms(2), of _ "\<lambda>r. r_id r = i" ?f])
      (use ledger_ok_rows [OF assms(2)] in \<open>auto simp: d' active_def pending\<close>)
  ultimately show ?thesis by (simp add: tx_ok_def)
qed

lemma tx_end_runs:
  assumes "ledger_ok d" and "job_runs d' = update_where p f (job_runs d)"
    and "\<And>r. r_id (f r) = r_id r" and "\<And>r. run_slot (f r) = run_slot r"
    and "\<And>r. r_status (f r) = st" and "st = JobRunStatus.FAILED \<or> st = JobRunStatus.DEAD \<or> st = JobRunStatus.SUCCEEDED"
    and "\<And>r. r \<in> set (job_runs d) \<Longrightarrow> p r \<Longrightarrow> st = JobRunStatus.DEAD \<longrightarrow>
           r_id r \<in> d_job_run_id ` set (dead_letter_queue d')"
    and "\<And>r. r \<in> set (job_runs d) \<Longrightarrow> p r \<Longrightarrow> st = JobRunStatus.SUCCEEDED \<longrightarrow>
           (r_id r, r_attempt r) \<in> key_slot ` set (idempotency_keys d')"
    and "d_job_run_id ` set (dead_letter_queue d) \<subseteq> d_job_run_id ` set (dead_letter_queue d')"
    and "key_slot ` set (idempotency_keys d) \<subseteq> key_slot ` set (idempotency_keys d')"
    and "j_depends_on ` set (scheduled_jobs d') \<subseteq> j_depends_on ` set (scheduled_jobs d)"
    and "s_retry_policy ` set (subscriptions d') \<subseteq> s_retry_policy ` set (subscriptions d)"
  shows "tx_ok d d'"
proof -
  have jobs: "\<forall>j \<in> set (scheduled_jobs d'). j_depends_on j = []"
    and subs: "\<forall>s \<in> set (subscriptions d'). readable_policy (s_retry_policy s)"
    using assms(1,11,12) unfolding ledger_ok_def by (metis image_eqI image_iff subset_iff)+
  have over: "\<not> active (f r)" for r using assms(5,6) by (auto simp: active_def)
  have "evolves d d'"
    using assms(2-4) over by (intro evolves_by_update [of _ p f _ "[]"]) (auto intro: run_evolves_end)
  moreover have "ledger_ok d'"
    by (rule ledger_ok_update [OF assms(1-4)]) (use assms(5,7-10) over jobs subs in auto)
  ultimately show ?thesis by (simp add: tx_ok_def)
qed

lemma tx_dag_cancelled:
  assumes "ledger_ok d"
  shows "tx_ok d (mark_dag_cancelled now run d)"
  by (rule tx_end_runs [OF assms, where st = JobRunStatus.FAILED and p = "\<lambda>r. r_id r = r_id run"
        and f = "\<lambda>r. r\<lparr>r_status := JobRunStatus.FAILED, r_error_message := Some ''DAG dependency not satisfied'',
               r_finished_at := Some now, r_lock_expires_at := None\<rparr>"])
    (simp_all add: mark_dag_cancelled_def image_update_where)

lemma tx_persist_success:
  assumes "db_ok d" and "ledger_ok d" and "knows d run" and "persist_success X now run sub v d = Inr (won, d')"
  shows "tx_ok d d'"
proof -
  from assms(4) consider "d' = d"
    | pid where "d' = mark_succeeded now run sub pid
        (d\<lparr>idempotency_keys := idempotency_keys d @ [idempotency_row X now run pid]\<rparr>)"
    by (auto simp: persist_success_Inr_iff split: if_splits)
  then show ?thesis
  proof cases
    case 1
    with assms(2) show ?thesis by (simp add: tx_ok_def)
  next
    case 2
    have slot: "(r_id r, r_attempt r) = (r_id run, r_attempt run)" if "r \<in> set (job_runs d)" "r_id r = r_id run" for r
      using knows_slot [OF assms(1,3) that] that(2) by simp
    show ?thesis
      by (rule tx_end_runs [OF assms(2), where st = JobRunStatus.SUCCEEDED and p = "\<lambda>r. r_id r = r_id run"
            and f = "\<lambda>r. r\<lparr>r_status := JobRunStatus.SUCCEEDED, r_bunq_payment_id := pid,
                 r_finished_at := Some now, r_lock_expires_at := None\<rparr>"])
        (use slot in \<open>simp_all add: 2 mark_succeeded_def image_update_where subset_insertI\<close>)
  qed
qed

lemma tx_move_to_dlq:
  assumes "ledger_ok d" and "move_to_dlq worker now i run sub reason d = Inr d'"
  shows "tx_ok d d'"
  by (rule tx_end_runs [OF assms(1), where st = JobRunStatus.DEAD and p = "\<lambda>r. r_id r = r_id run"
        and f = "\<lambda>r. r\<lparr>r_status := JobRunStatus.DEAD, r_error_message := Some (truncate_error reason),
                 r_finished_at := Some now, r_lock_expires_at := None\<rparr>"])
    (use assms(2) in \<open>simp_all add: move_to_dlq_Inr_iff Let_def subset_insertI\<close>)

lemma tx_recovery_move_to_dlq:
  assumes "ledger_ok d" and "recovery_move_to_dlq now i run_id job_id attempt sub reason d = Inr d'"
  shows "tx_ok d d'"
  by (rule tx_end_runs [OF assms(1), where st = JobRunStatus.DEAD and p = "\<lambda>r. r_id r = run_id"
        and f = "\<lambda>r. r\<lparr>r_status := JobRunStatus.DEAD, r_error_message := Some (truncate_error reason),
                 r_finished_at := Some now, r_lock_expires_at := None, r_worker_id := None\<rparr>"])
    (use assms(2) in \<open>simp_all add: recovery_move_to_dlq_def insert_dlq_Inr_iff subset_insertI\<close>)

lemma tx_reclaim:
  assumes "db_ok d" and "ledger_ok d" and "reclaim_run now i d = Inr (Some (job_id, attempt, sub), d')"
  shows "tx_ok d d' \<and> (\<exists>r \<in> set (job_runs d'). r_id r = i \<and> run_slot r = (job_id, attempt) \<and> \<not> active r)
    \<and> (\<forall>s. sub = Some s \<longrightarrow> readable_policy (s_retry_policy s))"
proof -
  from iffD1 [OF reclaim_run_iff [OF assms(1)] assms(3)]
  obtain run s where run: "run \<in> set (job_runs d)" "r_id run = i" "stuck now run"
    and slot: "run_slot run = (job_id, attempt)" and sub: "sub = Some s" "s \<in> set (subscriptions d)"
    and d': "d' = update_runs (\<lambda>r. r_id r = i \<and> stuck now r) (reclaimed now) d"
    by (elim bexE conjE) simp
  have "tx_ok d d'"
    by (rule tx_end_runs [OF assms(2), where st = JobRunStatus.FAILED and p = "\<lambda>r. r_id r = i \<and> stuck now r"
          and f = "reclaimed now"])
      (simp_all add: d')
  moreover have "reclaimed now run \<in> set (job_runs d')"
    using run unfolding d' by (force simp: set_update_where)
  then have "\<exists>r \<in> set (job_runs d'). r_id r = i \<and> run_slot r = (job_id, attempt) \<and> \<not> active r"
    using run slot by (intro bexI [of _ "reclaimed now run"]) (auto simp: active_def)
  ultimately show ?thesis using sub ledger_ok_rows(2) [OF assms(2)] by blast
qed

lemma readable_not_exhausted:
  assumes "readable_policy v" and "policy_of v = Inr p" and "is_exhausted p a = Inr False"
  shows "a < 20"
proof -
  obtain m where "max_attempts p = JInt m" "m \<le> 20" using assms(1,2) by (auto simp: readable_policy_def)
  with assms(3) show ?thesis by (simp add: is_exhausted_def)
qed

text \<open>The next attempt after one that is over.\<close>

lemma tx_next_attempt:
  assumes "db_ok d" and "ledger_ok d" and "insert_run (new_run i job (n + 1) t cr) d = Inr (b, d')"
    and "\<exists>r \<in> set (job_runs d). run_slot r = (job, n) \<and> \<not> active r" and "n < 20"
  shows "tx_ok d d'"
proof (cases "(job, n + 1) \<in> slots d")
  case True
  with assms(2,3) show ?thesis by (simp add: insert_run_Inr_iff slots_def tx_ok_def)
next
  case False
  then have d': "d' = d\<lparr>job_runs := job_runs d @ [new_run i job (n + 1) t cr]\<rparr>"
    using assms(3) by (simp add: insert_run_Inr_iff slots_def)
  obtain r0 where r0: "r0 \<in> set (job_runs d)" "run_slot r0 = (job, n)" "\<not> active r0" using assms(4) by blast
  have over: "\<not> active r" if "r \<in> set (job_runs d)" "run_slot r = (job, n)" for r
    using db_ok_slot_eq [OF assms(1) that(1) r0(1)] that(2) r0(2,3) by simp
  have in_slots: "(job, n) \<in> slots d" using r0 by (force simp: slots_def)
  have "1 \<le> r_attempt r0" using ledger_ok_rows(3) [OF assms(2) r0(1)] by (simp add: run_ledger_ok_def)
  then have n: "0 \<le> n" using r0(2) by simp
  have "ledger_ok d'"
    by (rule ledger_ok_insert [OF assms(2), where i = i and job = job and n = n and t = t and cr = cr])
      (use n assms(5) in_slots False over ledger_ok_rows(1,2) [OF assms(2)] in \<open>simp_all add: d'\<close>)
  moreover have "evolves d d'" by (rule evolves_same [of _ _ "[new_run i job (n + 1) t cr]"]) (simp add: d')
  ultimately show ?thesis by (simp add: tx_ok_def)
qed

lemma tx_ok_trans: "tx_ok d d' \<Longrightarrow> tx_ok d' d'' \<Longrightarrow> tx_ok d d''"
  by (auto simp: tx_ok_def intro: evolves_trans)

lemma tx_schedule_retry:
  assumes "db_ok d" and "ledger_ok d" and "knows d run" and "r_attempt run < 20"
    and "schedule_retry now i t run err d = Inr d'"
  shows "tx_ok d d'"
proof -
  let ?f = "\<lambda>r. r\<lparr>r_status := JobRunStatus.FAILED, r_error_message := Some (truncate_error err),
        r_finished_at := Some now, r_lock_expires_at := None\<rparr>"
  let ?d = "update_runs (\<lambda>r. r_id r = r_id run) ?f d"
  have one: "tx_ok d ?d"
    by (rule tx_end_runs [OF assms(2), where st = JobRunStatus.FAILED and p = "\<lambda>r. r_id r = r_id run" and f = ?f])
      simp_all
  have ok: "db_ok ?d" using assms(1) by (intro db_ok_updates) simp_all
  obtain r where r: "r \<in> set (job_runs d)" "r_id r = r_id run" "run_slot r = run_slot run"
    using assms(3) by (auto simp: knows_def)
  then have "?f r \<in> set (job_runs ?d)" by (force simp: set_update_where)
  then have "\<exists>r \<in> set (job_runs ?d). run_slot r = (r_job_id run, r_attempt run) \<and> \<not> active r"
    using r(3) by (intro bexI [of _ "?f r"]) (auto simp: active_def)
  moreover obtain b where "insert_run (new_run i (r_job_id run) (r_attempt run + 1) (Some t) (db_now d)) ?d = Inr (b, d')"
    using assms(5) by (auto simp: schedule_retry_def and_then_Inr_iff)
  ultimately have "tx_ok ?d d'"
    using tx_next_attempt [OF ok] one assms(4) by (simp add: tx_ok_def)
  with one show ?thesis by (rule tx_ok_trans)
qed

lemma tx_handle_failure:
  assumes "db_ok d" and "ledger_ok d" and "knows d run" and "readable_policy (s_retry_policy sub)"
    and "handle_failure worker i run sub err b d = Inr d'"
  shows "tx_ok d d'"
proof -
  from assms(5) consider (dlq) "move_to_dlq worker (in_dlq_now i) (in_dlq_id i) run sub err d = Inr d'"
    | (retry) p t where "policy_of (s_retry_policy sub) = Inr p" "is_exhausted p (r_attempt run) = Inr False"
        "schedule_retry (in_now i) (in_run_id i) t run err d = Inr d'"
    by (auto simp: handle_failure_def and_then_Inr_iff split: if_splits option.splits)
  then show ?thesis
  proof cases
    case dlq
    with assms(2) show ?thesis by (rule tx_move_to_dlq)
  next
    case retry
    with readable_not_exhausted [OF assms(4)] show ?thesis
      using tx_schedule_retry [OF assms(1-3)] by blast
  qed
qed

lemma tx_route:
  assumes "db_ok d" and "ledger_ok d" and "readable_policy (s_retry_policy sub)"
    and "\<exists>r \<in> set (job_runs d). r_id r = run_id \<and> run_slot r = (job_id, attempt) \<and> \<not> active r"
    and "route_reclaimed i run_id job_id attempt sub d = Inr d'"
  shows "tx_ok d d'"
proof -
  from assms(5) consider (dlq) now k reason where
      "recovery_move_to_dlq now k run_id job_id attempt sub reason d = Inr d'"
    | (retry) p b where "policy_of (s_retry_policy sub) = Inr p" "is_exhausted p attempt = Inr False"
        "insert_run (new_run (vi_run_id i) job_id (attempt + 1) None (db_now d)) d = Inr (b, d')"
    by (auto simp: route_reclaimed_def and_then_Inr_iff split: if_splits)
  then show ?thesis
  proof cases
    case dlq
    with assms(2) show ?thesis by (rule tx_recovery_move_to_dlq)
  next
    case retry
    with readable_not_exhausted [OF assms(3)] assms(4) show ?thesis
      using tx_next_attempt [OF assms(1,2)] by blast
  qed
qed

lemma tx_cancel_downstream:
  assumes "ledger_ok d"
  shows "tx_ok d (cancel_downstream now job_id dep d)"
  by (rule tx_end_runs [OF assms, where st = JobRunStatus.FAILED
        and p = "\<lambda>r. r_job_id r = job_id \<and> r_status r = JobRunStatus.PENDING"
        and f = "\<lambda>r. r\<lparr>r_status := JobRunStatus.FAILED,
             r_error_message := Some (''DAG dependency '' @ dep @ '' permanently failed''), r_finished_at := Some now\<rparr>"])
    (simp_all add: cancel_downstream_def image_update_where)

lemma tx_scan_dependencies:
  "ledger_ok d \<Longrightarrow> scan_dependencies now job_id deps d = Inr d' \<Longrightarrow> tx_ok d d'"
proof (induction deps)
  case Nil
  then show ?case by (simp add: tx_ok_def)
next
  case (Cons dep deps)
  then show ?case by (auto simp: and_then_Inr_iff split: option.splits intro: tx_cancel_downstream)
qed

lemma tx_create_job:
  assumes "db_ok d" and "ledger_ok d" and "create_job_for_subscription X epoch i sub d = Inr d'"
  shows "tx_ok d d'"
proof (cases "s_next_fire_at sub")
  case None
  with assms show ?thesis by (simp add: create_job_for_subscription_def tx_ok_def)
next
  case (Some f)
  note d' = create_job_Inr [OF assms(1) Some assms(3)]
  have jobs: "\<forall>j \<in> set (scheduled_jobs d'). j_depends_on j = []"
    using ledger_ok_rows(1) [OF assms(2)] by (auto simp: d' added_jobs_def)
  have subs: "\<forall>s \<in> set (subscriptions d'). readable_policy (s_retry_policy s)"
    using ledger_ok_rows(2) [OF assms(2)] by (auto simp: d' set_update_where advanced_def split: option.splits)
  show ?thesis
  proof (cases "JobFingerprint_for_job X (s_id sub) f \<in> j_fingerprint ` set (scheduled_jobs d)")
    case True
    then have "ledger_ok d'"
      using jobs subs by (intro ledger_ok_frame [OF assms(2)]) (simp_all add: d' added_runs_def)
    then show ?thesis using True by (auto simp: tx_ok_def d' added_runs_def intro: evolves_same)
  next
    case False
    have "db_ok d'" using assms(1,3) by (rule db_ok_create_job)
    then have fresh: "ci_job_id i \<notin> j_id ` set (scheduled_jobs d)"
      using False by (auto simp: db_ok_defs d' added_jobs_def)
    then have none: "r_job_id r \<noteq> ci_job_id i" if "r \<in> set (job_runs d)" for r
      using db_ok_run_job [OF assms(1) that] by auto
    have no_slot: "(ci_job_id i, n) \<notin> slots d" for n
    proof
      assume "(ci_job_id i, n) \<in> slots d"
      then obtain r where "r \<in> set (job_runs d)" "r_job_id r = ci_job_id i" by (auto simp: slots_def)
      with none show False by blast
    qed
    have "\<not> active r" if "r \<in> set (job_runs d)" "run_slot r = (ci_job_id i, 0)" for r
      using none [OF that(1)] that(2) by simp
    then have "ledger_ok d'"
      using jobs subs False no_slot
      by (intro ledger_ok_insert [OF assms(2), where n = 0 and job = "ci_job_id i" and i = "ci_run_id i"
            and t = None and cr = "db_now d"])
        (simp_all add: d' added_runs_def)
    then show ?thesis using False by (auto simp: tx_ok_def d' added_runs_def intro: evolves_same)
  qed
qed

lemma tx_api:
  assumes "ledger_ok d" and "job_runs d' = job_runs d" and "idempotency_keys d' = idempotency_keys d"
    and "d_job_run_id ` set (dead_letter_queue d') = d_job_run_id ` set (dead_letter_queue d)"
    and "scheduled_jobs d' = scheduled_jobs d"
    and "\<forall>s \<in> set (subscriptions d'). readable_policy (s_retry_policy s)"
  shows "tx_ok d d'"
proof -
  have "ledger_ok d'"
    using assms ledger_ok_rows(1) [OF assms(1)] by (intro ledger_ok_frame [OF assms(1)]) simp_all
  moreover have "evolves d d'" using assms(2) by (intro evolves_same [of _ _ "[]"]) simp
  ultimately show ?thesis by (simp add: tx_ok_def)
qed

lemma tx_create_subscription:
  "ledger_ok d \<Longrightarrow> create_subscription X now i body d = Inr (sub, d') \<Longrightarrow> tx_ok d d'"
  by (rule tx_api)
    (auto simp: create_subscription_def SubscriptionCreate_ok_def and_then_Inr_iff Let_def unhandled_Inr_iff
      insert_subscription_Inr_iff readable_policy_dump split: if_splits dest: ledger_ok_rows(2))

lemma apply_changes_policy:
  assumes "SubscriptionUpdate_ok X body" and "readable_policy (s_retry_policy s)"
  shows "readable_policy (s_retry_policy (apply_changes body nf st t s))"
  using assms by (cases "su_retry_policy body")
    (simp_all add: apply_changes_fields SubscriptionUpdate_ok_def option_ok_def readable_policy_dump)

lemma tx_update_subs:
  assumes "ledger_ok d" and "\<And>s. readable_policy (s_retry_policy s) \<Longrightarrow> readable_policy (s_retry_policy (f s))"
  shows "tx_ok d (update_subscriptions p f d)"
  using assms(2) ledger_ok_rows(2) [OF assms(1)]
  by (intro tx_api [OF assms(1)]) (simp_all add: ball_update_where)

lemma tx_update_subscription:
  assumes "ledger_ok d" and "update_subscription X now t i body d = Inr (sub, d')"
  shows "tx_ok d d'"
proof -
  from assms(2) have ok: "SubscriptionUpdate_ok X body"
    and "d' = d \<or> (\<exists>nf st. d' = update_subscriptions (\<lambda>s. s_id s = i) (apply_changes body nf st t) d)"
    by (auto simp: update_subscription_def and_then_Inr_iff Let_def split: if_splits)
  moreover have "tx_ok d d" using assms(1) by (simp add: tx_ok_def)
  ultimately show ?thesis using tx_update_subs [OF assms(1)] apply_changes_policy [OF ok] by blast
qed

lemma tx_delete_subscription:
  "ledger_ok d \<Longrightarrow> delete_subscription i d = Inr (u, d') \<Longrightarrow> tx_ok d d'"
  by (auto simp: delete_subscription_def and_then_Inr_iff intro!: tx_update_subs)

lemma tx_resume_subscription:
  "ledger_ok d \<Longrightarrow> resume_subscription X now i d = Inr (sub, d') \<Longrightarrow> tx_ok d d'"
  by (auto simp: resume_subscription_def and_then_Inr_iff Let_def intro!: tx_update_subs)

lemma tx_resolve_dlq:
  assumes "ledger_ok d" and "resolve_dlq_entry now i who d = Inr (e, d')"
  shows "tx_ok d d'"
proof -
  have "d' = update_dlq (\<lambda>e. d_id e = i) (\<lambda>e. e\<lparr>d_resolved_at := Some now, d_resolved_by := Some who\<rparr>) d"
    using assms(2) by (auto simp: resolve_dlq_entry_def Let_def split: option.splits if_splits)
  then show ?thesis
    using ledger_ok_rows(2) [OF assms(1)] by (intro tx_api [OF assms(1)]) (simp_all add: image_update_where)
qed

section \<open>The workers\<close>

fun phase_snapshot :: "phase \<Rightarrow> snapshot option" where
  "phase_snapshot (Configure sn) = Some sn"
| "phase_snapshot (CheckDag sn cfg) = Some sn"
| "phase_snapshot (CancelDag sn) = Some sn"
| "phase_snapshot (FindKey sn cfg) = Some sn"
| "phase_snapshot (Pay sn cfg) = Some sn"
| "phase_snapshot (Persist sn v) = Some sn"
| "phase_snapshot (Fail sn err b) = Some sn"
| "phase_snapshot p = None"

definition phase_run :: "phase \<Rightarrow> uuid option" where
  "phase_run p = (case p of Load i \<Rightarrow> Some i | _ \<Rightarrow> map_option (\<lambda>sn. r_id (sn_run sn)) (phase_snapshot p))"

text \<open>The run of a phase that still may pay.\<close>

definition may_pay :: "phase \<Rightarrow> uuid option" where
  "may_pay p = (case p of Persist sn v \<Rightarrow> None | Fail sn err b \<Rightarrow> None | _ \<Rightarrow> phase_run p)"

lemma load_snapshot_Some:
  "load_snapshot i d = Some sn \<Longrightarrow> sn_run sn \<in> set (job_runs d) \<and> r_id (sn_run sn) = i
     \<and> sn_sub sn \<in> set (subscriptions d)"
  by (auto simp: load_snapshot_def dest!: get_by_Some_in split: option.splits)

lemma phase_run_simps [simp]:
  "phase_run (Load i) = Some i"
  "phase_run (Configure sn) = Some (r_id (sn_run sn))"
  "phase_run (CheckDag sn cfg) = Some (r_id (sn_run sn))"
  "phase_run (CancelDag sn) = Some (r_id (sn_run sn))"
  "phase_run (FindKey sn cfg) = Some (r_id (sn_run sn))"
  "phase_run (Pay sn cfg) = Some (r_id (sn_run sn))"
  "phase_run (Persist sn v) = Some (r_id (sn_run sn))"
  "phase_run (Fail sn err b) = Some (r_id (sn_run sn))"
  "phase_run Finished = None"
  "phase_run (Raised e) = None"
  by (simp_all add: phase_run_def)

lemma may_pay_simps [simp]:
  "may_pay (Load i) = Some i"
  "may_pay (Configure sn) = Some (r_id (sn_run sn))"
  "may_pay (CheckDag sn cfg) = Some (r_id (sn_run sn))"
  "may_pay (CancelDag sn) = Some (r_id (sn_run sn))"
  "may_pay (FindKey sn cfg) = Some (r_id (sn_run sn))"
  "may_pay (Pay sn cfg) = Some (r_id (sn_run sn))"
  "may_pay (Persist sn v) = None"
  "may_pay (Fail sn err b) = None"
  "may_pay Finished = None"
  "may_pay (Raised e) = None"
  by (simp_all add: may_pay_def)

text \<open>The phases a step can lead to.\<close>

lemma exec_step_next:
  assumes "exec_step X S c worker i p w = (p', w')"
  shows "(case p of
      Load j \<Rightarrow> (p' = Finished \<or> (\<exists>sn. p' = Configure sn \<and> load_snapshot j (w_db w) = Some sn)) \<and> w' = w
    | Configure sn \<Rightarrow> (\<exists>cfg err. p' = CheckDag sn cfg \<or> p' = FindKey sn cfg \<or> p' = Fail sn err False)
    | CheckDag sn cfg \<Rightarrow> p' = FindKey sn cfg \<or> p' = CancelDag sn \<or> (\<exists>e. p' = Raised e)
    | FindKey sn cfg \<Rightarrow> p' = Pay sn cfg \<or> (\<exists>v. p' = Persist sn v) \<or> (\<exists>e. p' = Raised e)
    | Pay sn cfg \<Rightarrow> (\<exists>v. p' = Persist sn v) \<or> (\<exists>err b. p' = Fail sn err b)
    | Raised e \<Rightarrow> p' = Raised e
    | _ \<Rightarrow> p' = Finished \<or> (\<exists>e. p' = Raised e))"
proof (cases p)
  case (Pay sn cfg)
  obtain a w1 where "pay X S c (sn_run sn) cfg w = (a, w1)" by fastforce
  with assms Pay show ?thesis by (auto split: sum.splits)
next
  case (Persist sn v)
  with assms show ?thesis
    by (cases "persist_success X (in_now i) (sn_run sn) (sn_sub sn) v (w_db w)") auto
next
  case (FindKey sn cfg)
  with assms show ?thesis
    by (cases "find_idempotency_key (r_id (sn_run sn)) (r_attempt (sn_run sn)) (w_db w)")
      (auto split: option.splits)
qed (use assms in \<open>auto split: option.splits sum.splits if_splits\<close>)

lemma exec_step_after_load:
  assumes "exec_step X S c worker i p w = (p', w')" and "\<And>j. p \<noteq> Load j"
  shows "(phase_run p' = phase_run p \<or> phase_run p' = None)
    \<and> (may_pay p' = may_pay p \<or> may_pay p' = None)
    \<and> (phase_snapshot p' = phase_snapshot p \<or> phase_snapshot p' = None)"
  using exec_step_next [OF assms(1)] assms(2) by (cases p) auto

lemma exec_step_load:
  assumes "exec_step X S c worker i (Load j) w = (p', w')"
  shows "w' = w \<and> (p' = Finished \<or> (\<exists>sn. p' = Configure sn \<and> load_snapshot j (w_db w) = Some sn))"
  using exec_step_next [OF assms] by auto

lemma exec_step_phase:
  assumes "exec_step X S c worker i p w = (p', w')"
  shows "(phase_run p' = phase_run p \<or> phase_run p' = None) \<and> (may_pay p' = may_pay p \<or> may_pay p' = None)
    \<and> (phase_snapshot p' = phase_snapshot p \<or> phase_snapshot p' = None
       \<or> (\<exists>j sn. p = Load j \<and> p' = Configure sn \<and> load_snapshot j (w_db w) = Some sn \<and> w' = w))"
proof (cases "\<exists>j. p = Load j")
  case True
  then obtain j where p: "p = Load j" ..
  from exec_step_load [OF assms [unfolded p]] show ?thesis
    using load_snapshot_Some [of j "w_db w"] by (fastforce simp: p)
next
  case False
  then have "p \<noteq> Load j" for j by blast
  from exec_step_after_load [OF assms this] show ?thesis by (elim conjE disjE) simp_all
qed

lemma pay_requests:
  assumes "pay X S c run cfg w = (a, w')"
  shows "w_requests w' = w_requests w \<or> w_requests w' = w_requests w @ [request_of X run]"
proof -
  obtain answer sent where "call_client X S c cfg (IdempotencyKey_for_run X (r_id run) (r_attempt run)) = (answer, sent)"
    by fastforce
  with assms have "w' = (if sent then w\<lparr>w_requests := w_requests w @ [request_of X run]\<rparr> else w)"
    by (simp add: pay_def)
  then show ?thesis by simp
qed

lemma exec_step_requests:
  assumes "exec_step X S c worker i p w = (p', w')"
  shows "w_requests w' = w_requests w
    \<or> (\<exists>sn. phase_snapshot p = Some sn \<and> may_pay p = Some (r_id (sn_run sn)) \<and> may_pay p' = None
         \<and> w_requests w' = w_requests w @ [request_of X (sn_run sn)])"
proof (cases "\<exists>sn cfg. p = Pay sn cfg")
  case True
  then obtain sn cfg where p: "p = Pay sn cfg" by blast
  obtain a w1 where pay: "pay X S c (sn_run sn) cfg w = (a, w1)" by fastforce
  with assms p have "w' = w1" "may_pay p' = None"
    by (auto simp: may_pay_def phase_run_def split: sum.splits)
  with pay_requests [OF pay] show ?thesis by (auto simp: p may_pay_def phase_run_def)
next
  case False
  with assms have "w_requests w' = w_requests w"
    by (cases p) (auto split: option.splits sum.splits prod.splits if_splits)
  then show ?thesis ..
qed

lemma exec_step_tx:
  assumes "db_ok (w_db w)" and "ledger_ok (w_db w)"
    and "\<And>sn. phase_snapshot p = Some sn \<Longrightarrow> knows (w_db w) (sn_run sn) \<and> readable_policy (s_retry_policy (sn_sub sn))"
    and "exec_step X S c worker i p w = (p', w')"
  shows "tx_ok (w_db w) (w_db w')"
proof -
  have same: "tx_ok (w_db w) (w_db w)" using assms(2) by (simp add: tx_ok_def)
  have "w_db w' = w_db w \<or> (\<exists>sn. phase_snapshot p = Some sn \<and> (w_db w' = mark_dag_cancelled (in_now i) (sn_run sn) (w_db w)
      \<or> (\<exists>v b. persist_success X (in_now i) (sn_run sn) (sn_sub sn) v (w_db w) = Inr (b, w_db w'))
      \<or> (\<exists>err b. handle_failure worker i (sn_run sn) (sn_sub sn) err b (w_db w) = Inr (w_db w'))))"
    using assms(4) by (cases p) (auto split: option.splits sum.splits prod.splits if_splits)
  then show ?thesis
    using same assms(3) tx_dag_cancelled [OF assms(2)] tx_persist_success [OF assms(1,2)]
      tx_handle_failure [OF assms(1,2)] by metis
qed

section \<open>The invariant of the system\<close>

definition claimed :: "db \<Rightarrow> uuid \<Rightarrow> bool" where
  "claimed d i \<longleftrightarrow> (\<exists>r \<in> set (job_runs d). r_id r = i \<and> r_status r \<noteq> JobRunStatus.PENDING)"

definition exec_ok :: "db \<Rightarrow> phase \<Rightarrow> bool" where
  "exec_ok d p \<longleftrightarrow> (\<forall>i. phase_run p = Some i \<longrightarrow> claimed d i)
     \<and> (\<forall>sn. phase_snapshot p = Some sn \<longrightarrow> knows d (sn_run sn) \<and> readable_policy (s_retry_policy (sn_sub sn)))"

definition rec_ok :: "db \<Rightarrow> uuid \<times> uuid \<times> int \<times> Subscription \<Rightarrow> bool" where
  "rec_ok d = (\<lambda>(i, job, a, sub). readable_policy (s_retry_policy sub)
     \<and> (\<exists>r \<in> set (job_runs d). r_id r = i \<and> run_slot r = (job, a) \<and> \<not> active r))"

definition request_ok :: "ext \<Rightarrow> db \<Rightarrow> request \<Rightarrow> bool" where
  "request_ok X d q \<longleftrightarrow> rq_key q = IdempotencyKey_for_run X (rq_run_id q) (rq_attempt q)
     \<and> (\<exists>r \<in> set (job_runs d). r_id r = rq_run_id q \<and> run_slot r = (rq_job_id q, rq_attempt q)
          \<and> r_status r \<noteq> JobRunStatus.PENDING)"

definition sys_ok :: "ext \<Rightarrow> sys \<Rightarrow> bool" where
  "sys_ok X y \<longleftrightarrow> db_ok (y_db y) \<and> ledger_ok (y_db y)
     \<and> (\<forall>e. exec_ok (y_db y) (y_exec y e))
     \<and> (\<forall>e e' i. e \<noteq> e' \<and> phase_run (y_exec y e) = Some i \<longrightarrow> phase_run (y_exec y e') \<noteq> Some i)
     \<and> (\<forall>k x. y_rec y k = Some x \<longrightarrow> rec_ok (y_db y) x)
     \<and> (\<forall>q \<in> set (w_requests (y_world y)). request_ok X (y_db y) q)
     \<and> distinct (map rq_run_id (w_requests (y_world y)))
     \<and> (\<forall>e i. may_pay (y_exec y e) = Some i \<longrightarrow> i \<notin> rq_run_id ` set (w_requests (y_world y)))"

lemma claimed_evolves: "claimed d i \<Longrightarrow> evolves d d' \<Longrightarrow> claimed d' i"
  unfolding claimed_def evolves_def run_evolves_def by metis

lemma exec_ok_evolves: "exec_ok d p \<Longrightarrow> evolves d d' \<Longrightarrow> exec_ok d' p"
  by (auto simp: exec_ok_def intro: claimed_evolves knows_evolves)

lemma rec_ok_evolves: "rec_ok d x \<Longrightarrow> evolves d d' \<Longrightarrow> rec_ok d' x"
  by (cases x) (fastforce simp: rec_ok_def evolves_def run_evolves_def)

lemma request_ok_evolves: "request_ok X d q \<Longrightarrow> evolves d d' \<Longrightarrow> request_ok X d' q"
  unfolding request_ok_def evolves_def run_evolves_def by metis

lemma sys_okI:
  assumes "db_ok (y_db y)" and "ledger_ok (y_db y)" and "\<And>e. exec_ok (y_db y) (y_exec y e)"
    and "\<And>e e' i. e \<noteq> e' \<Longrightarrow> phase_run (y_exec y e) = Some i \<Longrightarrow> phase_run (y_exec y e') \<noteq> Some i"
    and "\<And>k x. y_rec y k = Some x \<Longrightarrow> rec_ok (y_db y) x"
    and "\<And>q. q \<in> set (w_requests (y_world y)) \<Longrightarrow> request_ok X (y_db y) q"
    and "distinct (map rq_run_id (w_requests (y_world y)))"
    and "\<And>e i. may_pay (y_exec y e) = Some i \<Longrightarrow> i \<notin> rq_run_id ` set (w_requests (y_world y))"
  shows "sys_ok X y"
  unfolding sys_ok_def
proof (intro conjI allI ballI impI)
  show "phase_run (y_exec y e') \<noteq> Some i" if "e \<noteq> e' \<and> phase_run (y_exec y e) = Some i" for e e' i
    using that assms(4) by blast
qed (rule assms(1-3,7) | erule assms(5,6,8))+

lemma sys_ok_parts:
  assumes "sys_ok X y"
  shows "db_ok (y_db y)" and "ledger_ok (y_db y)" and "exec_ok (y_db y) (y_exec y e)"
    and "e \<noteq> e' \<Longrightarrow> phase_run (y_exec y e) = Some i \<Longrightarrow> phase_run (y_exec y e') \<noteq> Some i"
    and "y_rec y k = Some x \<Longrightarrow> rec_ok (y_db y) x"
    and "q \<in> set (w_requests (y_world y)) \<Longrightarrow> request_ok X (y_db y) q"
    and "distinct (map rq_run_id (w_requests (y_world y)))"
    and "may_pay (y_exec y e) = Some i \<Longrightarrow> i \<notin> rq_run_id ` set (w_requests (y_world y))"
proof -
  note c1 = assms [unfolded sys_ok_def]
  note c2 = conjunct2 [OF c1] note c3 = conjunct2 [OF c2] note c4 = conjunct2 [OF c3]
  note c5 = conjunct2 [OF c4] note c6 = conjunct2 [OF c5] note c7 = conjunct2 [OF c6]
  show "db_ok (y_db y)" by (rule conjunct1 [OF c1])
  show "ledger_ok (y_db y)" by (rule conjunct1 [OF c2])
  show "exec_ok (y_db y) (y_exec y e)" using conjunct1 [OF c3] by blast
  show "phase_run (y_exec y e') \<noteq> Some i" if "e \<noteq> e'" "phase_run (y_exec y e) = Some i"
    using conjunct1 [OF c4] that by blast
  show "rec_ok (y_db y) x" if "y_rec y k = Some x" using conjunct1 [OF c5] that by blast
  show "request_ok X (y_db y) q" if "q \<in> set (w_requests (y_world y))"
    using conjunct1 [OF c6] that by blast
  show "distinct (map rq_run_id (w_requests (y_world y)))" by (rule conjunct1 [OF c7])
  show "i \<notin> rq_run_id ` set (w_requests (y_world y))" if "may_pay (y_exec y e) = Some i"
    using conjunct2 [OF c7] that by blast
qed

text \<open>A transaction of someone who is neither an executor nor a recovery worker in the middle.\<close>

lemma sys_ok_tx:
  assumes "sys_ok X y" and "db_ok d" and "tx_ok (y_db y) d"
  shows "sys_ok X (set_db d y)"
proof -
  from assms(3) have e: "evolves (y_db y) d" and l: "ledger_ok d" by (simp_all add: tx_ok_def)
  note ok = sys_ok_parts [OF assms(1)]
  show ?thesis
    by (rule sys_okI; unfold set_db_simps)
      (use assms(2) l e ok in \<open>blast intro: exec_ok_evolves rec_ok_evolves request_ok_evolves\<close>)+
qed

text \<open>Replacing one executor's phase.\<close>

lemma sys_ok_new_phase:
  assumes "sys_ok X y" and "exec_ok (y_db y) p"
    and "\<And>i e'. phase_run p = Some i \<Longrightarrow> e' \<noteq> e \<Longrightarrow> phase_run (y_exec y e') \<noteq> Some i"
    and "\<And>i. may_pay p = Some i \<Longrightarrow> i \<notin> rq_run_id ` set (w_requests (y_world y))"
  shows "sys_ok X (y\<lparr>y_exec := (y_exec y)(e := p)\<rparr>)"
proof (rule sys_okI)
  note ok = sys_ok_parts [OF assms(1)]
  let ?y = "y\<lparr>y_exec := (y_exec y)(e := p)\<rparr>"
  show "db_ok (y_db ?y)" "ledger_ok (y_db ?y)" "distinct (map rq_run_id (w_requests (y_world ?y)))"
    using ok(1,2,7) by simp_all
  show "exec_ok (y_db ?y) (y_exec ?y e')" for e' using ok(3) assms(2) by simp
  show "phase_run (y_exec ?y e2) \<noteq> Some i" if "e1 \<noteq> e2" "phase_run (y_exec ?y e1) = Some i" for e1 e2 i
    using that ok(4) assms(3) by (cases "e1 = e"; cases "e2 = e") (simp_all, metis+)
  show "rec_ok (y_db ?y) x" if "y_rec ?y k = Some x" for k x using that ok(5) by simp
  show "request_ok X (y_db ?y) q" if "q \<in> set (w_requests (y_world ?y))" for q using that ok(6) by simp
  show "i \<notin> rq_run_id ` set (w_requests (y_world ?y))" if "may_pay (y_exec ?y e') = Some i" for e' i
    using that ok(8) assms(4) by (cases "e' = e") simp_all
qed

lemma sys_ok_phase:
  assumes "sys_ok X y" and "exec_ok (y_db y) p"
    and "\<And>i. phase_run p = Some i \<Longrightarrow> phase_run (y_exec y e) = Some i"
    and "\<And>i. may_pay p = Some i \<Longrightarrow> may_pay (y_exec y e) = Some i"
  shows "sys_ok X (y\<lparr>y_exec := (y_exec y)(e := p)\<rparr>)"
proof (rule sys_ok_new_phase [OF assms(1,2)])
  show "phase_run (y_exec y e') \<noteq> Some i" if "phase_run p = Some i" "e' \<noteq> e" for i e'
    using sys_ok_parts(4) [OF assms(1) that(2) [symmetric] assms(3) [OF that(1)]] .
  show "i \<notin> rq_run_id ` set (w_requests (y_world y))" if "may_pay p = Some i" for i
    using sys_ok_parts(8) [OF assms(1) assms(4) [OF that]] .
qed

lemma sys_ok_rec:
  assumes "sys_ok X y" and "\<And>x. v = Some x \<Longrightarrow> rec_ok (y_db y) x"
  shows "sys_ok X (y\<lparr>y_rec := (y_rec y)(k := v)\<rparr>)"
proof (rule sys_okI)
  note ok = sys_ok_parts [OF assms(1)]
  show "rec_ok (y_db (y\<lparr>y_rec := (y_rec y)(k := v)\<rparr>)) x" if "y_rec (y\<lparr>y_rec := (y_rec y)(k := v)\<rparr>) k' = Some x" for k' x
    using that ok(5) assms(2) by (cases "k' = k") simp_all
qed (use sys_ok_parts [OF assms(1)] in simp_all)

lemma sys_ok_request:
  assumes "sys_ok X y" and "request_ok X (y_db y) q" and "rq_run_id q \<notin> rq_run_id ` set (w_requests (y_world y))"
    and "\<And>e. may_pay (y_exec y e) \<noteq> Some (rq_run_id q)"
  shows "sys_ok X (y\<lparr>y_world := (y_world y)\<lparr>w_requests := w_requests (y_world y) @ [q]\<rparr>\<rparr>)"
proof (rule sys_okI)
  let ?y = "y\<lparr>y_world := (y_world y)\<lparr>w_requests := w_requests (y_world y) @ [q]\<rparr>\<rparr>"
  note ok = sys_ok_parts [OF assms(1)]
  show "i \<notin> rq_run_id ` set (w_requests (y_world ?y))" if "may_pay (y_exec ?y e) = Some i" for e i
    using that ok(8) [of e i] assms(4) [of e] by auto
  show "request_ok X (y_db ?y) x" if "x \<in> set (w_requests (y_world ?y))" for x
    using that ok(6) assms(2) by auto
  show "distinct (map rq_run_id (w_requests (y_world ?y)))" using ok(7) assms(3) by auto
  show "rec_ok (y_db ?y) x" if "y_rec ?y k = Some x" for k x using that ok(5) by simp
qed (use sys_ok_parts [OF assms(1)] in simp_all)

section \<open>Every step keeps the invariant\<close>

lemma claimed_not_pending:
  "db_ok d \<Longrightarrow> r \<in> set (job_runs d) \<Longrightarrow> r_status r = JobRunStatus.PENDING \<Longrightarrow> \<not> claimed d (r_id r)"
  unfolding claimed_def by (metis db_ok_run_eq)

lemma request_ok_claimed: "request_ok X d q \<Longrightarrow> claimed d (rq_run_id q)"
  unfolding request_ok_def claimed_def by blast

lemma may_pay_phase_run: "may_pay p = Some i \<Longrightarrow> phase_run p = Some i"
  by (cases p) simp_all

lemma exec_ok_idle [simp]: "exec_ok d Finished" "exec_ok d (Raised e)"
  by (simp_all add: exec_ok_def)

lemma in_update_whereI: "r \<in> set t \<Longrightarrow> p r \<Longrightarrow> f r \<in> set (update_where p f t)"
  by (auto simp: set_update_where)

lemma sys_ok_claim:
  assumes "sys_ok X y" and "claim_run S w t u l i (y_db y) = (RunClaimed, d)"
  shows "sys_ok X ((set_db d y)\<lparr>y_exec := (y_exec y)(e := Load i)\<rparr>)"
proof -
  note ok = sys_ok_parts [OF assms(1)]
  from assms(2) obtain run where run: "run \<in> set (job_runs (y_db y))" "r_id run = i" "r_status run = JobRunStatus.PENDING"
    and d: "d = update_runs (\<lambda>r. r_id r = i) (\<lambda>r. r\<lparr>r_status := JobRunStatus.RUNNING, r_worker_id := Some w,
       r_lock_expires_at := Some (t + EXECUTOR_LOCK_TIMEOUT_S S * 1000000), r_started_at := Some u\<rparr>) (y_db y)"
    unfolding claim_run_Claimed_iff by (auto dest!: find_Some_mem)
  have fresh: "\<not> claimed (y_db y) i" using claimed_not_pending [OF ok(1) run(1,3)] run(2) by simp
  have sys: "sys_ok X (set_db d y)"
    using sys_ok_tx [OF assms(1) db_ok_claim_run [OF ok(1) assms(2)] tx_claim [OF ok(1,2) assms(2)]] .
  have "\<exists>r \<in> set (job_runs d). r_id r = i \<and> r_status r \<noteq> JobRunStatus.PENDING"
    unfolding d update_runs_simps by (rule bexI [OF _ in_update_whereI [OF run(1)]]) (simp_all add: run(2))
  then have new: "exec_ok d (Load i)" by (simp add: exec_ok_def claimed_def)
  have "sys_ok X ((set_db d y)\<lparr>y_exec := (y_exec (set_db d y))(e := Load i)\<rparr>)"
  proof (rule sys_ok_new_phase [OF sys])
    show "exec_ok (y_db (set_db d y)) (Load i)" using new by simp
    show "phase_run (y_exec (set_db d y) e') \<noteq> Some j" if "phase_run (Load i) = Some j" "e' \<noteq> e" for j e'
      using ok(3) [of e'] fresh that by (auto simp: exec_ok_def)
    show "j \<notin> rq_run_id ` set (w_requests (y_world (set_db d y)))" if "may_pay (Load i) = Some j" for j
      using ok(6) fresh that request_ok_claimed by fastforce
  qed
  then show ?thesis by simp
qed

lemma exec_ok_step:
  assumes "exec_step X S c worker i p w = (p', w')" and "db_ok (w_db w)" and "ledger_ok (w_db w)"
    and "exec_ok (w_db w) p" and "evolves (w_db w) (w_db w')"
  shows "exec_ok (w_db w') p'"
proof -
  have run: "claimed (w_db w') j" if "phase_run p' = Some j" for j
  proof -
    have "phase_run p = Some j" using exec_step_phase [OF assms(1)] that by (metis option.distinct(1))
    then have "claimed (w_db w) j" using assms(4) by (simp add: exec_ok_def)
    then show ?thesis using assms(5) by (rule claimed_evolves)
  qed
  have snap: "knows (w_db w') (sn_run sn) \<and> readable_policy (s_retry_policy (sn_sub sn))"
    if sn: "phase_snapshot p' = Some sn" for sn
  proof (cases "\<exists>j. p = Load j")
    case False
    then have "phase_snapshot p = Some sn"
      using exec_step_after_load [OF assms(1)] sn by fastforce
    then show ?thesis using assms(4,5) knows_evolves unfolding exec_ok_def by blast
  next
    case True
    then obtain j where p: "p = Load j" ..
    from exec_step_load [OF assms(1) [unfolded p]] sn
    have w: "w' = w" and ld: "load_snapshot j (w_db w) = Some sn" by auto
    note l = load_snapshot_Some [OF ld]
    have "claimed (w_db w) j" using assms(4) by (simp add: p exec_ok_def)
    then obtain r where r: "r \<in> set (job_runs (w_db w))" "r_id r = j" "r_status r \<noteq> JobRunStatus.PENDING"
      unfolding claimed_def by blast
    then have "sn_run sn = r" using db_ok_run_eq [OF assms(2)] l by metis
    with r l show ?thesis using ledger_ok_rows(2) [OF assms(3)] by (auto simp: w knows_def)
  qed
  from run snap show ?thesis by (simp add: exec_ok_def)
qed

lemma sys_ok_execute:
  assumes "sys_ok X y" and "exec_step X S c worker i (y_exec y e) (y_world y) = (p, w)"
  shows "sys_ok X (y\<lparr>y_world := w, y_exec := (y_exec y)(e := p)\<rparr>)"
proof -
  note ok = sys_ok_parts [OF assms(1)]
  have snaps: "phase_snapshot (y_exec y e) = Some sn \<Longrightarrow> knows (y_db y) (sn_run sn)
      \<and> readable_policy (s_retry_policy (sn_sub sn))" for sn
    using ok(3) [of e] by (simp add: exec_ok_def)
  have tx: "tx_ok (y_db y) (w_db w)" by (rule exec_step_tx [OF ok(1,2) snaps assms(2)])
  then have ev: "evolves (y_db y) (w_db w)" by (simp add: tx_ok_def)
  have db: "db_ok (w_db w)" using db_ok_exec_step [OF ok(1)] assms(2) by blast
  let ?y1 = "set_db (w_db w) y"
  let ?y2 = "?y1\<lparr>y_exec := (y_exec ?y1)(e := p)\<rparr>"
  have y2: "sys_ok X ?y2"
  proof (rule sys_ok_phase [OF sys_ok_tx [OF assms(1) db tx]])
    show "exec_ok (y_db ?y1) p" using exec_ok_step [OF assms(2) ok(1,2,3) ev] by simp
  qed (use exec_step_phase [OF assms(2)] in auto)
  show ?thesis
  proof (cases "w_requests w = w_requests (y_world y)")
    case True
    then have "y\<lparr>y_world := w, y_exec := (y_exec y)(e := p)\<rparr> = ?y2" by (simp add: set_db_def)
    with y2 show ?thesis by simp
  next
    case False
    with exec_step_requests [OF assms(2)] obtain sn where sn: "phase_snapshot (y_exec y e) = Some sn"
      "may_pay (y_exec y e) = Some (r_id (sn_run sn))" "may_pay p = None"
      and req: "w_requests w = w_requests (y_world y) @ [request_of X (sn_run sn)]" by blast
    let ?q = "request_of X (sn_run sn)"
    have "sys_ok X (?y2\<lparr>y_world := (y_world ?y2)\<lparr>w_requests := w_requests (y_world ?y2) @ [?q]\<rparr>\<rparr>)"
    proof (rule sys_ok_request [OF y2])
      have "knows (w_db w) (sn_run sn)" using snaps [OF sn(1)] knows_evolves [OF _ ev] by blast
      then show "request_ok X (y_db ?y2) ?q" by (auto simp: request_ok_def request_of_def knows_def)
      show "rq_run_id ?q \<notin> rq_run_id ` set (w_requests (y_world ?y2))"
        using ok(8) [OF sn(2)] by (simp add: request_of_def)
      show "may_pay (y_exec ?y2 e') \<noteq> Some (rq_run_id ?q)" for e'
        using ok(4) [of e e'] may_pay_phase_run [OF sn(2)] may_pay_phase_run [of "y_exec y e'"] sn(3)
        by (cases "e' = e") (auto simp: request_of_def)
    qed
    moreover have "y\<lparr>y_world := w, y_exec := (y_exec y)(e := p)\<rparr>
        = ?y2\<lparr>y_world := (y_world ?y2)\<lparr>w_requests := w_requests (y_world ?y2) @ [?q]\<rparr>\<rparr>"
      using req by (simp add: set_db_def)
    ultimately show ?thesis by simp
  qed
qed

lemma sys_ok_reclaim:
  assumes "sys_ok X y" and "reclaim_run now i (y_db y) = Inr (Some (job_id, attempt, Some sub), d)"
  shows "sys_ok X ((set_db d y)\<lparr>y_rec := (y_rec y)(k \<mapsto> (i, job_id, attempt, sub))\<rparr>)"
proof -
  note ok = sys_ok_parts [OF assms(1)]
  note tx = tx_reclaim [OF ok(1,2) assms(2)]
  have sys: "sys_ok X (set_db d y)"
    using sys_ok_tx [OF assms(1) db_ok_reclaim_run [OF ok(1) assms(2)]] tx by blast
  have "sys_ok X ((set_db d y)\<lparr>y_rec := (y_rec (set_db d y))(k := Some (i, job_id, attempt, sub))\<rparr>)"
    by (rule sys_ok_rec [OF sys]) (use tx in \<open>simp add: rec_ok_def\<close>)
  then show ?thesis by simp
qed

lemma sys_ok_route:
  assumes "sys_ok X y" and "y_rec y k = Some (run_id, job_id, attempt, sub)"
    and "route_reclaimed i run_id job_id attempt sub (y_db y) = Inr d"
  shows "sys_ok X ((set_db d y)\<lparr>y_rec := (y_rec y)(k := None)\<rparr>)"
proof -
  note ok = sys_ok_parts [OF assms(1)]
  have rec: "readable_policy (s_retry_policy sub)"
    "\<exists>r \<in> set (job_runs (y_db y)). r_id r = run_id \<and> run_slot r = (job_id, attempt) \<and> \<not> active r"
    using ok(5) [OF assms(2)] by (simp_all add: rec_ok_def)
  have "sys_ok X (set_db d y)"
    by (rule sys_ok_tx [OF assms(1) db_ok_route_reclaimed [OF ok(1) assms(3)] tx_route [OF ok(1,2) rec assms(3)]])
  then have "sys_ok X ((set_db d y)\<lparr>y_rec := (y_rec (set_db d y))(k := None)\<rparr>)"
    by (rule sys_ok_rec) simp
  then show ?thesis by simp
qed

lemma tx_clock: "ledger_ok d \<Longrightarrow> tx_ok d (d\<lparr>db_now := t\<rparr>)"
  by (rule tx_api) (use ledger_ok_rows(2) in simp_all)

lemma tx_evaluate_dag_job: "ledger_ok d \<Longrightarrow> evaluate_dag_job now job d = Inr d' \<Longrightarrow> tx_ok d d'"
  unfolding evaluate_dag_job_def by (rule tx_scan_dependencies)

lemma db_ok_evaluate_dag_job: "db_ok d \<Longrightarrow> evaluate_dag_job now job d = Inr d' \<Longrightarrow> db_ok d'"
  unfolding evaluate_dag_job_def by (rule db_ok_scan_dependencies)

lemma sys_ok_step:
  assumes "sys_ok X y" and "sys_step X S c name y y'"
  shows "sys_ok X y'"
  using assms(2)
proof cases
  case (clock t)
  then show ?thesis
    using sys_ok_tx [OF assms(1) _ tx_clock [OF sys_ok_parts(2) [OF assms(1)]]] sys_ok_parts(1) [OF assms(1)] by simp
next
  case claim
  then show ?thesis using sys_ok_claim [OF assms(1)] by simp
next
  case execute
  then show ?thesis using sys_ok_execute [OF assms(1)] by simp
next
  case crash
  then show ?thesis using sys_ok_phase [OF assms(1) exec_ok_idle(1)] by simp
next
  case reclaim
  then show ?thesis using sys_ok_reclaim [OF assms(1)] by simp
next
  case route
  then show ?thesis using sys_ok_route [OF assms(1)] by simp
next
  case give_up
  then show ?thesis using sys_ok_rec [OF assms(1), of None] by simp
next
  case orphan
  then show ?thesis
    using sys_ok_tx [OF assms(1)] db_ok_evaluate_dag_job [OF sys_ok_parts(1) [OF assms(1)]] tx_evaluate_dag_job [OF sys_ok_parts(2) [OF assms(1)]] by blast
next
  case schedule
  then show ?thesis
    using sys_ok_tx [OF assms(1)] db_ok_create_job [OF sys_ok_parts(1) [OF assms(1)]]
      tx_create_job [OF sys_ok_parts(1,2) [OF assms(1)]] by blast
next
  case api_create
  then show ?thesis
    using sys_ok_tx [OF assms(1)] db_ok_create_subscription [OF sys_ok_parts(1) [OF assms(1)]]
      tx_create_subscription [OF sys_ok_parts(2) [OF assms(1)]] by blast
next
  case api_update
  then show ?thesis
    using sys_ok_tx [OF assms(1)] db_ok_update_subscription [OF sys_ok_parts(1) [OF assms(1)]]
      tx_update_subscription [OF sys_ok_parts(2) [OF assms(1)]] by blast
next
  case api_delete
  then show ?thesis
    using sys_ok_tx [OF assms(1)] db_ok_delete_subscription [OF sys_ok_parts(1) [OF assms(1)]]
      tx_delete_subscription [OF sys_ok_parts(2) [OF assms(1)]] by blast
next
  case api_resume
  then show ?thesis
    using sys_ok_tx [OF assms(1)] db_ok_resume_subscription [OF sys_ok_parts(1) [OF assms(1)]]
      tx_resume_subscription [OF sys_ok_parts(2) [OF assms(1)]] by blast
next
  case api_resolve
  then show ?thesis
    using sys_ok_tx [OF assms(1)] db_ok_resolve_dlq_entry [OF sys_ok_parts(1) [OF assms(1)]]
      tx_resolve_dlq [OF sys_ok_parts(2) [OF assms(1)]] by blast
qed

lemma sys_ok_start:
  assumes "sys_start y"
  shows "sys_ok X y"
proof -
  from assms obtain now where "y_db y = empty_db now" "w_requests (y_world y) = []"
    and "y_exec y = (\<lambda>e. Finished)" "y_rec y = (\<lambda>k. None)"
    by (auto simp: sys_start_def)
  then show ?thesis
    by (intro sys_okI) (simp_all add: ledger_ok_def empty_db_def db_ok_empty [unfolded empty_db_def])
qed

interpretation system: inductive_invariant sys_start "sys_step X S c name" "sys_ok X"
  for X S c name
  by unfold_locales (blast intro: sys_ok_start, blast intro: sys_ok_step)

section \<open>Consequences of the invariant\<close>

lemma requests_distinct:
  assumes "db_ok d" and "distinct (map rq_run_id qs)" and "\<forall>q \<in> set qs. request_ok X d q"
  shows "distinct (map (\<lambda>q. (rq_job_id q, rq_attempt q)) qs)"
  using assms(2,3)
proof (induction qs)
  case (Cons q qs)
  have "(rq_job_id q, rq_attempt q) \<noteq> (rq_job_id q', rq_attempt q')" if q': "q' \<in> set qs" for q'
  proof
    assume eq: "(rq_job_id q, rq_attempt q) = (rq_job_id q', rq_attempt q')"
    from Cons.prems(2) q' obtain r r' where r: "r \<in> set (job_runs d)" "r_id r = rq_run_id q"
        "run_slot r = (rq_job_id q, rq_attempt q)"
      and r': "r' \<in> set (job_runs d)" "r_id r' = rq_run_id q'" "run_slot r' = (rq_job_id q', rq_attempt q')"
      unfolding request_ok_def by (meson list.set_intros)
    then have "r = r'" using db_ok_slot_eq [OF assms(1) r(1) r'(1)] eq by simp
    then have "rq_run_id q = rq_run_id q'" using r r' by simp
    moreover have "rq_run_id q \<notin> rq_run_id ` set qs" using Cons.prems(1) by simp
    ultimately show False using q' by simp
  qed
  with Cons show ?case by auto
qed simp

lemma distinct_attempts:
  "distinct (map (\<lambda>q. (rq_job_id q, rq_attempt q)) qs) \<Longrightarrow>
     distinct (map rq_attempt (filter (\<lambda>q. rq_job_id q = job) qs))"
proof (induction qs)
  case (Cons q qs)
  then have "rq_job_id x = rq_job_id q \<longrightarrow> rq_attempt x \<noteq> rq_attempt q" if "x \<in> set qs" for x
    using that by (metis (mono_tags, lifting) distinct.simps(2) image_eqI list.simps(9) list.set_map)
  then have "rq_attempt q \<notin> set (map rq_attempt (filter (\<lambda>x. rq_job_id x = rq_job_id q) qs))" by fastforce
  with Cons show ?case by (cases "rq_job_id q = job") simp_all
qed simp

text \<open>Below an attempt every number is taken.\<close>

lemma slots_step:
  assumes "ledger_ok d" and "(job, a) \<in> slots d"
  shows "1 \<le> a \<and> (a = 1 \<or> (job, a - 1) \<in> slots d)"
proof -
  from assms(2) obtain r where "r \<in> set (job_runs d)" "r_job_id r = job" "r_attempt r = a"
    by (auto simp: slots_def)
  with ledger_ok_rows(3) [OF assms(1)] show ?thesis by (force simp: run_ledger_ok_def)
qed

lemma slots_below:
  assumes "ledger_ok d"
  shows "(job, int k + n) \<in> slots d \<Longrightarrow> 1 \<le> n \<Longrightarrow> (job, n) \<in> slots d"
proof (induction k)
  case (Suc k)
  with slots_step [OF assms Suc.prems(1)] have "(job, int (Suc k) + n - 1) \<in> slots d" by auto
  then have "(job, int k + n) \<in> slots d" by (simp add: algebra_simps)
  with Suc show ?case by simp
qed simp

lemma run_in_slots: "r \<in> set (job_runs d) \<Longrightarrow> (r_job_id r, r_attempt r) \<in> slots d"
  by (force simp: slots_def)

lemma attempts_contiguous:
  assumes "ledger_ok d" and "r \<in> set (job_runs d)" and "1 \<le> n" and "n \<le> r_attempt r"
  shows "(r_job_id r, n) \<in> slots d"
proof -
  have "int (nat (r_attempt r - n)) + n = r_attempt r" using assms(4) by simp
  then show ?thesis
    using slots_below [OF assms(1), of "r_job_id r" "nat (r_attempt r - n)" n] run_in_slots [OF assms(2)] assms(3)
    by simp
qed

lemma active_last:
  assumes "db_ok d" and "ledger_ok d" and "r \<in> set (job_runs d)" and "active r"
    and "r' \<in> set (job_runs d)" and "r_job_id r' = r_job_id r"
  shows "r' = r \<or> r_attempt r' < r_attempt r \<and> \<not> active r'"
proof -
  have rows: "run_ledger_ok d r" "run_ledger_ok d r'" using ledger_ok_rows(3) [OF assms(2)] assms(3,5) by blast+
  have above: "False" if "run_ledger_ok d q" "active q" "q' \<in> set (job_runs d)" "r_job_id q' = r_job_id q"
    "r_attempt q < r_attempt q'" for q q'
    using attempts_contiguous [OF assms(2) that(3), of "r_attempt q + 1"] that by (auto simp: run_ledger_ok_def)
  consider "r_attempt r' = r_attempt r" | "r_attempt r < r_attempt r'" | "r_attempt r' < r_attempt r" by linarith
  then show ?thesis
  proof cases
    case 1
    with assms(6) show ?thesis using db_ok_slot_eq [OF assms(1,5,3)] by simp
  next
    case 2
    then show ?thesis using above [OF rows(1) assms(4,5,6)] by blast
  next
    case 3
    then show ?thesis using above [OF rows(2) _ assms(3)] assms(6) by force
  qed
qed

section \<open>What the system promises\<close>

text \<open>
  C1: whatever executors, recovery workers, schedulers and API clients do, in any interleaving,
  with crashes at any point, no attempt of a job is sent to the bank twice: the payment requests
  that have left the system differ in job and attempt, each carries the key of its own run and
  attempt, and each belongs to a run in the database that is no longer PENDING.
\<close>

theorem one_request_per_attempt:
  assumes "sys_start y" and "(sys_step X S c name)\<^sup>*\<^sup>* y z"
  shows "distinct (map (\<lambda>q. (rq_job_id q, rq_attempt q)) (w_requests (y_world z)))
    \<and> (\<forall>q \<in> set (w_requests (y_world z)). rq_key q = IdempotencyKey_for_run X (rq_run_id q) (rq_attempt q)
         \<and> (\<exists>r \<in> set (job_runs (y_db z)). r_id r = rq_run_id q \<and> run_slot r = (rq_job_id q, rq_attempt q)
              \<and> r_status r \<noteq> JobRunStatus.PENDING))"
proof -
  note ok = sys_ok_parts [OF system.inv_reachable [OF assms]]
  have req: "\<forall>q \<in> set (w_requests (y_world z)). request_ok X (y_db z) q" using ok(6) by blast
  have "distinct (map (\<lambda>q. (rq_job_id q, rq_attempt q)) (w_requests (y_world z)))"
    by (rule requests_distinct [OF ok(1,7) req])
  with req show ?thesis by (simp add: request_ok_def)
qed

text \<open>
  C5: a job sends at most 20 payment requests to the bank, however often its runs are retried
  and recovered.
\<close>

theorem requests_bounded:
  assumes "sys_start y" and "(sys_step X S c name)\<^sup>*\<^sup>* y z"
  shows "length (filter (\<lambda>q. rq_job_id q = job) (w_requests (y_world z))) \<le> 20"
proof -
  note ok = sys_ok_parts [OF system.inv_reachable [OF assms]]
  let ?qs = "filter (\<lambda>q. rq_job_id q = job) (w_requests (y_world z))"
  have req: "\<forall>q \<in> set (w_requests (y_world z)). request_ok X (y_db z) q" using ok(6) by blast
  have "distinct (map rq_attempt ?qs)"
    using requests_distinct [OF ok(1,7) req] by (rule distinct_attempts)
  moreover have "set (map rq_attempt ?qs) \<subseteq> {1..20}"
  proof -
    have "rq_attempt q \<in> {1..20}" if "q \<in> set (w_requests (y_world z))" for q
      using req that ledger_ok_rows(3) [OF ok(2)] by (fastforce simp: request_ok_def run_ledger_ok_def)
    then show ?thesis by auto
  qed
  then have "card (set (map rq_attempt ?qs)) \<le> 20"
    using card_mono [of "{1..20::int}"] by fastforce
  ultimately show ?thesis using distinct_card by fastforce
qed

text \<open>
  C4: the ledger of runs is sound in every reachable state: the database keeps its unique and
  foreign keys; the attempts of a job are numbered from 1 without gaps and never exceed 20; a
  PENDING or RUNNING run is the last attempt of its job, so a job never has two; every DEAD
  run has its dead letter and every SUCCEEDED run its idempotency record.
\<close>

theorem run_ledger:
  assumes "sys_start y" and "(sys_step X S c name)\<^sup>*\<^sup>* y z" and "r \<in> set (job_runs (y_db z))"
  shows "db_ok (y_db z) \<and> 1 \<le> r_attempt r \<and> r_attempt r \<le> 20
    \<and> (\<forall>n. 1 \<le> n \<and> n \<le> r_attempt r \<longrightarrow> (\<exists>r' \<in> set (job_runs (y_db z)). run_slot r' = (r_job_id r, n)))
    \<and> (active r \<longrightarrow> (\<forall>r' \<in> set (job_runs (y_db z)). r_job_id r' = r_job_id r \<longrightarrow> r' = r
         \<or> r_attempt r' < r_attempt r \<and> \<not> active r'))
    \<and> (r_status r = JobRunStatus.DEAD \<longrightarrow> (\<exists>e \<in> set (dead_letter_queue (y_db z)). d_job_run_id e = r_id r))
    \<and> (r_status r = JobRunStatus.SUCCEEDED \<longrightarrow>
         (\<exists>k \<in> set (idempotency_keys (y_db z)). k_job_run_id k = r_id r \<and> k_attempt k = r_attempt r))"
proof -
  note ok = sys_ok_parts(1,2) [OF system.inv_reachable [OF assms(1,2)]]
  have row: "run_ledger_ok (y_db z) r" using ledger_ok_rows(3) [OF ok(2) assms(3)] .
  have "\<forall>r' \<in> set (job_runs (y_db z)). r_job_id r' = r_job_id r \<longrightarrow> r' = r
         \<or> r_attempt r' < r_attempt r \<and> \<not> active r'" if "active r"
    using active_last [OF ok assms(3) that] by blast
  moreover have "\<exists>r' \<in> set (job_runs (y_db z)). run_slot r' = (r_job_id r, n)" if "1 \<le> n" "n \<le> r_attempt r" for n
    using attempts_contiguous [OF ok(2) assms(3) that] by (force simp: slots_def)
  moreover have "\<exists>e \<in> set (dead_letter_queue (y_db z)). d_job_run_id e = r_id r" if "r_status r = JobRunStatus.DEAD"
    using row that by (auto simp: run_ledger_ok_def)
  moreover have "\<exists>k \<in> set (idempotency_keys (y_db z)). k_job_run_id k = r_id r \<and> k_attempt k = r_attempt r"
    if "r_status r = JobRunStatus.SUCCEEDED"
    using row that by (auto simp: run_ledger_ok_def)
  moreover have "1 \<le> r_attempt r" "r_attempt r \<le> 20" using row by (simp_all add: run_ledger_ok_def)
  ultimately show ?thesis using ok(1) by blast
qed

end
