(* ===== verification/SystemRuns.thy ===== *)
theory SystemRuns
  imports System StateMachine
begin

text \<open>
  Runs of the whole system: how an executor's phases become steps of the system, a worked run
  from the empty database to a payment, and the run in which a crash and a recovery pay one job
  twice.
\<close>

section \<open>Steps of one executor\<close>

text \<open>For any relation that has the steps of an executor.\<close>

lemma exec_moves_in:
  assumes "\<And>y e i p w. exec_step X S c (name e) i (y_exec y e) (y_world y) = (p, w) \<Longrightarrow>
      R y (y\<lparr>y_world := w, y_exec := (y_exec y)(e := p)\<rparr>)"
    and "run_phases X S c (name e) i n (y_exec y e, y_world y) = (p, w)"
  shows "R\<^sup>*\<^sup>* y (y\<lparr>y_world := w, y_exec := (y_exec y)(e := p)\<rparr>)"
  using assms(2)
proof (induction n arbitrary: y)
  case 0
  then have "y\<lparr>y_world := w, y_exec := (y_exec y)(e := p)\<rparr> = y" by auto
  then show ?case by (simp only: rtranclp.rtrancl_refl)
next
  case (Suc n)
  obtain p1 w1 where step: "exec_step X S c (name e) i (y_exec y e) (y_world y) = (p1, w1)" by fastforce
  let ?y = "y\<lparr>y_world := w1, y_exec := (y_exec y)(e := p1)\<rparr>"
  have "R y ?y" by (rule assms(1)) (rule step)
  moreover have "R\<^sup>*\<^sup>* ?y (?y\<lparr>y_world := w, y_exec := (y_exec ?y)(e := p)\<rparr>)"
    by (rule Suc.IH) (use Suc.prems step in simp)
  moreover have "?y\<lparr>y_world := w, y_exec := (y_exec ?y)(e := p)\<rparr> = y\<lparr>y_world := w, y_exec := (y_exec y)(e := p)\<rparr>"
    by simp
  ultimately show ?case by (simp only: converse_rtranclp_into_rtranclp)
qed

text \<open>A run whose configuration is valid, without dependencies and without a stored key, on a
  client that answers with a payment: after four steps the request is out and the run is about to
  be persisted.\<close>

lemma paying_run:
  assumes "\<And>y e i p w. exec_step X S (Injected (\<lambda>cfg key. Inr (f cfg key))) (name e) i (y_exec y e) (y_world y) = (p, w) \<Longrightarrow>
      R y (y\<lparr>y_world := w, y_exec := (y_exec y)(e := p)\<rparr>)"
    and "y_exec y e = Load j" and "load_snapshot j (y_db y) = Some sn"
    and "PaymentConfig_from_dict X (s_payment_config (sn_sub sn)) = Inr cfg"
    and "j_depends_on (sn_job sn) = []"
    and "find_idempotency_key (r_id (sn_run sn)) (r_attempt (sn_run sn)) (y_db y) = Inr None"
    and "\<And>cfg key. payment_id_of (f cfg key) = Inr v"
  shows "R\<^sup>*\<^sup>* y
    (y\<lparr>y_world := (y_world y)\<lparr>w_requests := w_requests (y_world y) @ [request_of X (sn_run sn)]\<rparr>,
       y_exec := (y_exec y)(e := Persist sn v)\<rparr>)"
  by (rule exec_moves_in [where n = 4], erule assms(1))
    (simp add: numeral_eq_Suc assms(2-7) pay_def call_client_def)

section \<open>A worked run\<close>

text \<open>The subscription as created over the API, the job of its first window, its first run.\<close>

definition paid_answer :: json where
  "paid_answer = JObj [(''Response'', JArr [JObj [(''Id'', JObj [(''id'', JStr ''p1'')])]])]"

definition paying_client :: client where
  "paying_client = Injected (\<lambda>cfg key. Inr paid_answer)"

definition rent_sub :: Subscription where
  "rent_sub = \<lparr>s_id = 7, s_name = ''rent'', s_description = None, s_cron_expression = ''0 9 1 * *'',
     s_timezone = ''UTC'', s_next_fire_at = Some 60000000,
     s_payment_config = PaymentConfigSchema_dump (sc_payment_config example_create),
     s_retry_policy = RetryPolicySchema_dump RetryPolicySchema_default,
     s_status = SubscriptionStatus.ACTIVE, s_consecutive_failures = 0, s_paused_at = None,
     s_created_at = 0, s_updated_at = 0\<rparr>"

definition rent_job :: ScheduledJob where
  "rent_job = new_job example_ext 5 rent_sub 60000000 1 0"

definition rent_db :: "JobRun list \<Rightarrow> db" where
  "rent_db runs = \<lparr>subscriptions = [rent_sub\<lparr>s_next_fire_at := Some 120000000\<rparr>], scheduled_jobs = [rent_job],
     job_runs = runs, idempotency_keys = [], dead_letter_queue = [], db_now = 0\<rparr>"

definition claimed_run :: "JobRun \<Rightarrow> JobRun" where
  "claimed_run r = r\<lparr>r_status := JobRunStatus.RUNNING, r_worker_id := Some ''w'',
     r_lock_expires_at := Some 360000000, r_started_at := Some 60000000\<rparr>"

lemma rent_created:
  "create_subscription example_ext 0 7 example_create (empty_db 0)
     = Inr (rent_sub, (empty_db 0)\<lparr>subscriptions := [rent_sub]\<rparr>)"
  by (simp add: create_subscription_def Let_def SubscriptionCreate_ok_def PaymentConfigSchema_ok_def
      RetryPolicySchema_ok_def RetryPolicySchema_default_def compute_next_fire_def unhandled_def
      insert_subscription_def rent_sub_def example_create_def empty_db_def)

lemma rent_scheduled:
  "create_job_for_subscription example_ext 1 \<lparr>ci_job_id = 5, ci_run_id = 1, ci_cron_now = 60000000, ci_pause_now = 0\<rparr>
     rent_sub ((empty_db 0)\<lparr>subscriptions := [rent_sub]\<rparr>) = Inr (rent_db [new_run 1 5 1 None 0])"
  by (simp add: create_job_for_subscription_def insert_job_def insert_run_def insert_row_def next_fire_def
      update_subscriptions_def update_where_def rent_db_def rent_job_def new_job_def rent_sub_def empty_db_def)


lemma rent_claimed:
  assumes "r_job_id r = 5" and "r_status r = JobRunStatus.PENDING" and "r_id r = i" and "\<forall>x \<in> set before. r_id x \<noteq> i"
  shows "claim_run default_settings ''w'' 60000000 60000000 (\<lambda>_. False) i (rent_db (before @ [r]))
    = (RunClaimed, rent_db (before @ [claimed_run r]))"
proof -
  have "find (\<lambda>r. r_id r = i \<and> r_status r = JobRunStatus.PENDING) (before @ [r]) = Some r"
    using assms(2-4) by (induction before) auto
  moreover have "update_where (\<lambda>r. r_id r = i) f before = before" for f
    using assms(4) by (intro update_where_none) auto
  ultimately show ?thesis
    using assms(1-3)
    by (simp add: claim_run_def update_runs_def rent_db_def rent_job_def claimed_run_def rent_sub_def)
qed

lemma rent_loaded:
  assumes "r_job_id r = 5" and "r_id r = i" and "\<forall>x \<in> set before. r_id x \<noteq> i"
  shows "load_snapshot i (rent_db (before @ [r]))
    = Some \<lparr>sn_run = r, sn_job = rent_job, sn_sub = rent_sub\<lparr>s_next_fire_at := Some 120000000\<rparr>\<rparr>"
proof -
  have "get_by r_id i before = None" using assms(3) by (force simp: get_by_None_iff)
  then show ?thesis
    using assms(1,2) by (simp add: load_snapshot_def rent_db_def get_by_append rent_job_def rent_sub_def)
qed

lemma rent_config: "\<exists>cfg. PaymentConfig_from_dict example_ext (s_payment_config rent_sub) = Inr cfg"
  by (simp add: rent_sub_def example_create_def PaymentConfigSchema_dump_def PaymentConfig_from_dict_def missing_fields_def
      REQUIRED_FIELDS_def PaymentConfig_init_def field_or_def positive_amount_def dec_parse_def
      dec_finite_def split_sign_def all_digits_def dec_exponent_def digits_val_def str_defs)

lemma rent_reclaimed:
  "reclaim_run 400000000 1 (rent_db [claimed_run (new_run 1 5 1 None 0)])
     = Inr (Some (5, 1, Some (rent_sub\<lparr>s_next_fire_at := Some 120000000\<rparr>)),
            rent_db [reclaimed 400000000 (claimed_run (new_run 1 5 1 None 0))])"
  by (simp add: reclaim_run_def subscriptions_of_job_def update_runs_def stuck_def rent_db_def rent_job_def
      claimed_run_def rent_sub_def)

lemma rent_routed:
  "route_reclaimed example_recover 1 5 1 (rent_sub\<lparr>s_next_fire_at := Some 120000000\<rparr>) (rent_db [r])
     = Inr (rent_db [r, new_run 3 5 2 None 0])" if "r_job_id r = 5" "r_attempt r = 1" "r_id r = 1"
  using that
  by (simp add: route_reclaimed_def rent_sub_def policy_of_dump is_exhausted_def RetryPolicySchema_default_def
      insert_run_def insert_row_def example_recover_def rent_db_def rent_job_def)


text \<open>One executor and one recovery worker.\<close>

definition rent_sys :: "db \<Rightarrow> request list \<Rightarrow> phase \<Rightarrow> (uuid \<times> uuid \<times> int \<times> Subscription) option \<Rightarrow> sys" where
  "rent_sys d qs p v = \<lparr>y_world = \<lparr>w_db = d, w_requests = qs\<rparr>, y_exec = (\<lambda>e. Finished)(0 := p),
     y_rec = (\<lambda>k. None)(0 := v)\<rparr>"

abbreviation rent_step :: "sys \<Rightarrow> sys \<Rightarrow> bool" where
  "rent_step \<equiv> sys_step example_ext default_settings paying_client (\<lambda>e. ''w'')"

abbreviation rent_moves :: "sys \<Rightarrow> sys \<Rightarrow> bool" where
  "rent_moves \<equiv> rent_step\<^sup>*\<^sup>*"

lemma rent_claims:
  assumes "r_job_id r = 5" and "r_status r = JobRunStatus.PENDING" and "r_id r = i" and "\<forall>x \<in> set before. r_id x \<noteq> i"
  shows "rent_step (rent_sys (rent_db (before @ [r])) qs Finished None)
    (rent_sys (rent_db (before @ [claimed_run r])) qs (Load i) None)"
proof -
  let ?y = "rent_sys (rent_db (before @ [r])) qs Finished None"
  let ?d = "rent_db (before @ [claimed_run r])"
  have "idle (y_exec ?y 0)" by (simp add: rent_sys_def idle_def)
  moreover have "claim_run default_settings ''w'' 60000000 60000000 (\<lambda>_. False) i (y_db ?y) = (RunClaimed, ?d)"
    using rent_claimed [OF assms] by (simp add: rent_sys_def)
  ultimately have "rent_step ?y
      ((set_db ?d ?y)\<lparr>y_exec := (y_exec ?y)(0 := Load i)\<rparr>)"
    by (rule sys_step.claim)
  moreover have "(set_db ?d ?y)\<lparr>y_exec := (y_exec ?y)(0 := Load i)\<rparr> = rent_sys ?d qs (Load i) None"
    by (simp add: rent_sys_def set_db_def)
  ultimately show ?thesis by simp
qed

lemma rent_exec_step:
  "exec_step example_ext default_settings paying_client ''w'' i (y_exec y e) (y_world y) = (p, w) \<Longrightarrow>
     rent_step y (y\<lparr>y_world := w, y_exec := (y_exec y)(e := p)\<rparr>)"
  by (rule sys_step.execute) simp

lemma rent_pays:
  assumes "\<And>y e i p w. exec_step example_ext default_settings paying_client ''w'' i (y_exec y e) (y_world y) = (p, w) \<Longrightarrow>
      R y (y\<lparr>y_world := w, y_exec := (y_exec y)(e := p)\<rparr>)"
    and "r_job_id r = 5" and "r_id r = i" and "\<forall>x \<in> set before. r_id x \<noteq> i"
  shows "\<exists>sn. sn_run sn = r \<and> R\<^sup>*\<^sup>* (rent_sys (rent_db (before @ [r])) qs (Load i) None)
    (rent_sys (rent_db (before @ [r])) (qs @ [request_of example_ext r]) (Persist sn (JStr ''p1'')) None)"
proof -
  let ?y = "rent_sys (rent_db (before @ [r])) qs (Load i) None"
  let ?sn = "\<lparr>sn_run = r, sn_job = rent_job, sn_sub = rent_sub\<lparr>s_next_fire_at := Some 120000000\<rparr>\<rparr>"
  obtain cfg where "PaymentConfig_from_dict example_ext (s_payment_config rent_sub) = Inr cfg"
    using rent_config by blast
  then have "R\<^sup>*\<^sup>* ?y (?y\<lparr>y_world := (y_world ?y)\<lparr>w_requests := w_requests (y_world ?y) @ [request_of example_ext r]\<rparr>,
       y_exec := (y_exec ?y)(0 := Persist ?sn (JStr ''p1''))\<rparr>)"
    using paying_run [where R = R and name = "\<lambda>e. ''w''" and f = "\<lambda>cfg key. paid_answer",
          OF assms(1) [unfolded paying_client_def], where y = ?y and e = 0 and j = i and sn = ?sn
        and cfg = cfg and v = "JStr ''p1''"] rent_loaded [OF assms(2-4)]
    by (simp add: rent_sys_def rent_job_def find_idempotency_key_def rent_db_def payment_id_of_def paid_answer_def)
  then show ?thesis by (intro exI [of _ ?sn]) (simp add: rent_sys_def)
qed

lemma rent_pays_moves:
  assumes "r_job_id r = 5" and "r_id r = i" and "\<forall>x \<in> set before. r_id x \<noteq> i"
  shows "\<exists>sn. sn_run sn = r \<and> rent_moves (rent_sys (rent_db (before @ [r])) qs (Load i) None)
    (rent_sys (rent_db (before @ [r])) (qs @ [request_of example_ext r]) (Persist sn (JStr ''p1'')) None)"
  by (rule rent_pays, erule rent_exec_step) (rule assms)+

lemma rent_start: "sys_start (rent_sys (empty_db 0) [] Finished None)"
  by (auto simp: sys_start_def rent_sys_def)

text \<open>From the empty tables to a pending first run: the client creates, a scheduler schedules.\<close>

lemma rent_create_step:
  "rent_step (rent_sys (empty_db 0) [] Finished None) (rent_sys ((empty_db 0)\<lparr>subscriptions := [rent_sub]\<rparr>) [] Finished None)"
  using sys_step.api_create [of example_ext 0 7 example_create "rent_sys (empty_db 0) [] Finished None"] rent_created
  by (simp add: rent_sys_def set_db_def)

lemma rent_schedule_step:
  "rent_step (rent_sys ((empty_db 0)\<lparr>subscriptions := [rent_sub]\<rparr>) [] Finished None)
     (rent_sys (rent_db [new_run 1 5 1 None 0]) [] Finished None)"
  using sys_step.schedule [of example_ext 1 "\<lparr>ci_job_id = 5, ci_run_id = 1, ci_cron_now = 60000000, ci_pause_now = 0\<rparr>"
      rent_sub "rent_sys ((empty_db 0)\<lparr>subscriptions := [rent_sub]\<rparr>) [] Finished None"] rent_scheduled
  by (simp add: rent_sys_def set_db_def)

lemma rent_begins:
  "rent_moves (rent_sys (empty_db 0) [] Finished None) (rent_sys (rent_db [new_run 1 5 1 None 0]) [] Finished None)"
  using rent_create_step rent_schedule_step by (rule converse_rtranclp_into_rtranclp [OF _ r_into_rtranclp])

text \<open>Recovery reclaims the run and queues the next attempt, wherever its executor is.\<close>

lemma rent_reclaim_step:
  fixes r
  defines "r \<equiv> claimed_run (new_run 1 5 1 None 0)"
  shows "rent_step (rent_sys (rent_db [r]) qs p None)
    (rent_sys (rent_db [reclaimed 400000000 r]) qs p (Some (1, 5, 1, rent_sub\<lparr>s_next_fire_at := Some 120000000\<rparr>)))"
  using sys_step.reclaim [of "rent_sys (rent_db [r]) qs p None" 0 400000000 1] rent_reclaimed
  by (simp add: rent_sys_def set_db_def r_def)

lemma rent_route_step:
  fixes r
  defines "r \<equiv> reclaimed 400000000 (claimed_run (new_run 1 5 1 None 0))"
  shows "rent_step (rent_sys (rent_db [r]) qs p (Some (1, 5, 1, rent_sub\<lparr>s_next_fire_at := Some 120000000\<rparr>)))
    (rent_sys (rent_db [r, new_run 3 5 2 None 0]) qs p None)"
  using sys_step.route [of "rent_sys (rent_db [r]) qs p (Some (1, 5, 1, rent_sub\<lparr>s_next_fire_at := Some 120000000\<rparr>))"
      0 1 5 1 "rent_sub\<lparr>s_next_fire_at := Some 120000000\<rparr>" example_recover] rent_routed [of r]
  by (simp add: rent_sys_def set_db_def r_def claimed_run_def)

lemma rent_crash_step: "rent_step (rent_sys d qs p v) (rent_sys d qs Finished v)"
  using sys_step.crash [of _ _ _ _ "rent_sys d qs p v" 0] by (simp add: rent_sys_def)

lemma rent_requeues:
  fixes r
  defines "r \<equiv> claimed_run (new_run 1 5 1 None 0)"
  shows "rent_moves (rent_sys (rent_db [r]) qs p None)
    (rent_sys (rent_db [reclaimed 400000000 r, new_run 3 5 2 None 0]) qs p None)"
  unfolding r_def
  using rent_reclaim_step rent_route_step by (rule converse_rtranclp_into_rtranclp [OF _ r_into_rtranclp])

text \<open>The executor dies after the payment.\<close>

lemma rent_recovers:
  fixes r
  defines "r \<equiv> claimed_run (new_run 1 5 1 None 0)"
  shows "rent_moves (rent_sys (rent_db [r]) qs p None)
    (rent_sys (rent_db [reclaimed 400000000 r, new_run 3 5 2 None 0]) qs Finished None)"
  unfolding r_def using rent_crash_step rent_requeues by (rule converse_rtranclp_into_rtranclp)

section \<open>Paying twice\<close>

definition rent_request :: "uuid \<Rightarrow> int \<Rightarrow> request" where
  "rent_request run attempt = request_of example_ext (claimed_run (new_run run 5 attempt None 0))"

lemma rent_request_simps [simp]:
  "rq_run_id (rent_request run attempt) = run"
  "rq_job_id (rent_request run attempt) = 5"
  "rq_attempt (rent_request run attempt) = attempt"
  "rq_key (rent_request run attempt) = IdempotencyKey_for_run example_ext run attempt"
  by (simp_all add: rent_request_def request_of_def claimed_run_def)

lemma rent_paid_twice:
  "\<exists>z. rent_moves (rent_sys (empty_db 0) [] Finished None) z \<and> w_requests (y_world z) = [rent_request 1 1, rent_request 3 2]"
proof -
  let ?r1 = "claimed_run (new_run 1 5 1 None 0)" and ?r2 = "claimed_run (new_run 3 5 2 None 0)"
  let ?o = "reclaimed 400000000 ?r1"
  let ?q1 = "rent_request 1 1" and ?q2 = "rent_request 3 2"
  have m1: "rent_moves (rent_sys (rent_db [new_run 1 5 1 None 0]) [] Finished None) (rent_sys (rent_db [?r1]) [] (Load 1) None)"
    using r_into_rtranclp [where r = rent_step, OF rent_claims, of "new_run 1 5 1 None 0" 1 "[]" "[]"] by simp
  obtain sn where m2: "rent_moves (rent_sys (rent_db [?r1]) [] (Load 1) None)
      (rent_sys (rent_db [?r1]) [?q1] (Persist sn (JStr ''p1'')) None)"
    using rent_pays_moves [of ?r1 1 "[]" "[]"] by (auto simp: claimed_run_def rent_request_def)
  have m3: "rent_moves (rent_sys (rent_db [?r1]) [?q1] (Persist sn (JStr ''p1'')) None)
      (rent_sys (rent_db [?o, new_run 3 5 2 None 0]) [?q1] Finished None)"
    by (rule rent_recovers)
  have m4: "rent_moves (rent_sys (rent_db [?o, new_run 3 5 2 None 0]) [?q1] Finished None)
      (rent_sys (rent_db [?o, ?r2]) [?q1] (Load 3) None)"
    using r_into_rtranclp [where r = rent_step, OF rent_claims, of "new_run 3 5 2 None 0" 3 "[?o]" "[?q1]"] by (simp add: claimed_run_def)
  obtain sn2 where m5: "rent_moves (rent_sys (rent_db [?o, ?r2]) [?q1] (Load 3) None)
      (rent_sys (rent_db [?o, ?r2]) [?q1, ?q2] (Persist sn2 (JStr ''p1'')) None)"
    using rent_pays_moves [of ?r2 3 "[?o]" "[?q1]"] by (auto simp: claimed_run_def rent_request_def)
  have moves: "rent_moves (rent_sys (empty_db 0) [] Finished None)
      (rent_sys (rent_db [?o, ?r2]) [?q1, ?q2] (Persist sn2 (JStr ''p1'')) None)"
    using rtranclp_trans [OF rent_begins rtranclp_trans [OF m1 rtranclp_trans [OF m2 rtranclp_trans [OF m3
      rtranclp_trans [OF m4 m5]]]]] .
  show ?thesis by (rule exI, rule conjI, rule moves) (simp add: rent_sys_def)
qed

text \<open>
  C6: recovery can pay a job twice. With a bank client that accepts every payment, there is a
  run of the system from the empty database in which an executor dies between the bank's answer
  and the transaction that would record it; recovery queues the next attempt as a new run; and
  that run is paid as well, for the same job, under another idempotency key, which the bank
  cannot recognise as the same payment.
\<close>

theorem double_payment_reachable:
  "\<exists>y z q1 q2. sys_start y \<and> rent_moves y z \<and> w_requests (y_world z) = [q1, q2]
     \<and> rq_job_id q1 = rq_job_id q2 \<and> rq_key q1 \<noteq> rq_key q2
     \<and> (\<forall>cfg key. call_client example_ext default_settings paying_client cfg key = (Inr paid_answer, True))"
proof -
  obtain z where z: "rent_moves (rent_sys (empty_db 0) [] Finished None) z"
    "w_requests (y_world z) = [rent_request 1 1, rent_request 3 2]"
    using rent_paid_twice by (elim exE conjE)
  have "rq_key (rent_request 1 1) \<noteq> rq_key (rent_request 3 2)"
    by (simp add: IdempotencyKey_for_run_def idempotency_raw_inject)
  moreover have "call_client example_ext default_settings paying_client cfg key = (Inr paid_answer, True)" for cfg key
    by (simp add: call_client_def paying_client_def)
  ultimately show ?thesis
    by (intro exI [of _ "rent_sys (empty_db 0) [] Finished None"] exI [of _ z] exI [of _ "rent_request 1 1"]
        exI [of _ "rent_request 3 2"] conjI allI rent_start z) simp_all
qed

section \<open>Runs only move forward\<close>

text \<open>The abstract life of a run: waiting, in an executor's hands, over.\<close>

datatype life = Waiting | InHands | Over

definition life_of :: "JobRunStatus \<Rightarrow> life" where
  "life_of s = (case s of JobRunStatus.PENDING \<Rightarrow> Waiting | JobRunStatus.RUNNING \<Rightarrow> InHands | _ \<Rightarrow> Over)"

definition life_step :: "life \<Rightarrow> life \<Rightarrow> bool" where
  "life_step a b \<longleftrightarrow> a = b \<or> a = Waiting \<or> b = Over"

lemma life_step_trans: "life_step a b \<Longrightarrow> life_step b c \<Longrightarrow> life_step a c"
  by (cases a; cases b; cases c) (simp_all add: life_step_def)

lemma run_evolves_life: "run_evolves r r' \<Longrightarrow> life_step (life_of (r_status r)) (life_of (r_status r'))"
  by (cases "r_status r"; cases "r_status r'") (simp_all add: run_evolves_def active_def life_of_def life_step_def)

lemma sys_step_evolves:
  assumes "sys_ok X y" and "sys_step X S c name y y'"
  shows "evolves (y_db y) (y_db y')"
  using assms(2)
proof cases
  case (clock t)
  then show ?thesis by (auto intro: evolves_same [of _ _ "[]"])
next
  case claim
  then show ?thesis using tx_claim [OF sys_ok_parts(1,2) [OF assms(1)]] by (auto simp: tx_ok_def)
next
  case (execute e i p w)
  note ok = sys_ok_parts [OF assms(1)]
  have "phase_snapshot (y_exec y e) = Some sn \<Longrightarrow> knows (y_db y) (sn_run sn)
      \<and> readable_policy (s_retry_policy (sn_sub sn))" for sn
    using ok(3) [of e] by (simp add: exec_ok_def)
  from exec_step_tx [OF ok(1,2) this execute(2)] show ?thesis by (simp add: execute(1) tx_ok_def)
next
  case reclaim
  then show ?thesis using tx_reclaim [OF sys_ok_parts(1,2) [OF assms(1)]] by (auto simp: tx_ok_def)
next
  case (route k run_id job_id attempt sub i d)
  note ok = sys_ok_parts [OF assms(1)]
  have rec: "readable_policy (s_retry_policy sub)"
    "\<exists>r \<in> set (job_runs (y_db y)). r_id r = run_id \<and> run_slot r = (job_id, attempt) \<and> \<not> active r"
    using ok(5) [OF route(2)] by (simp_all add: rec_ok_def)
  from tx_route [OF ok(1,2) rec route(3)] show ?thesis by (simp add: route(1) tx_ok_def)
next
  case orphan
  then show ?thesis using tx_evaluate_dag_job [OF sys_ok_parts(2) [OF assms(1)]] by (auto simp: tx_ok_def)
next
  case schedule
  then show ?thesis using tx_create_job [OF sys_ok_parts(1,2) [OF assms(1)]] by (auto simp: tx_ok_def)
next
  case api_create
  then show ?thesis using tx_create_subscription [OF sys_ok_parts(2) [OF assms(1)]] by (auto simp: tx_ok_def)
next
  case api_update
  then show ?thesis using tx_update_subscription [OF sys_ok_parts(2) [OF assms(1)]] by (auto simp: tx_ok_def)
next
  case api_delete
  then show ?thesis using tx_delete_subscription [OF sys_ok_parts(2) [OF assms(1)]] by (auto simp: tx_ok_def)
next
  case api_resume
  then show ?thesis using tx_resume_subscription [OF sys_ok_parts(2) [OF assms(1)]] by (auto simp: tx_ok_def)
next
  case api_resolve
  then show ?thesis using tx_resolve_dlq [OF sys_ok_parts(2) [OF assms(1)]] by (auto simp: tx_ok_def)
qed simp_all

lemma sys_moves_evolve:
  assumes "(sys_step X S c name)\<^sup>*\<^sup>* y z" and "sys_ok X y"
  shows "evolves (y_db y) (y_db z)"
  using assms
proof (induction rule: rtranclp_induct)
  case (step u v)
  have "sys_ok X u" using system.inv_moves [OF step(1) step.prems] .
  with step sys_step_evolves show ?case by (blast intro: evolves_trans)
qed simp

text \<open>
  C9: no run is ever lost or taken back. Along every continuation of every run of the system, a run
  that is in the database stays there under its identifier, job and attempt, and its life only
  moves forward: from waiting to an executor's hands to over. In particular a run that is over is
  never claimed or executed again.
\<close>

theorem runs_move_forward:
  assumes "sys_start y0" and "(sys_step X S c name)\<^sup>*\<^sup>* y0 y" and "(sys_step X S c name)\<^sup>*\<^sup>* y z"
    and "r \<in> set (job_runs (y_db y))"
  shows "\<exists>r' \<in> set (job_runs (y_db z)). r_id r' = r_id r \<and> run_slot r' = run_slot r
    \<and> life_step (life_of (r_status r)) (life_of (r_status r'))"
proof -
  have "evolves (y_db y) (y_db z)"
    using sys_moves_evolve [OF assms(3) system.inv_reachable [OF assms(1,2)]] .
  then obtain r' where "r' \<in> set (job_runs (y_db z))" "run_evolves r r'"
    using assms(4) by (auto simp: evolves_def)
  then show ?thesis using run_evolves_life [of r r'] by (auto simp: run_evolves_def)
qed

section \<open>A late executor\<close>

definition paid_late :: "db \<Rightarrow> bool" where
  "paid_late d \<longleftrightarrow> map r_status (job_runs d) = [JobRunStatus.SUCCEEDED, JobRunStatus.PENDING]
     \<and> map r_id (job_runs d) = [1, 3] \<and> map r_job_id (job_runs d) = [5, 5]
     \<and> map j_status (scheduled_jobs d) = [JobStatus.DONE]"

lemma rent_persists:
  assumes "sn_run sn = claimed_run (new_run 1 5 1 None 0)"
  shows "\<exists>d. rent_moves (rent_sys (rent_db [reclaimed 400000000 (claimed_run (new_run 1 5 1 None 0)), new_run 3 5 2 None 0])
        qs (Persist sn (JStr ''p1'')) None) (rent_sys d qs Finished None) \<and> paid_late d"
proof -
  let ?d = "rent_db [reclaimed 400000000 (claimed_run (new_run 1 5 1 None 0)), new_run 3 5 2 None 0]"
  let ?y = "rent_sys ?d qs (Persist sn (JStr ''p1'')) None"
  have "\<exists>d. persist_success example_ext 300 (sn_run sn) (sn_sub sn) (JStr ''p1'') ?d = Inr (True, d) \<and> paid_late d"
    by (simp add: assms persist_success_def insert_key_def insert_row_def idempotency_row_def mark_succeeded_def
        rent_db_def rent_job_def claimed_run_def paid_late_def)
  then obtain d where d: "persist_success example_ext 300 (sn_run sn) (sn_sub sn) (JStr ''p1'') ?d = Inr (True, d)"
    and shape: "paid_late d" by blast
  have "exec_step example_ext default_settings paying_client ''w'' example_inputs (y_exec ?y 0) (y_world ?y)
      = (Finished, (y_world ?y)\<lparr>w_db := d\<rparr>)"
    using d by (simp add: rent_sys_def example_inputs_def)
  then have "sys_step example_ext default_settings paying_client  (\<lambda>e. ''w'') ?y
      (?y\<lparr>y_world := (y_world ?y)\<lparr>w_db := d\<rparr>, y_exec := (y_exec ?y)(0 := Finished)\<rparr>)"
    by (rule sys_step.execute)
  then have step: "sys_step example_ext default_settings paying_client  (\<lambda>e. ''w'') ?y (rent_sys d qs Finished None)"
    by (simp add: rent_sys_def)
  show ?thesis
    by (intro exI [of _ d] conjI shape) (rule r_into_rtranclp, rule step)
qed

text \<open>
  C10: the table of the state machine does not bind the workers. An executor that is slower than its
  lock writes SUCCEEDED over the FAILED that recovery has given its run, a transition the table
  forbids; the job is then DONE while the attempt that recovery queued is still PENDING, to be
  claimed and paid again.
\<close>

theorem late_success_over_failure:
  "\<exists>y z z' r r' next. sys_start y \<and> rent_moves y z \<and> rent_moves z z'
     \<and> r \<in> set (job_runs (y_db z)) \<and> r_status r = JobRunStatus.FAILED
     \<and> r' \<in> set (job_runs (y_db z')) \<and> r_id r' = r_id r \<and> r_status r' = JobRunStatus.SUCCEEDED
     \<and> JobRunStatus.SUCCEEDED \<notin> set (VALID_RUN_TRANSITIONS JobRunStatus.FAILED)
     \<and> next \<in> set (job_runs (y_db z')) \<and> r_job_id next = r_job_id r' \<and> r_status next = JobRunStatus.PENDING
     \<and> map j_status (scheduled_jobs (y_db z')) = [JobStatus.DONE]"
proof -
  let ?r1 = "claimed_run (new_run 1 5 1 None 0)"
  let ?o = "reclaimed 400000000 ?r1"
  let ?q1 = "request_of example_ext ?r1"
  have m1: "rent_moves (rent_sys (rent_db [new_run 1 5 1 None 0]) [] Finished None) (rent_sys (rent_db [?r1]) [] (Load 1) None)"
    using r_into_rtranclp [where r = rent_step, OF rent_claims, of "new_run 1 5 1 None 0" 1 "[]" "[]"] by simp
  obtain sn where sn: "sn_run sn = ?r1" and m2: "rent_moves (rent_sys (rent_db [?r1]) [] (Load 1) None)
      (rent_sys (rent_db [?r1]) [?q1] (Persist sn (JStr ''p1'')) None)"
    using rent_pays_moves [of ?r1 1 "[]" "[]"] by (auto simp: claimed_run_def)
  let ?z = "rent_sys (rent_db [?o, new_run 3 5 2 None 0]) [?q1] (Persist sn (JStr ''p1'')) None"
  have z: "rent_moves (rent_sys (empty_db 0) [] Finished None) ?z"
    using rtranclp_trans [OF rent_begins rtranclp_trans [OF m1 rtranclp_trans [OF m2 rent_requeues]]] .
  obtain d where z': "rent_moves ?z (rent_sys d [?q1] Finished None)" and late: "paid_late d"
    using rent_persists [OF sn, of "[?q1]"] by (elim exE conjE)
  note d = late [unfolded paid_late_def, THEN conjunct1]
    late [unfolded paid_late_def, THEN conjunct2, THEN conjunct1]
    late [unfolded paid_late_def, THEN conjunct2, THEN conjunct2, THEN conjunct1]
    late [unfolded paid_late_def, THEN conjunct2, THEN conjunct2, THEN conjunct2]
  obtain a b where runs: "job_runs d = [a, b]"
    using d(1) by (cases "job_runs d"; cases "tl (job_runs d)") auto
  have o: "?o \<in> set (job_runs (y_db ?z))" "r_status ?o = JobRunStatus.FAILED" "r_id ?o = 1"
    by (simp_all add: rent_sys_def rent_db_def claimed_run_def)
  have d': "y_db (rent_sys d [?q1] Finished None) = d" by (simp add: rent_sys_def)
  show ?thesis
  proof (intro exI conjI)
    show "sys_start (rent_sys (empty_db 0) [] Finished None)" by (rule rent_start)
    show "rent_moves (rent_sys (empty_db 0) [] Finished None) ?z" by (rule z)
    show "rent_moves ?z (rent_sys d [?q1] Finished None)" by (rule z')
    show "?o \<in> set (job_runs (y_db ?z))" by (rule o(1))
    show "r_status ?o = JobRunStatus.FAILED" by (rule o(2))
    show "a \<in> set (job_runs (y_db (rent_sys d [?q1] Finished None)))"
      and "b \<in> set (job_runs (y_db (rent_sys d [?q1] Finished None)))" by (simp_all add: d' runs)
    show "r_id a = r_id ?o" using d(2) o(3) by (simp add: runs)
    show "r_status a = JobRunStatus.SUCCEEDED" "r_status b = JobRunStatus.PENDING" "r_job_id b = r_job_id a"
      using d(1,3) by (simp_all add: runs)
    show "JobRunStatus.SUCCEEDED \<notin> set (VALID_RUN_TRANSITIONS JobRunStatus.FAILED)" by simp
    show "map j_status (scheduled_jobs (y_db (rent_sys d [?q1] Finished None))) = [JobStatus.DONE]"
      using d(4) by (simp add: d')
  qed
qed

section \<open>The invariants on the worked run\<close>

text \<open>On the run that pays job 5 twice.\<close>

theorem one_request_per_attempt_witness:
  "\<exists>z. rent_moves (rent_sys (empty_db 0) [] Finished None) z
     \<and> w_requests (y_world z) = [rent_request 1 1, rent_request 3 2]
     \<and> distinct (map (\<lambda>q. (rq_job_id q, rq_attempt q)) (w_requests (y_world z)))
     \<and> (\<exists>r \<in> set (job_runs (y_db z)). r_id r = 3 \<and> run_slot r = (5, 2))"
proof -
  obtain z where z: "rent_moves (rent_sys (empty_db 0) [] Finished None) z"
    "w_requests (y_world z) = [rent_request 1 1, rent_request 3 2]"
    using rent_paid_twice by (elim exE conjE)
  note one = one_request_per_attempt [OF rent_start z(1), unfolded z(2)]
  have "\<exists>r \<in> set (job_runs (y_db z)). r_id r = 3 \<and> run_slot r = (5, 2)" using one by auto
  then show ?thesis using one z by (intro exI [of _ z] conjI) simp_all
qed

theorem requests_bounded_witness:
  "\<exists>z. rent_moves (rent_sys (empty_db 0) [] Finished None) z
     \<and> length (filter (\<lambda>q. rq_job_id q = 5) (w_requests (y_world z))) = 2 \<and> (2::nat) \<le> 20"
proof -
  obtain z where z: "rent_moves (rent_sys (empty_db 0) [] Finished None) z"
    "w_requests (y_world z) = [rent_request 1 1, rent_request 3 2]"
    using rent_paid_twice by (elim exE conjE)
  have "length (filter (\<lambda>q. rq_job_id q = 5) (w_requests (y_world z))) = 2" by (simp add: z(2))
  moreover from requests_bounded [OF rent_start z(1), of 5] this have "(2::nat) \<le> 20" by simp
  ultimately show ?thesis using z(1) by (intro exI [of _ z] conjI)
qed

theorem run_ledger_witness:
  "\<exists>y z r. sys_start y \<and> rent_moves y z \<and> r \<in> set (job_runs (y_db z)) \<and> active r \<and> db_ok (y_db z)
     \<and> r_attempt r \<le> 20"
proof -
  have "new_run 1 5 1 None 0 \<in> set (job_runs (y_db (rent_sys (rent_db [new_run 1 5 1 None 0]) [] Finished None)))"
    by (simp add: rent_sys_def rent_db_def)
  from run_ledger [OF rent_start rent_begins this] this rent_start rent_begins show ?thesis
    by (metis active_def new_run_simps(4))
qed

theorem runs_move_forward_witness:
  "\<exists>y z. rent_moves y z \<and> (\<exists>r \<in> set (job_runs (y_db y)). r_status r = JobRunStatus.RUNNING
     \<and> (\<exists>r' \<in> set (job_runs (y_db z)). r_id r' = r_id r \<and> life_step InHands (life_of (r_status r'))))"
proof -
  let ?r = "claimed_run (new_run 1 5 1 None 0)"
  let ?y = "rent_sys (rent_db [?r]) [] (Load 1) None"
  let ?z = "rent_sys (rent_db [reclaimed 400000000 ?r, new_run 3 5 2 None 0]) [] Finished None"
  have "rent_moves (rent_sys (rent_db [new_run 1 5 1 None 0]) [] Finished None) ?y"
    using r_into_rtranclp [where r = rent_step, OF rent_claims, of "new_run 1 5 1 None 0" 1 "[]" "[]"] by simp
  then have y: "rent_moves (rent_sys (empty_db 0) [] Finished None) ?y"
    using rtranclp_trans [OF rent_begins] by blast
  have z: "rent_moves ?y ?z" by (rule rent_recovers)
  have r: "?r \<in> set (job_runs (y_db ?y))" "r_status ?r = JobRunStatus.RUNNING"
    by (simp_all add: rent_sys_def rent_db_def claimed_run_def)
  have "life_of (r_status ?r) = InHands" by (simp add: r(2) life_of_def)
  with runs_move_forward [OF rent_start y z r(1)] obtain r' where
    "r' \<in> set (job_runs (y_db ?z))" "r_id r' = r_id ?r" "life_step InHands (life_of (r_status r'))" by auto
  with r z show ?thesis by blast
qed

end
