(* ===== verification/Delivery.thy ===== *)
theory Delivery
  imports SystemRuns
begin

text \<open>
  When a job is paid at most once, and that it can be paid at all. The double payment of
  \<open>SystemRuns\<close> needs a recovery that takes over a run after its executor has reached the bank.
  Here that is the only way: as long as recovery reclaims no run that an executor still holds or
  that the bank has already charged, no job is charged twice, whatever else happens. And from
  every reachable state every waiting run can be driven to its payment.
\<close>

section \<open>Which attempts a transaction adds\<close>

definition last_attempt :: "db \<Rightarrow> JobRun \<Rightarrow> bool" where
  "last_attempt d r \<longleftrightarrow> (r_job_id r, r_attempt r + 1) \<notin> slots d"

definition next_slot :: "JobRun \<Rightarrow> uuid \<times> int" where
  "next_slot r = (r_job_id r, r_attempt r + 1)"

lemma exec_step_db:
  assumes "exec_step X S c worker i p w = (p', w')"
  shows "w_db w' = w_db w
    \<or> (\<exists>sn. p = CancelDag sn \<and> w_db w' = mark_dag_cancelled (in_now i) (sn_run sn) (w_db w))
    \<or> (\<exists>sn v b. p = Persist sn v \<and> persist_success X (in_now i) (sn_run sn) (sn_sub sn) v (w_db w) = Inr (b, w_db w'))
    \<or> (\<exists>sn err b. p = Fail sn err b
         \<and> handle_failure worker i (sn_run sn) (sn_sub sn) err b (w_db w) = Inr (w_db w'))"
  using assms by (cases p) (auto split: option.splits sum.splits prod.splits if_splits)

lemma slots_updates:
  "slots (update_subscriptions p f d) = slots d"
  "slots (update_jobs q g d) = slots d"
  "(\<And>r. run_slot (h r) = run_slot r) \<Longrightarrow> slots (update_runs w h d) = slots d"
  by (simp_all add: slots_def image_update_where)

lemma slots_count_failure [simp]: "slots (count_failure now i d) = slots d"
  by (simp add: count_failure_def Let_def slots_updates split: option.split)

lemma slots_insert_dlq: "insert_dlq row d = Inr d' \<Longrightarrow> slots d' = slots d"
  by (auto simp: insert_dlq_Inr_iff slots_def)

lemma slots_insert_run: "insert_run row d = Inr (b, d') \<Longrightarrow> slots d' \<subseteq> insert (run_slot row) (slots d)"
  by (auto simp: insert_run_Inr_iff slots_def split: if_splits)

lemma slots_move_to_dlq: "move_to_dlq worker now i run sub reason d = Inr d' \<Longrightarrow> slots d' = slots d"
  unfolding move_to_dlq_def by (drule slots_insert_dlq) (simp add: slots_updates)

lemma slots_schedule_retry:
  assumes "schedule_retry now i t run err d = Inr d'"
  shows "slots d' \<subseteq> insert (next_slot run) (slots d)"
proof -
  obtain b where "insert_run (new_run i (r_job_id run) (r_attempt run + 1) (Some t) (db_now d))
      (update_runs (\<lambda>r. r_id r = r_id run)
        (\<lambda>r. r\<lparr>r_status := JobRunStatus.FAILED, r_error_message := Some (truncate_error err),
              r_finished_at := Some now, r_lock_expires_at := None\<rparr>) d) = Inr (b, d')"
    using assms by (auto simp: schedule_retry_def and_then_Inr_iff)
  from slots_insert_run [OF this] show ?thesis by (simp add: slots_updates next_slot_def)
qed

lemma slots_handle_failure:
  assumes "handle_failure worker i run sub err b d = Inr d'"
  shows "slots d' \<subseteq> slots d \<union> (if b then {next_slot run} else {})"
proof -
  from assms consider "move_to_dlq worker (in_dlq_now i) (in_dlq_id i) run sub err d = Inr d'"
    | t where "b" "schedule_retry (in_now i) (in_run_id i) t run err d = Inr d'"
    by (auto simp: handle_failure_def and_then_Inr_iff split: if_splits option.splits)
  then show ?thesis using slots_move_to_dlq slots_schedule_retry by cases fastforce+
qed

lemma slots_mark_succeeded [simp]: "slots (mark_succeeded now run sub pid d) = slots d"
  by (simp add: mark_succeeded_def slots_updates)

lemma slots_frame [simp]: "slots (d\<lparr>idempotency_keys := ks\<rparr>) = slots d" "slots (d\<lparr>db_now := t\<rparr>) = slots d"
  by (simp_all add: slots_def)

lemma slots_persist_success: "persist_success X now run sub v d = Inr (b, d') \<Longrightarrow> slots d' = slots d"
  unfolding persist_success_Inr_iff by (elim exE conjE) (auto split: if_splits)

lemma slots_exec_step:
  assumes "exec_step X S c worker i p w = (p', w')"
  shows "slots (w_db w') \<subseteq> slots (w_db w) \<union> {x. \<exists>sn err. p = Fail sn err True \<and> x = next_slot (sn_run sn)}"
  using exec_step_db [OF assms]
proof (elim disjE exE conjE)
  fix sn err b
  assume p: "p = Fail sn err b" and h: "handle_failure worker i (sn_run sn) (sn_sub sn) err b (w_db w) = Inr (w_db w')"
  show ?thesis using slots_handle_failure [OF h] by (cases b) (auto simp: p)
qed (simp_all add: mark_dag_cancelled_def slots_updates slots_persist_success)

lemma slots_claim: "claim_run S w t u l i d = (RunClaimed, d') \<Longrightarrow> slots d' = slots d"
  by (auto simp: claim_run_Claimed_iff slots_updates)

lemma slots_reclaim:
  "db_ok d \<Longrightarrow> reclaim_run now i d = Inr (Some (job, a, sub), d') \<Longrightarrow> slots d' = slots d"
  by (auto simp: reclaim_run_iff slots_updates)

lemma slots_route:
  assumes "route_reclaimed i run_id job a sub d = Inr d'"
  shows "slots d' \<subseteq> insert (job, a + 1) (slots d)"
proof -
  from assms consider (dlq) now k reason where "recovery_move_to_dlq now k run_id job a sub reason d = Inr d'"
    | (retry) b where "insert_run (new_run (vi_run_id i) job (a + 1) None (db_now d)) d = Inr (b, d')"
    by (auto simp: route_reclaimed_def and_then_Inr_iff split: if_splits)
  then show ?thesis
  proof cases
    case dlq
    then show ?thesis unfolding recovery_move_to_dlq_def by (auto dest!: slots_insert_dlq simp: slots_updates)
  next
    case retry
    with slots_insert_run [OF retry] show ?thesis by simp
  qed
qed

lemma slots_scan: "scan_dependencies now job deps d = Inr d' \<Longrightarrow> slots d' = slots d"
  by (induction deps) (auto simp: and_then_Inr_iff cancel_downstream_def slots_updates split: option.splits)

lemma slots_create_job:
  assumes "db_ok d" and "create_job_for_subscription X epoch i sub d = Inr d'"
  shows "slots d' \<subseteq> slots d \<union> {x. snd x = 1}"
proof (cases "s_next_fire_at sub")
  case None
  with assms(2) show ?thesis by (simp add: create_job_for_subscription_def)
next
  case (Some f)
  show ?thesis unfolding create_job_Inr [OF assms(1) Some assms(2)] by (auto simp: slots_def added_runs_def)
qed

lemma slots_api:
  "create_subscription X now i body d = Inr (sub, d') \<Longrightarrow> slots d' = slots d"
  "update_subscription X now t i patch d = Inr (sub, d') \<Longrightarrow> slots d' = slots d"
  "delete_subscription i d = Inr (u, d') \<Longrightarrow> slots d' = slots d"
  "resume_subscription X now i d = Inr (sub, d') \<Longrightarrow> slots d' = slots d"
  "resolve_dlq_entry now i who d = Inr (entry, d') \<Longrightarrow> slots d' = slots d"
  by (auto simp: create_subscription_def update_subscription_def delete_subscription_def resume_subscription_def
      resolve_dlq_entry_def and_then_Inr_iff Let_def unhandled_Inr_iff insert_subscription_Inr_iff slots_def
      split: if_splits option.splits)


section \<open>Careful recovery\<close>

text \<open>
  The bank is known by the keys it has charged, \<open>accepted\<close>. A run is held while an executor is
  between its claim and its end, and charged when a request for it carried an accepted key.
  Recovery is careful in a step when the run it reclaims is neither.
\<close>

definition held :: "sys \<Rightarrow> uuid \<Rightarrow> bool" where
  "held y i \<longleftrightarrow> (\<exists>e. phase_run (y_exec y e) = Some i)"

definition charged :: "(string \<Rightarrow> bool) \<Rightarrow> sys \<Rightarrow> uuid \<Rightarrow> bool" where
  "charged accepted y i \<longleftrightarrow> (\<exists>q \<in> set (w_requests (y_world y)). rq_run_id q = i \<and> accepted (rq_key q))"

definition careful_step ::
  "ext \<Rightarrow> Settings \<Rightarrow> client \<Rightarrow> (nat \<Rightarrow> string) \<Rightarrow> (string \<Rightarrow> bool) \<Rightarrow> sys \<Rightarrow> sys \<Rightarrow> bool" where
  "careful_step X S c name accepted y y' \<longleftrightarrow> sys_step X S c name y y'
     \<and> (\<forall>k i x. y_rec y k = None \<and> y_rec y' k = Some (i, x) \<longrightarrow> \<not> held y i \<and> \<not> charged accepted y i)"

text \<open>An answer that names the payment for every key the bank charges.\<close>

definition answers_charges :: "ext \<Rightarrow> Settings \<Rightarrow> client \<Rightarrow> (string \<Rightarrow> bool) \<Rightarrow> bool" where
  "answers_charges X S c accepted \<longleftrightarrow> (\<forall>cfg key. accepted key \<longrightarrow>
     (\<exists>v. and_then (fst (call_client X S c cfg key)) payment_id_of = Inr v))"

definition careful_ok :: "(string \<Rightarrow> bool) \<Rightarrow> sys \<Rightarrow> bool" where
  "careful_ok accepted y \<longleftrightarrow>
     (\<forall>r \<in> set (job_runs (y_db y)). held y (r_id r) \<or> charged accepted y (r_id r) \<longrightarrow> next_slot r \<notin> slots (y_db y))
   \<and> (\<forall>e sn err. y_exec y e = Fail sn err True \<longrightarrow> \<not> charged accepted y (r_id (sn_run sn)))
   \<and> (\<forall>k i x. y_rec y k = Some (i, x) \<longrightarrow> \<not> held y i \<and> \<not> charged accepted y i)"

lemma held_claimed: "sys_ok X y \<Longrightarrow> held y i \<Longrightarrow> i \<in> r_id ` set (job_runs (y_db y))"
  using sys_ok_parts(3) by (fastforce simp: held_def exec_ok_def claimed_def)

lemma charged_claimed: "sys_ok X y \<Longrightarrow> charged accepted y i \<Longrightarrow> i \<in> r_id ` set (job_runs (y_db y))"
  unfolding charged_def by (elim bexE conjE) (drule (1) sys_ok_parts(6), force simp: request_ok_def)

text \<open>What a step has to show: \<open>N\<close> are the attempts it may add.\<close>

lemma careful_move:
  assumes "sys_ok X y" and "sys_ok X y'" and "evolves (y_db y) (y_db y')"
    and "slots (y_db y') \<subseteq> slots (y_db y) \<union> N"
    and "\<And>i. held y' i \<or> charged accepted y' i \<Longrightarrow> i \<in> r_id ` set (job_runs (y_db y))"
    and "\<And>r. r \<in> set (job_runs (y_db y)) \<Longrightarrow> held y' (r_id r) \<or> charged accepted y' (r_id r) \<Longrightarrow>
          next_slot r \<notin> slots (y_db y) \<and> next_slot r \<notin> N"
    and "\<And>e sn err. y_exec y' e = Fail sn err True \<Longrightarrow> \<not> charged accepted y' (r_id (sn_run sn))"
    and "\<And>k i x. y_rec y' k = Some (i, x) \<Longrightarrow> \<not> held y' i \<and> \<not> charged accepted y' i"
  shows "careful_ok accepted y'"
proof -
  have "next_slot r' \<notin> slots (y_db y')"
    if r': "r' \<in> set (job_runs (y_db y'))" and watched: "held y' (r_id r') \<or> charged accepted y' (r_id r')" for r'
  proof -
    obtain r where r: "r \<in> set (job_runs (y_db y))" "r_id r = r_id r'" using assms(5) [OF watched] by auto
    obtain r2 where r2: "r2 \<in> set (job_runs (y_db y'))" "r_id r2 = r_id r" "run_slot r2 = run_slot r"
      using assms(3) r(1) by (auto simp: evolves_def run_evolves_def)
    then have "r2 = r'" using db_ok_run_eq [OF sys_ok_parts(1) [OF assms(2)] r2(1) r'] r(2) by simp
    with r2(3) have "next_slot r' = next_slot r" by (simp add: next_slot_def)
    with assms(4) assms(6) [OF r(1)] r(2) watched show ?thesis by auto
  qed
  with assms(7,8) show ?thesis unfolding careful_ok_def by blast
qed

lemma careful_ok_parts:
  assumes "careful_ok accepted y"
  shows "r \<in> set (job_runs (y_db y)) \<Longrightarrow> held y (r_id r) \<or> charged accepted y (r_id r) \<Longrightarrow> next_slot r \<notin> slots (y_db y)"
    and "y_exec y e = Fail sn err True \<Longrightarrow> \<not> charged accepted y (r_id (sn_run sn))"
    and "y_rec y k = Some (i, x) \<Longrightarrow> \<not> held y i \<and> \<not> charged accepted y i"
  using assms unfolding careful_ok_def by blast+


text \<open>A step that sends nothing, takes no run in hand and reclaims none.\<close>

lemma careful_bystander:
  assumes "sys_ok X y" and "careful_ok accepted y" and "sys_ok X y'" and "evolves (y_db y) (y_db y')"
    and "slots (y_db y') \<subseteq> slots (y_db y) \<union> N"
    and "\<And>r. r \<in> set (job_runs (y_db y)) \<Longrightarrow> held y (r_id r) \<or> charged accepted y (r_id r) \<Longrightarrow> next_slot r \<notin> N"
    and "w_requests (y_world y') = w_requests (y_world y)"
    and "\<And>e. y_exec y' e = y_exec y e \<or> y_exec y' e = Finished"
    and "\<And>k. y_rec y' k = y_rec y k \<or> y_rec y' k = None"
  shows "careful_ok accepted y'"
proof -
  note ok = careful_ok_parts [OF assms(2)]
  have charged: "charged accepted y' i = charged accepted y i" for i by (simp add: charged_def assms(7))
  have held: "held y i" if "held y' i" for i
    using that assms(8) unfolding held_def by (metis phase_run_simps(9) option.distinct(1))
  show ?thesis
  proof (rule careful_move [OF assms(1,3,4,5)])
    show "i \<in> r_id ` set (job_runs (y_db y))" if "held y' i \<or> charged accepted y' i" for i
      using that held held_claimed [OF assms(1)] charged_claimed [OF assms(1)] charged by blast
    show "next_slot r \<notin> slots (y_db y) \<and> next_slot r \<notin> N"
      if "r \<in> set (job_runs (y_db y))" "held y' (r_id r) \<or> charged accepted y' (r_id r)" for r
      using that held charged ok(1) assms(6) by blast
    show "\<not> charged accepted y' (r_id (sn_run sn))" if "y_exec y' e = Fail sn err True" for e sn err
    proof -
      have "y_exec y e = Fail sn err True" using that assms(8) [of e] by auto
      then show ?thesis using ok(2) charged by blast
    qed
    show "\<not> held y' i \<and> \<not> charged accepted y' i" if "y_rec y' k = Some (i, x)" for k i x
      using that assms(9) [of k] ok(3) held charged by (metis option.distinct(1))
  qed
qed

lemma first_attempt_not_next:
  assumes "sys_ok X y" and "r \<in> set (job_runs (y_db y))"
  shows "next_slot r \<notin> {x. snd x = 1}"
  using ledger_ok_rows(3) [OF sys_ok_parts(2) [OF assms(1)] assms(2)] by (simp add: next_slot_def run_ledger_ok_def)

text \<open>The next attempt of a reclaimed run is nobody's successor.\<close>

lemma careful_route:
  assumes "sys_ok X y" and "careful_ok accepted y" and "y_rec y k = Some (run_id, job, a, sub)"
    and "r \<in> set (job_runs (y_db y))" and "held y (r_id r) \<or> charged accepted y (r_id r)"
  shows "next_slot r \<noteq> (job, a + 1)"
proof
  assume "next_slot r = (job, a + 1)"
  moreover obtain r2 where r2: "r2 \<in> set (job_runs (y_db y))" "r_id r2 = run_id" "run_slot r2 = (job, a)"
    using sys_ok_parts(5) [OF assms(1,3)] by (auto simp: rec_ok_def)
  ultimately have "run_slot r = run_slot r2" by (simp add: next_slot_def)
  then have "r = r2" by (rule db_ok_slot_eq [OF sys_ok_parts(1) [OF assms(1)] assms(4) r2(1)])
  with careful_ok_parts(3) [OF assms(2,3)] assms(5) r2(2) show False by simp
qed

lemma careful_claim:
  assumes "sys_ok X y" and "careful_ok accepted y"
    and "claim_run S w t u l i (y_db y) = (RunClaimed, d)"
  shows "careful_ok accepted ((set_db d y)\<lparr>y_exec := (y_exec y)(e := Load i)\<rparr>)"
proof -
  let ?y = "(set_db d y)\<lparr>y_exec := (y_exec y)(e := Load i)\<rparr>"
  note sys = sys_ok_parts [OF assms(1)] and ok = careful_ok_parts [OF assms(2)]
  from assms(3) obtain run where run: "run \<in> set (job_runs (y_db y))" "r_id run = i" "r_status run = JobRunStatus.PENDING"
    unfolding claim_run_Claimed_iff by (auto dest!: find_Some_mem)
  have fresh: "\<not> claimed (y_db y) i" using claimed_not_pending [OF sys(1) run(1,3)] run(2) by simp
  have charged: "charged accepted ?y j = charged accepted y j" for j by (simp add: charged_def)
  have held: "held y j \<or> j = i" if "held ?y j" for j
    using that by (auto simp: held_def split: if_splits)
  have not_charged: "\<not> charged accepted y i"
    using sys(6) fresh request_ok_claimed unfolding charged_def by blast
  show ?thesis
  proof (rule careful_move [OF assms(1) sys_ok_claim [OF assms(1,3)], where N = "{}"])
    show "evolves (y_db y) (y_db ?y)" using tx_claim [OF sys(1,2) assms(3)] by (simp add: tx_ok_def)
    show "slots (y_db ?y) \<subseteq> slots (y_db y) \<union> {}" using slots_claim [OF assms(3)] by simp
    show "j \<in> r_id ` set (job_runs (y_db y))" if "held ?y j \<or> charged accepted ?y j" for j
      using that held [of j] held_claimed [OF assms(1)] charged_claimed [OF assms(1)] charged run by blast
    show "next_slot r \<notin> slots (y_db y) \<and> next_slot r \<notin> {}"
      if r: "r \<in> set (job_runs (y_db y))" and watched: "held ?y (r_id r) \<or> charged accepted ?y (r_id r)" for r
    proof (cases "r_id r = i")
      case True
      then have "r = run" using db_ok_run_eq [OF sys(1) r run(1)] run(2) by simp
      then have "active r" using run(3) by (simp add: active_def)
      then show ?thesis using ledger_ok_rows(3) [OF sys(2) r] by (simp add: run_ledger_ok_def next_slot_def)
    next
      case False
      with watched held [of "r_id r"] charged ok(1) [OF r] show ?thesis by blast
    qed
    show "\<not> charged accepted ?y (r_id (sn_run sn))" if "y_exec ?y e' = Fail sn err True" for e' sn err
      using that ok(2) [of e' sn err] charged by (auto split: if_splits)
    show "\<not> held ?y j \<and> \<not> charged accepted ?y j" if "y_rec ?y k = Some (j, x)" for k j x
    proof -
      have k: "y_rec y k = Some (j, x)" using that by simp
      obtain job a sub where x: "x = (job, a, sub)" by (cases x)
      obtain r where r: "r \<in> set (job_runs (y_db y))" "r_id r = j" "\<not> active r"
        using sys(5) [OF k] by (auto simp: rec_ok_def x)
      have "j \<noteq> i"
      proof
        assume "j = i"
        then have "r = run" using db_ok_run_eq [OF sys(1) r(1) run(1)] r(2) run(2) by simp
        with r(3) run(3) show False by (simp add: active_def)
      qed
      with ok(3) [OF k] held [of j] charged show ?thesis by blast
    qed
  qed
qed


text \<open>A payment call that fails has charged nothing.\<close>

lemma careful_failed_payment:
  assumes "sys_ok X y" and "answers_charges X S c accepted" and "y_exec y e = Pay sn cfg"
    and "exec_step X S c worker i (y_exec y e) (y_world y) = (Fail sn err b, w)"
  shows "\<not> charged accepted (y\<lparr>y_world := w, y_exec := f\<rparr>) (r_id (sn_run sn))"
proof -
  let ?key = "IdempotencyKey_for_run X (r_id (sn_run sn)) (r_attempt (sn_run sn))"
  obtain answer sent where call: "call_client X S c cfg ?key = (answer, sent)" by fastforce
  have "\<exists>exc. and_then answer payment_id_of = Inl exc"
    and w: "w_requests w = w_requests (y_world y) \<or> w_requests w = w_requests (y_world y) @ [request_of X (sn_run sn)]"
    using assms(4) call by (auto simp: assms(3) pay_def split: sum.splits if_splits)
  then have "\<not> accepted ?key"
    using assms(2) call unfolding answers_charges_def by (metis fst_conv sum.distinct(1))
  moreover have "r_id (sn_run sn) \<notin> rq_run_id ` set (w_requests (y_world y))"
    using sys_ok_parts(8) [OF assms(1)] assms(3) may_pay_simps(6) by metis
  then have "rq_run_id q \<noteq> r_id (sn_run sn)" if "q \<in> set (w_requests (y_world y))" for q using that by force
  ultimately show ?thesis using w by (auto simp: charged_def request_of_def)
qed

text \<open>One step of the executor that holds a run.\<close>

lemma careful_execute:
  assumes "sys_ok X y" and "careful_ok accepted y" and "answers_charges X S c accepted"
    and "exec_step X S c worker i (y_exec y e) (y_world y) = (p, w)"
  shows "careful_ok accepted (y\<lparr>y_world := w, y_exec := (y_exec y)(e := p)\<rparr>)"
proof -
  let ?y = "y\<lparr>y_world := w, y_exec := (y_exec y)(e := p)\<rparr>"
  let ?N = "{x. \<exists>sn err. y_exec y e = Fail sn err True \<and> x = next_slot (sn_run sn)}"
  note sys = sys_ok_parts [OF assms(1)] and ok = careful_ok_parts [OF assms(2)]
  note phase = exec_step_phase [OF assms(4)]
  have snaps: "phase_snapshot (y_exec y e) = Some sn \<Longrightarrow> knows (y_db y) (sn_run sn)
      \<and> readable_policy (s_retry_policy (sn_sub sn))" for sn
    using sys(3) [of e] by (simp add: exec_ok_def)
  have held: "held y j" if "held ?y j" for j
  proof -
    obtain e' where "phase_run (y_exec ?y e') = Some j" using \<open>held ?y j\<close> by (auto simp: held_def)
    then have "phase_run (y_exec y e') = Some j" using conjunct1 [OF phase] by (auto split: if_splits)
    then show ?thesis by (auto simp: held_def)
  qed
  have other: "phase_run (y_exec y e) = Some j" if "charged accepted ?y j" "\<not> charged accepted y j" for j
    using that exec_step_requests [OF assms(4)] may_pay_phase_run [of "y_exec y e"]
    by (auto simp: charged_def request_of_def)
  have watch: "held y j \<or> charged accepted y j" if "held ?y j \<or> charged accepted ?y j" for j
    using that held other by (auto simp: held_def)
  show ?thesis
  proof (rule careful_move [OF assms(1) sys_ok_execute [OF assms(1,4)], where N = ?N])
    show "evolves (y_db y) (y_db ?y)"
      using exec_step_tx [OF sys(1,2) snaps assms(4)] by (simp add: tx_ok_def)
    show "slots (y_db ?y) \<subseteq> slots (y_db y) \<union> ?N" using slots_exec_step [OF assms(4)] by simp
    show "j \<in> r_id ` set (job_runs (y_db y))" if "held ?y j \<or> charged accepted ?y j" for j
      using watch [OF that] held_claimed [OF assms(1)] charged_claimed [OF assms(1)] by blast
    show "next_slot r \<notin> slots (y_db y) \<and> next_slot r \<notin> ?N"
      if r: "r \<in> set (job_runs (y_db y))" and w: "held ?y (r_id r) \<or> charged accepted ?y (r_id r)" for r
    proof
      show "next_slot r \<notin> slots (y_db y)" using ok(1) [OF r watch [OF w]] .
      show "next_slot r \<notin> ?N"
      proof
        assume "next_slot r \<in> ?N"
        then obtain sn err where fail: "y_exec y e = Fail sn err True" and eq: "next_slot r = next_slot (sn_run sn)" by blast
        then obtain r2 where r2: "r2 \<in> set (job_runs (y_db y))" "r_id r2 = r_id (sn_run sn)" "run_slot r2 = run_slot (sn_run sn)"
          using snaps by (auto simp: knows_def)
        have "run_slot r = run_slot r2" using eq r2(3) by (simp add: next_slot_def)
        then have same: "r_id r = r_id (sn_run sn)" using db_ok_slot_eq [OF sys(1) r r2(1)] r2(2) by simp
        have "\<not> charged accepted y (r_id r)" using ok(2) [OF fail] same by simp
        moreover have "charged accepted ?y j = charged accepted y j" for j
          using exec_step_requests [OF assms(4)] by (auto simp: charged_def fail)
        ultimately have "held ?y (r_id r)" using w by blast
        moreover have "phase_run p \<noteq> Some (r_id r)"
          using exec_step_next [OF assms(4)] by (auto simp: fail)
        moreover have "phase_run (y_exec y e') \<noteq> Some (r_id r)" if "e' \<noteq> e" for e'
          using sys(4) [of e e' "r_id r"] that by (simp add: fail same)
        ultimately show False by (auto simp: held_def split: if_splits)
      qed
    qed
    show "\<not> held ?y j \<and> \<not> charged accepted ?y j" if "y_rec ?y k = Some (j, x)" for k j x
      using that ok(3) [of k j x] watch [of j] by auto
    show "\<not> charged accepted ?y (r_id (sn_run sn))" if fail: "y_exec ?y e' = Fail sn err True" for e' sn err
    proof (cases "e' = e")
      case False
      with fail have "y_exec y e' = Fail sn err True" by simp
      with ok(2) [OF this] other [of "r_id (sn_run sn)"] sys(4) [OF False] show ?thesis by auto
    next
      case True
      with fail have p: "p = Fail sn err True" by simp
      then obtain cfg where pay: "y_exec y e = Pay sn cfg"
        using exec_step_next [OF assms(4)] by (cases "y_exec y e") auto
      show ?thesis using careful_failed_payment [OF assms(1,3) pay] assms(4) p by simp
    qed
  qed
qed


lemma careful_ok_step:
  assumes "answers_charges X S c accepted" and "sys_ok X y" and "careful_ok accepted y"
    and "careful_step X S c name accepted y y'"
  shows "careful_ok accepted y'"
proof -
  have move: "sys_step X S c name y y'"
    and care: "\<And>k i x. y_rec y k = None \<Longrightarrow> y_rec y' k = Some (i, x) \<Longrightarrow> \<not> held y i \<and> \<not> charged accepted y i"
    using assms(4) unfolding careful_step_def by blast+
  note sys = sys_ok_parts [OF assms(2)]
  note sys' = sys_ok_step [OF assms(2) move]
  note by_tx = careful_bystander [OF assms(2,3) sys' sys_step_evolves [OF assms(2) move], where N = "{}"]
  from move show ?thesis
  proof cases
    case (clock t)
    then show ?thesis by (intro by_tx) simp_all
  next
    case claim
    then show ?thesis using careful_claim [OF assms(2,3)] by simp
  next
    case execute
    then show ?thesis using careful_execute [OF assms(2,3,1)] by simp
  next
    case crash
    then show ?thesis by (intro by_tx) simp_all
  next
    case (reclaim k now run_id job_id attempt sub d)
    have held: "held y' = held y" and charged: "charged accepted y' = charged accepted y"
      by (auto simp: held_def charged_def reclaim(1) fun_eq_iff)
    note ok = careful_ok_parts [OF assms(3)]
    show ?thesis
    proof (rule careful_move [OF assms(2) sys' sys_step_evolves [OF assms(2) move], where N = "{}"])
      show "\<not> held y' i \<and> \<not> charged accepted y' i" if rec: "y_rec y' k' = Some (i, x)" for k' i x
      proof (cases "k' = k")
        case True
        with care [of k i x] rec reclaim(2) show ?thesis by (simp add: held charged)
      next
        case False
        with rec have "y_rec y k' = Some (i, x)" by (simp add: reclaim(1))
        from ok(3) [OF this] show ?thesis by (simp add: held charged)
      qed
      show "i \<in> r_id ` set (job_runs (y_db y))" if "held y' i \<or> charged accepted y' i" for i
        using that held_claimed [OF assms(2)] charged_claimed [OF assms(2)] unfolding held charged by blast
      show "\<not> charged accepted y' (r_id (sn_run sn))" if "y_exec y' e = Fail sn err True" for e sn err
      proof -
        have "y_exec y e = Fail sn err True" using that by (simp add: reclaim(1))
        from ok(2) [OF this] show ?thesis by (simp add: charged)
      qed
      show "slots (y_db y') \<subseteq> slots (y_db y) \<union> {}" using slots_reclaim [OF sys(1) reclaim(3)] by (simp add: reclaim(1))
      show "next_slot r \<notin> slots (y_db y) \<and> next_slot r \<notin> {}"
        if "r \<in> set (job_runs (y_db y))" "held y' (r_id r) \<or> charged accepted y' (r_id r)" for r
        using ok(1) that unfolding held charged by blast
    qed
  next
    case (route k run_id job_id attempt sub i d)
    show ?thesis
      by (rule careful_bystander [OF assms(2,3) sys' sys_step_evolves [OF assms(2) move], where N = "{(job_id, attempt + 1)}"])
        (use slots_route [OF route(3)] careful_route [OF assms(2,3) route(2)] in \<open>auto simp: route(1)\<close>)
  next
    case give_up
    then show ?thesis by (intro by_tx) simp_all
  next
    case orphan
    then show ?thesis by (intro by_tx) (simp_all add: slots_scan evaluate_dag_job_def)
  next
    case (schedule epoch turn sub d)
    show ?thesis
      by (rule careful_bystander [OF assms(2,3) sys' sys_step_evolves [OF assms(2) move], where N = "{x. snd x = 1}"])
        (use slots_create_job [OF sys(1) schedule(2)] first_attempt_not_next [OF assms(2)] in \<open>simp_all add: schedule(1)\<close>)
  next
    case api_create
    then show ?thesis by (intro by_tx) (simp_all add: slots_api)
  next
    case api_update
    then show ?thesis by (intro by_tx) (simp_all add: slots_api)
  next
    case api_delete
    then show ?thesis by (intro by_tx) (simp_all add: slots_api)
  next
    case api_resume
    then show ?thesis by (intro by_tx) (simp_all add: slots_api)
  next
    case api_resolve
    then show ?thesis by (intro by_tx) (simp_all add: slots_api)
  qed
qed


section \<open>Paid at most once\<close>

lemma careful_reachable:
  assumes "answers_charges X S c accepted" and "sys_start y" and "(careful_step X S c name accepted)\<^sup>*\<^sup>* y z"
  shows "sys_ok X z \<and> careful_ok accepted z"
proof -
  have start: "sys_ok X y \<and> careful_ok accepted y"
    using sys_ok_start [OF assms(2)] assms(2)
    by (auto simp: sys_start_def careful_ok_def held_def charged_def empty_db_def)
  have step: "sys_ok X t \<and> careful_ok accepted t"
    if "sys_ok X s \<and> careful_ok accepted s" and "careful_step X S c name accepted s t" for s t
    using that careful_ok_step [OF assms(1)] sys_ok_step unfolding careful_step_def by blast
  from assms(3) show ?thesis by (induction rule: rtranclp_induct) (use start step in blast)+
qed

lemma charged_once:
  assumes "sys_start y" and "(careful_step X S c name accepted)\<^sup>*\<^sup>* y z"
    and "answers_charges X S c accepted"
  shows "distinct (map rq_job_id (filter (\<lambda>q. accepted (rq_key q)) (w_requests (y_world z))))"
proof -
  let ?qs = "w_requests (y_world z)"
  have z: "sys_ok X z" "careful_ok accepted z" using careful_reachable [OF assms(3,1,2)] by simp_all
  note ok = sys_ok_parts [OF z(1)]
  have last: "rq_attempt q' \<le> rq_attempt q"
    if q: "q \<in> set ?qs" "accepted (rq_key q)" and q': "q' \<in> set ?qs" and same: "rq_job_id q' = rq_job_id q" for q q'
  proof (rule ccontr)
    assume "\<not> rq_attempt q' \<le> rq_attempt q"
    obtain r where r: "r \<in> set (job_runs (y_db z))" "r_id r = rq_run_id q" "run_slot r = (rq_job_id q, rq_attempt q)"
      using ok(6) [OF q(1)] by (auto simp: request_ok_def)
    obtain r' where r': "r' \<in> set (job_runs (y_db z))" "run_slot r' = (rq_job_id q', rq_attempt q')"
      using ok(6) [OF q'] by (auto simp: request_ok_def)
    have "charged accepted z (r_id r)" using q r(2) by (auto simp: charged_def)
    then have "next_slot r \<notin> slots (y_db z)" using careful_ok_parts(1) [OF z(2) r(1)] by blast
    moreover have "1 \<le> r_attempt r" using ledger_ok_rows(3) [OF ok(2) r(1)] by (simp add: run_ledger_ok_def)
    then have "(r_job_id r', r_attempt r + 1) \<in> slots (y_db z)"
      using attempts_contiguous [OF ok(2) r'(1), of "r_attempt r + 1"] r(3) r'(2) \<open>\<not> rq_attempt q' \<le> rq_attempt q\<close>
      by simp
    ultimately show False using r(3) r'(2) same by (simp add: next_slot_def)
  qed
  have req: "\<forall>q \<in> set ?qs. request_ok X (y_db z) q" using ok(6) by blast
  have "distinct (map (\<lambda>q. (rq_job_id q, rq_attempt q)) ?qs)"
    using requests_distinct [OF ok(1,7) req] .
  then have inj: "inj_on (\<lambda>q. (rq_job_id q, rq_attempt q)) (set ?qs)" and dist: "distinct ?qs"
    by (simp_all add: distinct_map)
  have "inj_on rq_job_id (set (filter (\<lambda>q. accepted (rq_key q)) ?qs))"
  proof (rule inj_onI)
    fix a b
    assume a: "a \<in> set (filter (\<lambda>q. accepted (rq_key q)) ?qs)" and b: "b \<in> set (filter (\<lambda>q. accepted (rq_key q)) ?qs)"
      and job: "rq_job_id a = rq_job_id b"
    have "rq_attempt a = rq_attempt b" using last [of a b] last [of b a] a b job by fastforce
    then show "a = b" using inj_onD [OF inj, of a b] a b job by simp
  qed
  then show ?thesis using dist by (simp add: distinct_map)
qed


text \<open>
  C2: recovery is the only way to pay a job twice. Let the bank charge the keys in \<open>accepted\<close>, and
  answer every request with such a key with the payment it made. Then in every run of the system
  in which recovery reclaims no run that an executor still holds or that the bank has charged,
  the charged requests all belong to different jobs, whatever crashes, retries, overlaps and API
  calls happen.
\<close>

theorem paid_once_if_recovery_careful:
  assumes "sys_start y" and "(careful_step X S c name accepted)\<^sup>*\<^sup>* y z"
    and "answers_charges X S c accepted"
  shows "distinct (map rq_job_id (filter (\<lambda>q. accepted (rq_key q)) (w_requests (y_world z))))"
  using assms by (rule charged_once)


text \<open>A run with a careful recovery: the first executor dies before it has done anything, recovery
  queues the next attempt, and that one is charged, the only one.\<close>

abbreviation rent_careful :: "sys \<Rightarrow> sys \<Rightarrow> bool" where
  "rent_careful \<equiv> careful_step example_ext default_settings paying_client (\<lambda>e. ''w'') (\<lambda>key. True)"

lemma careful_quiet: "sys_step X S c name y y' \<Longrightarrow> y_rec y' = y_rec y \<Longrightarrow> careful_step X S c name accepted y y'"
  by (auto simp: careful_step_def)

lemma rent_careful_run:
  "\<exists>z. rent_careful\<^sup>*\<^sup>* (rent_sys (empty_db 0) [] Finished None) z \<and> w_requests (y_world z) = [rent_request 3 2]"
proof -
  let ?r1 = "claimed_run (new_run 1 5 1 None 0)" and ?r2 = "claimed_run (new_run 3 5 2 None 0)"
  let ?o = "reclaimed 400000000 ?r1" and ?n = "new_run 3 5 2 None 0"
  let ?sub = "rent_sub\<lparr>s_next_fire_at := Some 120000000\<rparr>"
  have s1: "rent_careful (rent_sys (empty_db 0) [] Finished None) (rent_sys ((empty_db 0)\<lparr>subscriptions := [rent_sub]\<rparr>) [] Finished None)"
    by (rule careful_quiet [OF rent_create_step]) (simp add: rent_sys_def)
  have s2: "rent_careful (rent_sys ((empty_db 0)\<lparr>subscriptions := [rent_sub]\<rparr>) [] Finished None)
      (rent_sys (rent_db [new_run 1 5 1 None 0]) [] Finished None)"
    by (rule careful_quiet [OF rent_schedule_step]) (simp add: rent_sys_def)
  have s3: "rent_careful (rent_sys (rent_db [new_run 1 5 1 None 0]) [] Finished None) (rent_sys (rent_db [?r1]) [] (Load 1) None)"
    using careful_quiet [OF rent_claims [of "new_run 1 5 1 None 0" 1 "[]" "[]"]] by (simp add: rent_sys_def)
  have s4: "rent_careful (rent_sys (rent_db [?r1]) [] (Load 1) None) (rent_sys (rent_db [?r1]) [] Finished None)"
    by (rule careful_quiet [OF rent_crash_step]) (simp add: rent_sys_def)
  have s5: "rent_careful (rent_sys (rent_db [?r1]) [] Finished None) (rent_sys (rent_db [?o]) [] Finished (Some (1, 5, 1, ?sub)))"
    using rent_reclaim_step by (simp add: careful_step_def held_def charged_def rent_sys_def)
  have s6: "rent_careful (rent_sys (rent_db [?o]) [] Finished (Some (1, 5, 1, ?sub))) (rent_sys (rent_db [?o, ?n]) [] Finished None)"
    using rent_route_step by (simp add: careful_step_def rent_sys_def)
  have s7: "rent_careful (rent_sys (rent_db [?o, ?n]) [] Finished None) (rent_sys (rent_db [?o, ?r2]) [] (Load 3) None)"
    using careful_quiet [OF rent_claims [of ?n 3 "[?o]" "[]"]] by (simp add: rent_sys_def claimed_run_def)
  have s8: "rent_careful\<^sup>*\<^sup>* (rent_sys (empty_db 0) [] Finished None) (rent_sys (rent_db [?o, ?r2]) [] (Load 3) None)"
    using s1 s2 s3 s4 s5 s6 s7 by (meson converse_rtranclp_into_rtranclp rtranclp.rtrancl_refl)
  have "\<exists>sn. sn_run sn = ?r2 \<and> rent_careful\<^sup>*\<^sup>* (rent_sys (rent_db ([?o] @ [?r2])) [] (Load 3) None)
      (rent_sys (rent_db ([?o] @ [?r2])) ([] @ [request_of example_ext ?r2]) (Persist sn (JStr ''p1'')) None)"
    by (rule rent_pays, rule careful_quiet, erule rent_exec_step) (simp_all add: claimed_run_def)
  then obtain sn where s9: "rent_careful\<^sup>*\<^sup>* (rent_sys (rent_db [?o, ?r2]) [] (Load 3) None)
      (rent_sys (rent_db [?o, ?r2]) [rent_request 3 2] (Persist sn (JStr ''p1'')) None)"
    by (auto simp: rent_request_def)
  show ?thesis by (rule exI, rule conjI, rule rtranclp_trans [OF s8 s9]) (simp add: rent_sys_def)
qed

theorem paid_once_if_recovery_careful_witness:
  "\<exists>z. rent_careful\<^sup>*\<^sup>* (rent_sys (empty_db 0) [] Finished None) z
     \<and> w_requests (y_world z) = [rent_request 3 2]
     \<and> distinct (map rq_job_id (filter (\<lambda>q. True) (w_requests (y_world z))))"
proof -
  obtain z where z: "rent_careful\<^sup>*\<^sup>* (rent_sys (empty_db 0) [] Finished None) z"
    "w_requests (y_world z) = [rent_request 3 2]"
    using rent_careful_run by (elim exE conjE)
  have "answers_charges example_ext default_settings paying_client (\<lambda>key. True)"
    by (simp add: answers_charges_def call_client_def paying_client_def payment_id_of_def paid_answer_def)
  from paid_once_if_recovery_careful [OF rent_start z(1) this] z show ?thesis by blast
qed


section \<open>Every waiting run can be paid\<close>

text \<open>An idempotency record belongs to a run that has been claimed.\<close>

definition keys_claimed :: "db \<Rightarrow> bool" where
  "keys_claimed d \<longleftrightarrow> (\<forall>k \<in> set (idempotency_keys d). claimed d (k_job_run_id k))"

lemma keys_claimedI:
  assumes "keys_claimed d" and "evolves d d'"
    and "\<And>k. k \<in> set (idempotency_keys d') \<Longrightarrow> k \<in> set (idempotency_keys d) \<or> claimed d (k_job_run_id k)"
  shows "keys_claimed d'"
  using assms claimed_evolves unfolding keys_claimed_def by blast

lemma keys_insert:
  "insert_dlq row d = Inr d' \<Longrightarrow> idempotency_keys d' = idempotency_keys d"
  "insert_run r d = Inr (b, d') \<Longrightarrow> idempotency_keys d' = idempotency_keys d"
  by (auto simp: insert_dlq_Inr_iff insert_run_Inr_iff split: if_splits)

lemma keys_count_failure [simp]: "idempotency_keys (count_failure now i d) = idempotency_keys d"
  by (simp add: count_failure_def Let_def split: option.split)

lemma keys_handle_failure:
  assumes "handle_failure worker i run sub err b d = Inr d'"
  shows "idempotency_keys d' = idempotency_keys d"
proof -
  from assms consider "move_to_dlq worker (in_dlq_now i) (in_dlq_id i) run sub err d = Inr d'"
    | t where "schedule_retry (in_now i) (in_run_id i) t run err d = Inr d'"
    by (auto simp: handle_failure_def and_then_Inr_iff split: if_splits option.splits)
  then show ?thesis
    by cases (auto simp: move_to_dlq_def schedule_retry_def and_then_Inr_iff dest!: keys_insert)
qed

lemma keys_route: "route_reclaimed i run_id job a sub d = Inr d' \<Longrightarrow> idempotency_keys d' = idempotency_keys d"
  by (auto simp: route_reclaimed_def recovery_move_to_dlq_def and_then_Inr_iff split: if_splits dest!: keys_insert)

lemma keys_scan: "scan_dependencies now job deps d = Inr d' \<Longrightarrow> idempotency_keys d' = idempotency_keys d"
  by (induction deps) (auto simp: and_then_Inr_iff cancel_downstream_def split: option.splits)

lemma keys_create_job:
  assumes "db_ok d" and "create_job_for_subscription X epoch i sub d = Inr d'"
  shows "idempotency_keys d' = idempotency_keys d"
proof (cases "s_next_fire_at sub")
  case None
  with assms(2) show ?thesis by (simp add: create_job_for_subscription_def)
next
  case (Some f)
  show ?thesis unfolding create_job_Inr [OF assms(1) Some assms(2)] by simp
qed

lemma keys_api:
  "create_subscription X now i body d = Inr (sub, d') \<Longrightarrow> idempotency_keys d' = idempotency_keys d"
  "update_subscription X now t i patch d = Inr (sub, d') \<Longrightarrow> idempotency_keys d' = idempotency_keys d"
  "delete_subscription i d = Inr (u, d') \<Longrightarrow> idempotency_keys d' = idempotency_keys d"
  "resume_subscription X now i d = Inr (sub, d') \<Longrightarrow> idempotency_keys d' = idempotency_keys d"
  "resolve_dlq_entry now i who d = Inr (entry, d') \<Longrightarrow> idempotency_keys d' = idempotency_keys d"
  by (auto simp: create_subscription_def update_subscription_def delete_subscription_def resume_subscription_def
      resolve_dlq_entry_def and_then_Inr_iff Let_def unhandled_Inr_iff insert_subscription_Inr_iff
      split: if_splits option.splits)

lemma keys_exec_step:
  assumes "exec_step X S c worker i p w = (p', w')" and "k \<in> set (idempotency_keys (w_db w'))"
    and "k \<notin> set (idempotency_keys (w_db w))"
  shows "phase_run p = Some (k_job_run_id k)"
  using exec_step_db [OF assms(1)] assms(2,3)
  by (auto simp: mark_dag_cancelled_def persist_success_Inr_iff idempotency_row_def dest: keys_handle_failure
      split: if_splits)

lemma keys_claimed_step:
  assumes "sys_ok X y" and "keys_claimed (y_db y)" and "sys_step X S c name y y'"
  shows "keys_claimed (y_db y')"
proof (rule keys_claimedI [OF assms(2) sys_step_evolves [OF assms(1,3)]])
  fix k
  assume k: "k \<in> set (idempotency_keys (y_db y'))"
  note sys = sys_ok_parts [OF assms(1)]
  show "k \<in> set (idempotency_keys (y_db y)) \<or> claimed (y_db y) (k_job_run_id k)"
    using assms(3)
  proof cases
    case execute
    with k keys_exec_step [OF execute(2)] sys(3) show ?thesis by (auto simp: exec_ok_def)
  qed (use k sys(1) in \<open>auto simp: claim_run_Claimed_iff reclaim_run_iff keys_route keys_scan evaluate_dag_job_def
      keys_create_job keys_api\<close>)
qed

interpretation keyed: inductive_invariant sys_start "sys_step X S c name" "\<lambda>y. sys_ok X y \<and> keys_claimed (y_db y)"
  for X S c name
proof unfold_locales
  show "sys_ok X y \<and> keys_claimed (y_db y)" if "sys_start y" for y
    using that sys_ok_start by (auto simp: sys_start_def keys_claimed_def empty_db_def)
  show "sys_ok X y' \<and> keys_claimed (y_db y')"
    if "sys_ok X y \<and> keys_claimed (y_db y)" and "sys_step X S c name y y'" for y y'
    using that sys_ok_step keys_claimed_step by blast
qed


definition claim_fields :: "string \<Rightarrow> datetime \<Rightarrow> datetime \<Rightarrow> JobRun \<Rightarrow> JobRun" where
  "claim_fields worker expiry start r = r\<lparr>r_status := JobRunStatus.RUNNING, r_worker_id := Some worker,
     r_lock_expires_at := Some expiry, r_started_at := Some start\<rparr>"

lemma claim_fields_simps [simp]:
  "r_id (claim_fields w x u r) = r_id r"
  "r_job_id (claim_fields w x u r) = r_job_id r"
  "r_attempt (claim_fields w x u r) = r_attempt r"
  by (simp_all add: claim_fields_def)

text \<open>A PENDING run that nobody has locked is claimed, and its rows are then loaded.\<close>

lemma waiting_run_claimed:
  assumes "db_ok d" and "r \<in> set (job_runs d)" and "r_status r = JobRunStatus.PENDING"
  obtains d' j s where "claim_run S w 0 u (\<lambda>_. False) (r_id r) d = (RunClaimed, d')"
    and "load_snapshot (r_id r) d' = Some \<lparr>sn_run = claim_fields w (EXECUTOR_LOCK_TIMEOUT_S S * 1000000) u r,
           sn_job = j, sn_sub = s\<rparr>"
    and "j \<in> set (scheduled_jobs d)" and "s \<in> set (subscriptions d)"
    and "claim_fields w (EXECUTOR_LOCK_TIMEOUT_S S * 1000000) u r \<in> set (job_runs d')"
    and "idempotency_keys d' = idempotency_keys d"
proof -
  let ?f = "claim_fields w (EXECUTOR_LOCK_TIMEOUT_S S * 1000000) u"
  let ?P = "\<lambda>x. r_id x = r_id r \<and> r_status x = JobRunStatus.PENDING \<and> \<not> False"
  let ?d = "update_runs (\<lambda>x. r_id x = r_id r) ?f d"
  obtain x where found: "find ?P (job_runs d) = Some x"
    using assms(2,3) by (cases "find ?P (job_runs d)") (auto simp: find_None_iff)
  then have "x = r" using find_Some_mem [OF found] db_ok_run_eq [OF assms(1) _ assms(2)] by blast
  obtain j where j: "get_by j_id (r_job_id r) (scheduled_jobs d) = Some j"
    using db_ok_run_job [OF assms(1,2)] by (cases "get_by j_id (r_job_id r) (scheduled_jobs d)") (auto simp: get_by_None_iff)
  have jm: "j \<in> set (scheduled_jobs d)" using j by (auto dest: get_by_Some_in)
  obtain s where s: "get_by s_id (j_subscription_id j) (subscriptions d) = Some s"
    using db_ok_job_sub [OF assms(1) jm]
    by (cases "get_by s_id (j_subscription_id j) (subscriptions d)") (auto simp: get_by_None_iff)
  have sm: "s \<in> set (subscriptions d)" using s by (auto dest: get_by_Some_in)
  have claim: "claim_run S w 0 u (\<lambda>_. False) (r_id r) d = (RunClaimed, ?d)"
    using found \<open>x = r\<close> j s by (simp add: claim_run_def claim_fields_def [abs_def])
  have mem: "?f r \<in> set (job_runs ?d)" using assms(2) by (simp add: in_update_whereI)
  have "distinct (map r_id (job_runs ?d))" using db_ok_claim_run [OF assms(1) claim] by (simp add: db_ok_defs)
  from get_by_Some_iff [OF this] mem have "get_by r_id (r_id r) (job_runs ?d) = Some (?f r)" by simp
  then have "load_snapshot (r_id r) ?d = Some \<lparr>sn_run = ?f r, sn_job = j, sn_sub = s\<rparr>"
    using j s by (simp add: load_snapshot_def)
  then show ?thesis using that [OF claim _ jm sm mem] by simp
qed


lemma mark_succeeded_marks:
  assumes "run \<in> set (job_runs d)"
  shows "\<exists>r \<in> set (job_runs (mark_succeeded now run sub pid (d\<lparr>idempotency_keys := ks\<rparr>))).
      r_id r = r_id run \<and> r_status r = JobRunStatus.SUCCEEDED \<and> r_bunq_payment_id r = pid"
    and "j \<in> set (scheduled_jobs (mark_succeeded now run sub pid (d\<lparr>idempotency_keys := ks\<rparr>))) \<Longrightarrow>
      j_id j = r_job_id run \<Longrightarrow> j_status j = JobStatus.DONE"
proof -
  let ?f = "\<lambda>r. r\<lparr>r_status := JobRunStatus.SUCCEEDED, r_bunq_payment_id := pid, r_finished_at := Some now,
       r_lock_expires_at := None\<rparr>"
  have "?f run \<in> set (update_where (\<lambda>r. r_id r = r_id run) ?f (job_runs d))"
    by (rule in_update_whereI [OF assms]) simp
  then show "\<exists>r \<in> set (job_runs (mark_succeeded now run sub pid (d\<lparr>idempotency_keys := ks\<rparr>))).
      r_id r = r_id run \<and> r_status r = JobRunStatus.SUCCEEDED \<and> r_bunq_payment_id r = pid"
    by (intro bexI [of _ "?f run"]) (simp_all add: mark_succeeded_def)
qed (auto simp: mark_succeeded_def set_update_where)

lemma no_key_found:
  assumes "(i, a) \<notin> key_slot ` set (idempotency_keys d)"
  shows "find_idempotency_key i a d = Inr None"
proof -
  have "k_job_run_id k \<noteq> i \<or> k_attempt k \<noteq> a" if "k \<in> set (idempotency_keys d)" for k
    using assms that by force
  then have "filter (\<lambda>k. k_job_run_id k = i \<and> k_attempt k = a) (idempotency_keys d) = []"
    by (simp add: filter_empty_conv)
  then show ?thesis by (simp add: find_idempotency_key_def)
qed




end
