(* ===== verification/Timely.thy ===== *)
theory Timely
  imports Delivery
begin

text \<open>
  What the lock timeout buys. \<open>Delivery\<close> shows that a job is charged once when recovery reclaims no
  run that is held or charged. Here that is a consequence of timing: the steps of the system get a
  clock and each executor the moment of its claim; clocks may differ by a bound; and if every
  executor is done with a run within the lock timeout less twice that bound, and does not die
  between the bank's answer and the transaction that records it, then recovery is careful, no job
  is charged twice, and every charge is recorded.
\<close>

section \<open>Runs in execution\<close>

definition running :: "db \<Rightarrow> JobRun set" where
  "running d = {r \<in> set (job_runs d). r_status r = JobRunStatus.RUNNING}"

text \<open>Only a claim sets a run RUNNING or changes one that is: every other transaction ends it or leaves
  it alone.\<close>

lemma running_updates:
  "running (update_subscriptions p f d) = running d"
  "running (update_jobs q g d) = running d"
  "(\<And>r. w r \<Longrightarrow> r_status (h r) \<noteq> JobRunStatus.RUNNING) \<Longrightarrow> running (update_runs w h d) \<subseteq> running d"
  by (auto simp: running_def set_update_where)

lemma running_frame:
  "job_runs d' = job_runs d \<Longrightarrow> running d' = running d"
  by (simp add: running_def)

lemma running_count_failure [simp]: "running (count_failure now i d) = running d"
  by (simp add: count_failure_def Let_def running_updates split: option.split)

lemma running_insert:
  "insert_dlq row d = Inr d' \<Longrightarrow> running d' = running d"
  "insert_run (new_run i job n t now) d = Inr (b, d') \<Longrightarrow> running d' \<subseteq> running d"
  by (auto simp: insert_dlq_Inr_iff insert_run_Inr_iff running_def split: if_splits)

lemma running_mark_succeeded: "running (mark_succeeded now run sub pid d) \<subseteq> running d"
  by (auto simp: mark_succeeded_def running_def set_update_where)

lemma running_handle_failure:
  assumes "handle_failure worker i run sub err b d = Inr d'"
  shows "running d' \<subseteq> running d"
proof -
  let ?ended = "\<lambda>st err. update_runs (\<lambda>r. r_id r = r_id run) (\<lambda>r. r\<lparr>r_status := st, r_error_message := Some err,
      r_finished_at := Some (if st = JobRunStatus.DEAD then in_dlq_now i else in_now i), r_lock_expires_at := None\<rparr>) d"
  have ended: "running (?ended st e) \<subseteq> running d" if "st \<noteq> JobRunStatus.RUNNING" for st e
    using that by (intro running_updates(3)) simp
  from assms consider "move_to_dlq worker (in_dlq_now i) (in_dlq_id i) run sub err d = Inr d'"
    | t where "schedule_retry (in_now i) (in_run_id i) t run err d = Inr d'"
    by (auto simp: handle_failure_def and_then_Inr_iff split: if_splits option.splits)
  then show ?thesis
  proof cases
    case 1
    then show ?thesis using ended [of JobRunStatus.DEAD "truncate_error err"]
      by (auto simp: move_to_dlq_def dest!: running_insert(1))
  next
    case (2 t)
    then show ?thesis using ended [of JobRunStatus.FAILED "truncate_error err"]
      by (fastforce simp: schedule_retry_def and_then_Inr_iff dest!: running_insert(2))
  qed
qed

lemma running_exec_step:
  assumes "exec_step X S c worker i p w = (p', w')"
  shows "running (w_db w') \<subseteq> running (w_db w)"
  using exec_step_db [OF assms]
proof (elim disjE exE conjE)
  fix sn v b
  assume "persist_success X (in_now i) (sn_run sn) (sn_sub sn) v (w_db w) = Inr (b, w_db w')"
  then show ?thesis using running_mark_succeeded by (fastforce simp: persist_success_Inr_iff running_def split: if_splits)
qed (auto simp: mark_dag_cancelled_def running_updates running_handle_failure
    intro!: subset_trans [OF running_updates(3)])

lemma running_route:
  assumes "route_reclaimed i run_id job a sub d = Inr d'"
  shows "running d' \<subseteq> running d"
proof -
  have ended: "running (update_runs (\<lambda>r. r_id r = run_id) (\<lambda>r. r\<lparr>r_status := JobRunStatus.DEAD, r_error_message := m,
      r_finished_at := Some t, r_lock_expires_at := None, r_worker_id := None\<rparr>) d) \<subseteq> running d" for m t
    by (intro running_updates(3)) simp
  from assms consider (dlq) now k reason where "recovery_move_to_dlq now k run_id job a sub reason d = Inr d'"
    | (retry) b where "insert_run (new_run (vi_run_id i) job (a + 1) None (db_now d)) d = Inr (b, d')"
    by (auto simp: route_reclaimed_def and_then_Inr_iff split: if_splits)
  then show ?thesis
  proof cases
    case dlq
    then show ?thesis using ended unfolding recovery_move_to_dlq_def by (simp add: running_insert(1))
  qed (rule running_insert(2))
qed

lemma running_cancel_downstream: "running (cancel_downstream now job dep d) \<subseteq> running d"
  by (auto simp: cancel_downstream_def running_def set_update_where)

lemma running_scan: "scan_dependencies now job deps d = Inr d' \<Longrightarrow> running d' \<subseteq> running d"
  by (induction deps)
    (auto simp: and_then_Inr_iff split: option.splits dest: subsetD [OF running_cancel_downstream] subsetD)

lemma running_reclaim:
  "db_ok d \<Longrightarrow> reclaim_run now i d = Inr (Some (job, a, sub), d') \<Longrightarrow> running d' \<subseteq> running d"
  by (auto simp: reclaim_run_iff running_def set_update_where)

lemma running_create_job:
  assumes "db_ok d" and "create_job_for_subscription X epoch i sub d = Inr d'"
  shows "running d' \<subseteq> running d"
proof (cases "s_next_fire_at sub")
  case None
  with assms(2) show ?thesis by (simp add: create_job_for_subscription_def)
next
  case (Some f)
  show ?thesis unfolding create_job_Inr [OF assms(1) Some assms(2)] by (auto simp: running_def added_runs_def)
qed

lemma running_api:
  "create_subscription X now i body d = Inr (sub, d') \<Longrightarrow> running d' = running d"
  "update_subscription X now t i patch d = Inr (sub, d') \<Longrightarrow> running d' = running d"
  "delete_subscription i d = Inr (u, d') \<Longrightarrow> running d' = running d"
  "resume_subscription X now i d = Inr (sub, d') \<Longrightarrow> running d' = running d"
  "resolve_dlq_entry now i who d = Inr (entry, d') \<Longrightarrow> running d' = running d"
  by (auto simp: create_subscription_def update_subscription_def delete_subscription_def resume_subscription_def
      resolve_dlq_entry_def and_then_Inr_iff Let_def unhandled_Inr_iff insert_subscription_Inr_iff running_def
      split: if_splits option.splits)

lemma running_step:
  assumes "sys_ok X y" and "sys_step X S c name y y'" and "y_exec y' = y_exec y"
  shows "running (y_db y') \<subseteq> running (y_db y)"
  using assms(2)
proof cases
  case (claim e t_lock t_start locked run_id d)
  then have "y_exec y e = Load run_id" using assms(3) by (metis fun_upd_same sys.select_convs(2) sys.surjective sys.update_convs(2))
  with claim(2) show ?thesis by (simp add: idle_def)
next
  case execute
  then show ?thesis using running_exec_step by simp
next
  case reclaim
  then show ?thesis using running_reclaim [OF sys_ok_parts(1) [OF assms(1)]] by simp
next
  case route
  then show ?thesis using running_route by simp
next
  case orphan
  then show ?thesis using running_scan by (simp add: evaluate_dag_job_def)
next
  case schedule
  then show ?thesis using running_create_job [OF sys_ok_parts(1) [OF assms(1)]] by simp
next
  case clock
  then show ?thesis by (simp add: running_def)
next
  case api_create
  with running_api(1) show ?thesis by fastforce
next
  case api_update
  with running_api(2) show ?thesis by fastforce
next
  case api_delete
  with running_api(3) show ?thesis by fastforce
next
  case api_resume
  with running_api(4) show ?thesis by fastforce
next
  case api_resolve
  with running_api(5) show ?thesis by fastforce
qed simp_all

section \<open>Keys are final\<close>

text \<open>An idempotency record carries the key of its run and attempt, and its run is over.\<close>

definition keys_final :: "ext \<Rightarrow> db \<Rightarrow> bool" where
  "keys_final X d \<longleftrightarrow> (\<forall>k \<in> set (idempotency_keys d).
     k_key k = IdempotencyKey_for_run X (k_job_run_id k) (k_attempt k)
     \<and> (\<exists>r \<in> set (job_runs d). r_id r = k_job_run_id k \<and> \<not> active r))"

lemma keys_finalI:
  assumes "keys_final X d" and "evolves d d'"
    and "\<And>k. k \<in> set (idempotency_keys d') \<Longrightarrow> k \<in> set (idempotency_keys d)
      \<or> k_key k = IdempotencyKey_for_run X (k_job_run_id k) (k_attempt k)
        \<and> (\<exists>r \<in> set (job_runs d'). r_id r = k_job_run_id k \<and> \<not> active r)"
  shows "keys_final X d'"
  unfolding keys_final_def
proof
  fix k
  assume "k \<in> set (idempotency_keys d')"
  from assms(3) [OF this] show "k_key k = IdempotencyKey_for_run X (k_job_run_id k) (k_attempt k)
      \<and> (\<exists>r \<in> set (job_runs d'). r_id r = k_job_run_id k \<and> \<not> active r)"
  proof
    assume "k \<in> set (idempotency_keys d)"
    then obtain r where r: "r \<in> set (job_runs d)" "r_id r = k_job_run_id k" "\<not> active r"
      and key: "k_key k = IdempotencyKey_for_run X (k_job_run_id k) (k_attempt k)"
      using assms(1) by (auto simp: keys_final_def)
    obtain r' where "r' \<in> set (job_runs d')" "run_evolves r r'" using assms(2) r(1) by (auto simp: evolves_def)
    with r key show ?thesis by (auto simp: run_evolves_def)
  qed
qed

lemma keys_final_exec:
  assumes "exec_step X S c worker i p w = (p', w')" and "k \<in> set (idempotency_keys (w_db w'))"
    and "k \<notin> set (idempotency_keys (w_db w))"
  shows "k_key k = IdempotencyKey_for_run X (k_job_run_id k) (k_attempt k)
    \<and> (\<exists>r \<in> set (job_runs (w_db w')). r_id r = k_job_run_id k \<and> \<not> active r)"
  using exec_step_db [OF assms(1)]
proof (elim disjE exE conjE)
  fix sn v b
  assume p: "persist_success X (in_now i) (sn_run sn) (sn_sub sn) v (w_db w) = Inr (b, w_db w')"
  then obtain pid where k: "k = idempotency_row X (in_now i) (sn_run sn) pid"
    and run: "r_id (sn_run sn) \<in> r_id ` set (job_runs (w_db w))"
    and d': "w_db w' = mark_succeeded (in_now i) (sn_run sn) (sn_sub sn) pid
        ((w_db w)\<lparr>idempotency_keys := idempotency_keys (w_db w) @ [k]\<rparr>)"
    using assms(2,3) by (auto simp: persist_success_Inr_iff split: if_splits)
  let ?f = "\<lambda>r. r\<lparr>r_status := JobRunStatus.SUCCEEDED, r_bunq_payment_id := pid, r_finished_at := Some (in_now i),
       r_lock_expires_at := None\<rparr>"
  obtain r where r: "r \<in> set (job_runs (w_db w))" "r_id r = r_id (sn_run sn)" using run by auto
  then have "?f r \<in> set (job_runs (w_db w'))" by (simp add: d' mark_succeeded_def set_update_where)
  then have "\<exists>r \<in> set (job_runs (w_db w')). r_id r = r_id (sn_run sn) \<and> \<not> active r"
    by (rule bexI [rotated]) (simp add: r active_def)
  then show ?thesis by (simp add: k idempotency_row_def)
qed (use assms in \<open>auto simp: mark_dag_cancelled_def dest: keys_handle_failure\<close>)

lemma keys_final_step:
  assumes "sys_ok X y" and "keys_final X (y_db y)" and "sys_step X S c name y y'"
  shows "keys_final X (y_db y')"
proof (rule keys_finalI [OF assms(2) sys_step_evolves [OF assms(1,3)]])
  fix k
  assume k: "k \<in> set (idempotency_keys (y_db y'))"
  note sys = sys_ok_parts [OF assms(1)]
  show "k \<in> set (idempotency_keys (y_db y))
      \<or> k_key k = IdempotencyKey_for_run X (k_job_run_id k) (k_attempt k)
        \<and> (\<exists>r \<in> set (job_runs (y_db y')). r_id r = k_job_run_id k \<and> \<not> active r)"
    using assms(3)
  proof cases
    case execute
    with k keys_final_exec [OF execute(2)] show ?thesis by auto
  qed (use k sys(1) in \<open>auto simp: claim_run_Claimed_iff reclaim_run_iff keys_route keys_scan evaluate_dag_job_def
      keys_create_job keys_api\<close>)
qed

lemma keys_stay:
  assumes "sys_ok X y" and "sys_step X S c name y y'"
  shows "set (idempotency_keys (y_db y)) \<subseteq> set (idempotency_keys (y_db y'))"
  using assms(2)
proof cases
  case execute
  from exec_step_db [OF execute(2)] show ?thesis
    by (auto simp: execute(1) mark_dag_cancelled_def persist_success_Inr_iff dest: keys_handle_failure split: if_splits)
qed (use sys_ok_parts(1) [OF assms(1)] in \<open>auto simp: claim_run_Claimed_iff reclaim_run_iff keys_route keys_scan
    evaluate_dag_job_def keys_create_job keys_api\<close>)

section \<open>Steps in time\<close>

text \<open>
  A timed state is the time, the time of each executor's last claim, and the system. The clock an
  executor reads for its lock and the one recovery compares with are off by at most \<open>skew\<close>; recovery
  may have read its clock long before. An executor may die at any point except between the bank's
  answer and the transaction that records it. \<open>in_time\<close> says that every executor that holds a run
  has claimed it at most the lock timeout less twice the skew ago.
\<close>

definition recording :: "phase \<Rightarrow> bool" where
  "recording p \<longleftrightarrow> (\<exists>sn v. p = Persist sn v)"

type_synonym timed = "int \<times> (nat \<Rightarrow> int) \<times> sys"

inductive timed_step ::
  "ext \<Rightarrow> Settings \<Rightarrow> client \<Rightarrow> (nat \<Rightarrow> string) \<Rightarrow> int \<Rightarrow> timed \<Rightarrow> timed \<Rightarrow> bool"
  for X S c name skew where
  wait: "t \<le> t' \<Longrightarrow> timed_step X S c name skew (t, f, y) (t', f, y)"
| claim: "idle (y_exec y e) \<Longrightarrow> \<bar>t_lock - t\<bar> \<le> skew \<Longrightarrow>
     claim_run S (name e) t_lock t_start locked run_id (y_db y) = (RunClaimed, d) \<Longrightarrow>
     timed_step X S c name skew (t, f, y) (t, f(e := t), (set_db d y)\<lparr>y_exec := (y_exec y)(e := Load run_id)\<rparr>)"
| execute: "exec_step X S c (name e) i (y_exec y e) (y_world y) = (p, w) \<Longrightarrow>
     timed_step X S c name skew (t, f, y) (t, f, y\<lparr>y_world := w, y_exec := (y_exec y)(e := p)\<rparr>)"
| die: "\<not> recording (y_exec y e) \<Longrightarrow>
     timed_step X S c name skew (t, f, y) (t, f, y\<lparr>y_exec := (y_exec y)(e := Finished)\<rparr>)"
| reclaim: "y_rec y k = None \<Longrightarrow> now \<le> t + skew \<Longrightarrow>
     reclaim_run now run_id (y_db y) = Inr (Some (job_id, attempt, Some sub), d) \<Longrightarrow>
     timed_step X S c name skew (t, f, y)
       (t, f, (set_db d y)\<lparr>y_rec := (y_rec y)(k \<mapsto> (run_id, job_id, attempt, sub))\<rparr>)"
| other: "sys_step X S c name y y' \<Longrightarrow> y_exec y' = y_exec y \<Longrightarrow> w_requests (y_world y') = w_requests (y_world y) \<Longrightarrow>
     (\<forall>k. y_rec y' k = y_rec y k \<or> y_rec y' k = None) \<Longrightarrow>
     timed_step X S c name skew (t, f, y) (t, f, y')"

definition lock_span :: "Settings \<Rightarrow> int" where
  "lock_span S = EXECUTOR_LOCK_TIMEOUT_S S * 1000000"

fun in_time :: "Settings \<Rightarrow> int \<Rightarrow> timed \<Rightarrow> bool" where
  "in_time S skew (t, f, y) \<longleftrightarrow> (\<forall>e. phase_run (y_exec y e) \<noteq> None \<longrightarrow> t \<le> f e + lock_span S - 2 * skew)"

definition timely_step ::
  "ext \<Rightarrow> Settings \<Rightarrow> client \<Rightarrow> (nat \<Rightarrow> string) \<Rightarrow> int \<Rightarrow> timed \<Rightarrow> timed \<Rightarrow> bool" where
  "timely_step X S c name skew p p' \<longleftrightarrow> timed_step X S c name skew p p' \<and> in_time S skew p'"

text \<open>Without the clock these are steps of the system.\<close>

lemma timed_sys_step:
  assumes "timed_step X S c name skew (t, f, y) (t', f', y')"
  shows "sys_step X S c name y y'"
  using assms
proof cases
  case wait
  have "sys_step X S c name y (set_db ((y_db y)\<lparr>db_now := db_now (y_db y)\<rparr>) y)" by (rule sys_step.clock)
  then show ?thesis by (simp add: wait set_db_def)
qed (auto intro: sys_step.intros)

text \<open>What the bank promises, and the driver: every charged key is answered with a payment, whose
  identifier can be stored.\<close>

definition answers_recordable :: "ext \<Rightarrow> Settings \<Rightarrow> client \<Rightarrow> (string \<Rightarrow> bool) \<Rightarrow> bool" where
  "answers_recordable X S c accepted \<longleftrightarrow> (\<forall>cfg key. accepted key \<longrightarrow>
     (\<exists>v. and_then (fst (call_client X S c cfg key)) payment_id_of = Inr v \<and> x_bind_text X v \<noteq> None))"

lemma answers_recordable_charges: "answers_recordable X S c accepted \<Longrightarrow> answers_charges X S c accepted"
  unfolding answers_recordable_def answers_charges_def by blast

section \<open>The invariant\<close>

text \<open>A run that is held and still RUNNING has the lock of its executor's claim; keys are final; what
  an executor is about to record for a charged run can be stored; and a charged request is on
  record or about to be.\<close>

definition lock_ok :: "Settings \<Rightarrow> int \<Rightarrow> (nat \<Rightarrow> int) \<Rightarrow> sys \<Rightarrow> bool" where
  "lock_ok S skew f y \<longleftrightarrow> (\<forall>e. \<forall>r \<in> running (y_db y). phase_run (y_exec y e) = Some (r_id r) \<longrightarrow>
     (\<exists>u. r_lock_expires_at r = Some u \<and> f e + lock_span S - skew \<le> u))"

definition storable :: "ext \<Rightarrow> (string \<Rightarrow> bool) \<Rightarrow> sys \<Rightarrow> bool" where
  "storable X accepted y \<longleftrightarrow> (\<forall>e sn v. y_exec y e = Persist sn v \<longrightarrow> charged accepted y (r_id (sn_run sn)) \<longrightarrow>
     x_bind_text X v \<noteq> None)"

definition on_record :: "sys \<Rightarrow> request \<Rightarrow> bool" where
  "on_record y q \<longleftrightarrow> (rq_run_id q, rq_attempt q) \<in> key_slot ` set (idempotency_keys (y_db y))"

definition being_recorded :: "ext \<Rightarrow> sys \<Rightarrow> request \<Rightarrow> bool" where
  "being_recorded X y q \<longleftrightarrow> (\<exists>e sn v. y_exec y e = Persist sn v \<and> request_of X (sn_run sn) = q)"

definition accounted_for :: "ext \<Rightarrow> (string \<Rightarrow> bool) \<Rightarrow> sys \<Rightarrow> bool" where
  "accounted_for X accepted y \<longleftrightarrow> (\<forall>q \<in> set (w_requests (y_world y)). accepted (rq_key q) \<longrightarrow>
     on_record y q \<or> being_recorded X y q)"

fun timed_ok :: "ext \<Rightarrow> Settings \<Rightarrow> (string \<Rightarrow> bool) \<Rightarrow> int \<Rightarrow> timed \<Rightarrow> bool" where
  "timed_ok X S accepted skew (t, f, y) \<longleftrightarrow>
     lock_ok S skew f y \<and> keys_final X (y_db y) \<and> storable X accepted y \<and> accounted_for X accepted y"

text \<open>So recovery is careful.\<close>

lemma not_stuck_if_charged:
  assumes "sys_ok X y" and "timed_ok X S accepted skew (t, f, y)" and "in_time S skew (t, f, y)"
    and "r \<in> set (job_runs (y_db y))" and "stuck now r" and "now \<le> t + skew"
  shows "\<not> held y (r_id r) \<and> \<not> charged accepted y (r_id r)"
proof -
  note sys = sys_ok_parts [OF assms(1)]
  have run: "r \<in> running (y_db y)" using assms(4,5) by (simp add: running_def stuck_def)
  have not_held: "phase_run (y_exec y e) \<noteq> Some (r_id r)" for e
  proof
    assume h: "phase_run (y_exec y e) = Some (r_id r)"
    then obtain u where "r_lock_expires_at r = Some u" "f e + lock_span S - skew \<le> u"
      using assms(2) run by (auto simp: lock_ok_def)
    moreover have "t \<le> f e + lock_span S - 2 * skew" using assms(3) h by simp
    ultimately show False using assms(5,6) by (simp add: stuck_def)
  qed
  moreover have "\<not> charged accepted y (r_id r)"
  proof
    assume "charged accepted y (r_id r)"
    then obtain q where q: "q \<in> set (w_requests (y_world y))" "rq_run_id q = r_id r" "accepted (rq_key q)"
      by (auto simp: charged_def)
    then have "on_record y q \<or> being_recorded X y q" using assms(2) by (simp add: accounted_for_def)
    then show False
    proof
      assume "on_record y q"
      then obtain k where "k \<in> set (idempotency_keys (y_db y))" "k_job_run_id k = r_id r"
        using q(2) by (auto simp: on_record_def)
      then obtain r' where "r' \<in> set (job_runs (y_db y))" "r_id r' = r_id r" "\<not> active r'"
        using assms(2) by (auto simp: keys_final_def)
      then show False using db_ok_run_eq [OF sys(1) _ assms(4)] assms(5) by (auto simp: active_def stuck_def)
    next
      assume "being_recorded X y q"
      then obtain e sn v where "y_exec y e = Persist sn v" "request_of X (sn_run sn) = q" by (auto simp: being_recorded_def)
      then have "phase_run (y_exec y e) = Some (r_id r)" using q(2) by (auto simp: request_of_def)
      then show False using not_held by blast
    qed
  qed
  ultimately show ?thesis by (auto simp: held_def)
qed

lemma timely_careful:
  assumes "sys_ok X y" and "timed_ok X S accepted skew (t, f, y)"
    and "timely_step X S c name skew (t, f, y) (t', f', y')"
  shows "careful_step X S c name accepted y y'"
proof -
  have step: "timed_step X S c name skew (t, f, y) (t', f', y')" and time: "in_time S skew (t', f', y')"
    using assms(3) by (simp_all add: timely_step_def)
  have move: "sys_step X S c name y y'" by (rule timed_sys_step [OF step])
  show ?thesis
  proof (cases "y_rec y' = y_rec y")
    case True
    with move show ?thesis by (rule careful_quiet)
  next
    case False
    from step show ?thesis
    proof cases
      case (reclaim k now run_id job_id attempt sub d)
      obtain r where r: "r \<in> set (job_runs (y_db y))" "r_id r = run_id" "stuck now r"
        using reclaim(6) by (auto simp: reclaim_run_iff [OF sys_ok_parts(1) [OF assms(1)]])
      have "\<not> held y run_id \<and> \<not> charged accepted y run_id"
        using not_stuck_if_charged [OF assms(1,2) _ r(1,3) reclaim(5)] time r(2) by (simp add: reclaim(1-3))
      with move show ?thesis by (auto simp: careful_step_def reclaim(3) split: if_splits)
    next
      case other
      with move show ?thesis unfolding careful_step_def by (metis option.distinct(1))
    qed (use False in simp_all)
  qed
qed

section \<open>Every step keeps it\<close>

lemma lock_okI:
  assumes "lock_ok S skew f y" and "running (y_db y') \<subseteq> running (y_db y)"
    and "\<And>e i. phase_run (y_exec y' e) = Some i \<Longrightarrow> phase_run (y_exec y e) = Some i"
  shows "lock_ok S skew f y'"
  using assms unfolding lock_ok_def by blast

text \<open>A step that sends no request and moves no executor, except to end one that is not recording.\<close>

lemma timed_ok_bystander:
  assumes "sys_ok X y" and "timed_ok X S accepted skew (t, f, y)" and "sys_step X S c name y y'"
    and "running (y_db y') \<subseteq> running (y_db y)" and "w_requests (y_world y') = w_requests (y_world y)"
    and "\<And>e. y_exec y' e = y_exec y e \<or> y_exec y' e = Finished \<and> \<not> recording (y_exec y e)"
  shows "timed_ok X S accepted skew (t', f, y')"
proof -
  have charged: "charged accepted y' i = charged accepted y i" for i by (simp add: charged_def assms(5))
  have "lock_ok S skew f y'"
    by (rule lock_okI [of _ _ _ y]) (use assms(2,4,6) in \<open>auto, metis option.distinct(1) phase_run_simps(9)\<close>)
  moreover have "keys_final X (y_db y')" using keys_final_step [OF assms(1) _ assms(3)] assms(2) by simp
  moreover have "storable X accepted y'"
    unfolding storable_def charged
  proof (intro allI impI)
    fix e sn v
    assume "y_exec y' e = Persist sn v" "charged accepted y (r_id (sn_run sn))"
    moreover have "y_exec y' e = y_exec y e" using \<open>y_exec y' e = Persist sn v\<close> assms(6) [of e] by auto
    ultimately show "x_bind_text X v \<noteq> None" using assms(2) by (simp add: storable_def)
  qed
  moreover have "accounted_for X accepted y'"
  proof -
    have "on_record y' q" if "on_record y q" for q
      using that keys_stay [OF assms(1,3)] by (auto simp: on_record_def)
    moreover have "being_recorded X y' q" if "being_recorded X y q" for q
      using that assms(6) unfolding being_recorded_def recording_def by metis
    ultimately show ?thesis using assms(2,5) by (auto simp: accounted_for_def)
  qed
  ultimately show ?thesis by simp
qed

lemma running_after_update:
  assumes "r \<in> running (update_runs (\<lambda>r. r_id r = i) g d)" and "\<And>x. r_id (g x) = r_id x"
  shows "if r_id r = i then \<exists>x. r = g x else r \<in> running d"
proof -
  have r: "r \<in> set (update_where (\<lambda>r. r_id r = i) g (job_runs d))" "r_status r = JobRunStatus.RUNNING"
    using assms(1) by (simp_all add: running_def)
  from r(1) obtain x where "x \<in> set (job_runs d)" "r = (if r_id x = i then g x else x)"
    by (auto simp: set_update_where)
  with r(2) assms(2) show ?thesis by (auto simp: running_def)
qed

lemma timed_ok_claim:
  assumes "sys_ok X y" and "timed_ok X S accepted skew (t, f, y)" and "idle (y_exec y e)"
    and "\<bar>t_lock - t\<bar> \<le> skew" and "claim_run S (name e) t_lock t_start locked i (y_db y) = (RunClaimed, d)"
  shows "timed_ok X S accepted skew (t, f(e := t), (set_db d y)\<lparr>y_exec := (y_exec y)(e := Load i)\<rparr>)"
proof -
  let ?y = "(set_db d y)\<lparr>y_exec := (y_exec y)(e := Load i)\<rparr>"
  note sys' = sys_ok_parts [OF sys_ok_claim [OF assms(1,5), where e = e]]
  have move: "sys_step X S c name y ?y" for c by (rule sys_step.claim, rule assms(3), rule assms(5))
  have d: "d = update_runs (\<lambda>r. r_id r = i) (\<lambda>r. r\<lparr>r_status := JobRunStatus.RUNNING, r_worker_id := Some (name e),
      r_lock_expires_at := Some (t_lock + lock_span S), r_started_at := Some t_start\<rparr>) (y_db y)"
    using assms(5) by (auto simp: claim_run_Claimed_iff lock_span_def)
  have charged: "charged accepted ?y j = charged accepted y j" for j by (simp add: charged_def)
  have "lock_ok S skew (f(e := t)) ?y"
    unfolding lock_ok_def
  proof (intro allI ballI impI)
    fix e' r
    assume r: "r \<in> running (y_db ?y)" and h: "phase_run (y_exec ?y e') = Some (r_id r)"
    have row: "if r_id r = i then \<exists>x. r = x\<lparr>r_status := JobRunStatus.RUNNING, r_worker_id := Some (name e),
        r_lock_expires_at := Some (t_lock + lock_span S), r_started_at := Some t_start\<rparr> else r \<in> running (y_db y)"
      by (rule running_after_update) (use r in \<open>simp_all add: d\<close>)
    show "\<exists>u. r_lock_expires_at r = Some u \<and> (f(e := t)) e' + lock_span S - skew \<le> u"
    proof (cases "r_id r = i")
      case True
      then have "e' = e" using sys'(4) [of e e' i] h by (cases "e' = e") auto
      moreover have "r_lock_expires_at r = Some (t_lock + lock_span S)"
        using row True by auto
      ultimately show ?thesis using assms(4) by simp
    next
      case False
      then have "r \<in> running (y_db y)" using row by simp
      moreover have "e' \<noteq> e" using h False by auto
      moreover have "phase_run (y_exec y e') = Some (r_id r)" using h \<open>e' \<noteq> e\<close> by simp
      ultimately show ?thesis using assms(2) by (auto simp: lock_ok_def)
    qed
  qed
  moreover have "keys_final X (y_db ?y)" using keys_final_step [OF assms(1) _ move] assms(2) by simp
  moreover have "storable X accepted ?y"
    using assms(2) unfolding storable_def charged by (auto simp: storable_def)
  moreover have "accounted_for X accepted ?y"
  proof -
    have "on_record ?y q = on_record y q" for q by (simp add: on_record_def d)
    moreover have "being_recorded X ?y q" if rec: "being_recorded X y q" for q
    proof -
      obtain e' sn v where p: "y_exec y e' = Persist sn v" "request_of X (sn_run sn) = q"
        using rec by (auto simp: being_recorded_def)
      then have "e' \<noteq> e" using assms(3) by (auto simp: idle_def)
      with p show ?thesis unfolding being_recorded_def by (intro exI [of _ e'] exI [of _ sn] exI [of _ v]) simp
    qed
    ultimately show ?thesis using assms(2) by (auto simp: accounted_for_def)
  qed
  ultimately show ?thesis by simp
qed

text \<open>The key row of a run that has no record yet is free, if the hash has no collision.\<close>

lemma key_free:
  assumes "inj_on (x_sha256 X) (range (\<lambda>(r, a). idempotency_raw r a))" and "keys_final X d"
    and "(i, a) \<notin> key_slot ` set (idempotency_keys d)"
  shows "IdempotencyKey_for_run X i a \<notin> k_key ` set (idempotency_keys d)"
proof
  assume "IdempotencyKey_for_run X i a \<in> k_key ` set (idempotency_keys d)"
  then obtain k where k: "k \<in> set (idempotency_keys d)" "k_key k = IdempotencyKey_for_run X i a" by auto
  then have "IdempotencyKey_for_run X (k_job_run_id k) (k_attempt k) = IdempotencyKey_for_run X i a"
    using assms(2) by (auto simp: keys_final_def)
  moreover have "idempotency_raw r b \<in> range (\<lambda>(r, a). idempotency_raw r a)" for r b
    by (auto intro: range_eqI [of _ _ "(r, b)"])
  ultimately have "k_job_run_id k = i \<and> k_attempt k = a"
    by (simp add: IdempotencyKey_for_run_def inj_on_eq_iff [OF assms(1)] idempotency_raw_inject)
  with k(1) assms(3) show False by force
qed

text \<open>An executor that is about to record a payment that can be stored leaves it on record.\<close>

lemma persist_records:
  assumes "inj_on (x_sha256 X) (range (\<lambda>(r, a). idempotency_raw r a))" and "keys_final X (w_db w)"
    and "knows (w_db w) (sn_run sn)" and "x_bind_text X v \<noteq> None"
    and "exec_step X S c worker i (Persist sn v) w = (p, w')"
  shows "(r_id (sn_run sn), r_attempt (sn_run sn)) \<in> key_slot ` set (idempotency_keys (w_db w'))"
proof -
  obtain pid where pid: "x_bind_text X v = Some pid" using assms(4) by auto
  have run: "r_id (sn_run sn) \<in> r_id ` set (job_runs (w_db w))" using assms(3) unfolding knows_def by (metis image_eqI)
  have "\<exists>b d. persist_success X (in_now i) (sn_run sn) (sn_sub sn) v (w_db w) = Inr (b, d)
      \<and> (r_id (sn_run sn), r_attempt (sn_run sn)) \<in> key_slot ` set (idempotency_keys d)"
    unfolding persist_success_Inr_iff
    using pid run key_free [OF assms(1,2), of "r_id (sn_run sn)" "r_attempt (sn_run sn)"]
    by (cases "(r_id (sn_run sn), r_attempt (sn_run sn)) \<in> key_slot ` set (idempotency_keys (w_db w))") auto
  then show ?thesis using assms(5) by auto
qed

text \<open>Where a new request comes from, and where its sender is then.\<close>

lemma new_request:
  assumes "exec_step X S c worker i p w = (p', w')" and "q \<in> set (w_requests w')" and "q \<notin> set (w_requests w)"
  obtains sn cfg where "p = Pay sn cfg" and "q = request_of X (sn_run sn)"
    and "\<And>v. and_then (fst (call_client X S c cfg (rq_key q))) payment_id_of = Inr v \<Longrightarrow> p' = Persist sn v"
proof (cases "\<exists>sn cfg. p = Pay sn cfg")
  case True
  then obtain sn cfg where p: "p = Pay sn cfg" by blast
  obtain answer sent where call:
    "call_client X S c cfg (IdempotencyKey_for_run X (r_id (sn_run sn)) (r_attempt (sn_run sn))) = (answer, sent)"
    by fastforce
  have q: "q = request_of X (sn_run sn)"
    using assms call by (auto simp: p pay_def split: sum.splits if_splits)
  show ?thesis
    by (rule that [OF p q]) (use assms(1) call in \<open>auto simp: p q pay_def request_of_def split: sum.splits\<close>)
next
  case False
  then have "w_requests w' = w_requests w"
    using exec_step_requests [OF assms(1)] assms(1) by (cases p) (auto split: option.splits sum.splits prod.splits)
  with assms(2,3) show ?thesis by simp
qed

lemma timed_ok_execute:
  assumes "inj_on (x_sha256 X) (range (\<lambda>(r, a). idempotency_raw r a))" and "answers_recordable X S c accepted"
    and "sys_ok X y" and "timed_ok X S accepted skew (t, f, y)"
    and "exec_step X S c (name e) i (y_exec y e) (y_world y) = (p, w)"
  shows "timed_ok X S accepted skew (t, f, y\<lparr>y_world := w, y_exec := (y_exec y)(e := p)\<rparr>)"
proof -
  let ?y = "y\<lparr>y_world := w, y_exec := (y_exec y)(e := p)\<rparr>"
  note sys = sys_ok_parts [OF assms(3)]
  have move: "sys_step X S c name y ?y" by (rule sys_step.execute, rule assms(5))
  have keys: "keys_final X (y_db y)" and rec: "accounted_for X accepted y" and store: "storable X accepted y"
    using assms(4) by simp_all
  have sent: "\<exists>sn cfg v. y_exec y e = Pay sn cfg \<and> q = request_of X (sn_run sn) \<and> p = Persist sn v \<and> x_bind_text X v \<noteq> None"
    if new: "q \<in> set (w_requests w)" "q \<notin> set (w_requests (y_world y))" and acc: "accepted (rq_key q)" for q
  proof -
    obtain sn cfg where *: "y_exec y e = Pay sn cfg" "q = request_of X (sn_run sn)"
      "\<And>v. and_then (fst (call_client X S c cfg (rq_key q))) payment_id_of = Inr v \<Longrightarrow> p = Persist sn v"
      using new_request [OF assms(5) new] by blast
    obtain v where "and_then (fst (call_client X S c cfg (rq_key q))) payment_id_of = Inr v" "x_bind_text X v \<noteq> None"
      using assms(2) acc unfolding answers_recordable_def by blast
    with * show ?thesis by blast
  qed
  have "lock_ok S skew f ?y"
  proof (rule lock_okI)
    show "lock_ok S skew f y" using assms(4) by simp
    show "running (y_db ?y) \<subseteq> running (y_db y)" using running_exec_step [OF assms(5)] by simp
    show "phase_run (y_exec y e') = Some j" if "phase_run (y_exec ?y e') = Some j" for e' j
      using that exec_step_phase [OF assms(5)] by (auto split: if_splits)
  qed
  moreover have "keys_final X (y_db ?y)" by (rule keys_final_step [OF assms(3) keys move])
  moreover have "storable X accepted ?y"
    unfolding storable_def
  proof (intro allI impI)
    fix e' sn v
    assume p': "y_exec ?y e' = Persist sn v" and charged: "charged accepted ?y (r_id (sn_run sn))"
    obtain q where q: "q \<in> set (w_requests w)" "rq_run_id q = r_id (sn_run sn)" "accepted (rq_key q)"
      using charged by (auto simp: charged_def)
    show "x_bind_text X v \<noteq> None"
    proof (cases "e' = e")
      case True
      then have p: "p = Persist sn v" using p' by simp
      then have "may_pay (y_exec y e) = Some (r_id (sn_run sn))"
        using exec_step_next [OF assms(5)] exec_step_phase [OF assms(5)] by (cases "y_exec y e") auto
      then have "q \<notin> set (w_requests (y_world y))" using sys(8) q(2) by force
      with sent [OF q(1) _ q(3)] p show ?thesis by auto
    next
      case False
      then have old: "y_exec y e' = Persist sn v" using p' by simp
      have "q \<in> set (w_requests (y_world y))"
      proof (rule ccontr)
        assume "q \<notin> set (w_requests (y_world y))"
        then obtain sn' cfg where "y_exec y e = Pay sn' cfg" "q = request_of X (sn_run sn')" using sent [OF q(1) _ q(3)] by blast
        then show False using sys(4) [of e e' "r_id (sn_run sn)"] False old q(2) by (simp add: request_of_def)
      qed
      then have "charged accepted y (r_id (sn_run sn))" using q by (auto simp: charged_def)
      with old store show ?thesis by (auto simp: storable_def)
    qed
  qed
  moreover have "accounted_for X accepted ?y"
    unfolding accounted_for_def
  proof (intro ballI impI)
    fix q
    assume q: "q \<in> set (w_requests (y_world ?y))" and acc: "accepted (rq_key q)"
    show "on_record ?y q \<or> being_recorded X ?y q"
    proof (cases "q \<in> set (w_requests (y_world y))")
      case False
      then obtain sn v where "q = request_of X (sn_run sn)" "p = Persist sn v" using sent [of q] q acc by auto
      then have "being_recorded X ?y q" unfolding being_recorded_def by (intro exI [of _ e]) auto
      then show ?thesis ..
    next
      case True
      have stays: "on_record ?y q" if "on_record y q"
        using that keys_stay [OF assms(3) move] by (auto simp: on_record_def)
      show ?thesis
      proof (cases "on_record y q")
        case False
        then obtain e' sn v where r: "y_exec y e' = Persist sn v" "request_of X (sn_run sn) = q"
          using rec True acc by (auto simp: accounted_for_def being_recorded_def)
        show ?thesis
        proof (cases "e' = e")
          case e: True
          have "charged accepted y (r_id (sn_run sn))" unfolding charged_def
            by (rule bexI [OF _ True]) (use acc r(2) in \<open>auto simp: request_of_def\<close>)
          then have "x_bind_text X v \<noteq> None" using store r(1) by (auto simp: storable_def)
          moreover have "knows (y_db y) (sn_run sn)" using sys(3) [of e'] r(1) by (simp add: exec_ok_def)
          ultimately have "(r_id (sn_run sn), r_attempt (sn_run sn)) \<in> key_slot ` set (idempotency_keys (w_db w))"
            using persist_records [OF assms(1) keys] assms(5) r(1) e by simp
          then have "on_record ?y q" using r(2) by (auto simp: on_record_def request_of_def)
          then show ?thesis ..
        next
          case False
          then have "being_recorded X ?y q"
            using r unfolding being_recorded_def by (intro exI [of _ e'] exI [of _ sn] exI [of _ v]) simp
          then show ?thesis ..
        qed
      qed (use stays in simp)
    qed
  qed
  ultimately show ?thesis by simp
qed

lemma timed_ok_step:
  assumes "inj_on (x_sha256 X) (range (\<lambda>(r, a). idempotency_raw r a))" and "answers_recordable X S c accepted"
    and "sys_ok X y" and "timed_ok X S accepted skew (t, f, y)"
    and "timed_step X S c name skew (t, f, y) (t', f', y')"
  shows "timed_ok X S accepted skew (t', f', y')"
proof -
  have move: "sys_step X S c name y y'" by (rule timed_sys_step [OF assms(5)])
  from assms(5) show ?thesis
  proof cases
    case wait
    then show ?thesis using assms(4) by simp
  next
    case claim
    then show ?thesis using timed_ok_claim [OF assms(3,4)] by simp
  next
    case execute
    then show ?thesis using timed_ok_execute [OF assms(1-4)] by simp
  next
    case (die e)
    then show ?thesis using timed_ok_bystander [OF assms(3,4) move] by simp
  next
    case reclaim
    then have "running (y_db y') \<subseteq> running (y_db y)" using running_step [OF assms(3) move] by simp
    with reclaim show ?thesis using timed_ok_bystander [OF assms(3,4) move] by simp
  next
    case other
    then show ?thesis using timed_ok_bystander [OF assms(3,4) move] running_step [OF assms(3) move] by simp
  qed
qed

section \<open>Paid once, and recorded\<close>

lemma timely_reachable:
  assumes "inj_on (x_sha256 X) (range (\<lambda>(r, a). idempotency_raw r a))" and "answers_recordable X S c accepted"
    and "sys_start y" and "(timely_step X S c name skew)\<^sup>*\<^sup>* (t, f, y) p"
  shows "(careful_step X S c name accepted)\<^sup>*\<^sup>* y (snd (snd p)) \<and> sys_ok X (snd (snd p)) \<and> timed_ok X S accepted skew p"
  using assms(4)
proof (induction rule: rtranclp_induct)
  case base
  have "timed_ok X S accepted skew (t, f, y)"
    using assms(3) by (auto simp: sys_start_def lock_ok_def running_def keys_final_def storable_def accounted_for_def empty_db_def)
  then show ?case using sys_ok_start [OF assms(3)] by simp
next
  case (step p p')
  obtain t f y1 where p: "p = (t, f, y1)" by (cases p) auto
  obtain t' f' y2 where p': "p' = (t', f', y2)" by (cases p') auto
  have ok: "sys_ok X y1" "timed_ok X S accepted skew (t, f, y1)" using step.IH by (simp_all add: p)
  have tstep: "timely_step X S c name skew (t, f, y1) (t', f', y2)" using step.hyps(2) by (simp add: p p')
  then have ts: "timed_step X S c name skew (t, f, y1) (t', f', y2)" by (simp add: timely_step_def)
  have "careful_step X S c name accepted y1 y2" by (rule timely_careful [OF ok tstep])
  moreover have "sys_ok X y2" by (rule sys_ok_step [OF ok(1) timed_sys_step [OF ts]])
  moreover have "timed_ok X S accepted skew (t', f', y2)" by (rule timed_ok_step [OF assms(1,2) ok ts])
  ultimately show ?case using step.IH by (auto simp: p p')
qed


text \<open>A timely run with a recovery, clocks within a second: the first executor dies before it has done
  anything, recovery takes over after the lock timeout, and the second attempt is charged.\<close>

abbreviation rent_timely :: "timed \<Rightarrow> timed \<Rightarrow> bool" where
  "rent_timely \<equiv> timely_step example_ext default_settings paying_client (\<lambda>e. ''w'') 1000000"

definition late_run :: "JobRun \<Rightarrow> JobRun" where
  "late_run r = r\<lparr>r_status := JobRunStatus.RUNNING, r_worker_id := Some ''w'',
     r_lock_expires_at := Some 700000000, r_started_at := Some 400000000\<rparr>"

lemma late_claimed:
  fixes r
  defines "r \<equiv> reclaimed 400000000 (claimed_run (new_run 1 5 1 None 0))"
  shows "claim_run default_settings ''w'' 400000000 400000000 (\<lambda>_. False) 3 (rent_db [r, new_run 3 5 2 None 0])
    = (RunClaimed, rent_db [r, late_run (new_run 3 5 2 None 0)])"
  by (simp add: claim_run_def update_runs_def rent_db_def rent_job_def claimed_run_def rent_sub_def r_def late_run_def)

lemma lock_span_default [simp]: "lock_span default_settings = 300000000"
  by (simp add: lock_span_def default_settings_def)

lemma rent_quiet:
  assumes "rent_step y y'" and "y_exec y = (\<lambda>e. Finished)" and "y_exec y' = y_exec y"
    and "w_requests (y_world y') = w_requests (y_world y)" and "\<forall>k. y_rec y' k = y_rec y k \<or> y_rec y' k = None"
  shows "rent_timely (t, f, y) (t, f, y')"
  using timed_step.other [OF assms(1,3,4,5)] assms(2,3) by (simp add: timely_step_def)

lemma timely_moves:
  assumes "R\<^sup>*\<^sup>* y z" and "\<And>y y'. R y y' \<Longrightarrow> rent_timely (t, f, y) (t, f, y')"
  shows "rent_timely\<^sup>*\<^sup>* (t, f, y) (t, f, z)"
  using assms(1) by (induction rule: rtranclp_induct) (use assms(2) in \<open>auto intro: rtranclp.rtrancl_into_rtrancl\<close>)

lemma rent_timely_run:
  "\<exists>t f z. rent_timely\<^sup>*\<^sup>* (0, \<lambda>e. 400000000, rent_sys (empty_db 0) [] Finished None) (t, f, z)
     \<and> w_requests (y_world z) = [rent_request 3 2]"
proof -
  let ?r1 = "claimed_run (new_run 1 5 1 None 0)" and ?r2 = "late_run (new_run 3 5 2 None 0)"
  let ?o = "reclaimed 400000000 ?r1" and ?n = "new_run 3 5 2 None 0"
  let ?sub = "rent_sub\<lparr>s_next_fire_at := Some 120000000\<rparr>"
  let ?f = "\<lambda>e::nat. 400000000::int" and ?s0 = "rent_sys (empty_db 0) [] Finished None"
  let ?s1 = "rent_sys ((empty_db 0)\<lparr>subscriptions := [rent_sub]\<rparr>) [] Finished None"
  let ?s2 = "rent_sys (rent_db [new_run 1 5 1 None 0]) [] Finished None"
  let ?s3 = "rent_sys (rent_db [?r1]) [] (Load 1) None" and ?s4 = "rent_sys (rent_db [?r1]) [] Finished None"
  let ?s5 = "rent_sys (rent_db [?o]) [] Finished (Some (1, 5, 1, ?sub))"
  let ?s6 = "rent_sys (rent_db [?o, ?n]) [] Finished None" and ?s7 = "rent_sys (rent_db [?o, ?r2]) [] (Load 3) None"
  let ?y = "rent_sys (rent_db [?o, ?r2]) [rent_request 3 2]"
  have same: "?f(0 := 400000000) = ?f" by auto
  have idle: "y_exec (rent_sys d qs Finished v) = (\<lambda>e. Finished)" for d qs v by (simp add: rent_sys_def fun_eq_iff)
  have a1: "rent_timely (0, ?f, ?s0) (0, ?f, ?s1)"
    by (rule rent_quiet [OF rent_create_step]) (simp_all add: rent_sys_def fun_eq_iff)
  have a2: "rent_timely (0, ?f, ?s1) (0, ?f, ?s2)"
    by (rule rent_quiet [OF rent_schedule_step]) (simp_all add: rent_sys_def fun_eq_iff)
  have a3: "rent_timely (0, ?f, ?s2) (60000000, ?f, ?s2)" by (simp add: timely_step_def timed_step.wait idle)
  have a4: "rent_timely (60000000, ?f, ?s2) (60000000, ?f(0 := 60000000), ?s3)"
    using timed_step.claim [of ?s2 0 60000000 60000000 1000000 default_settings "\<lambda>e. ''w''" 60000000 "\<lambda>_. False" 1
        "rent_db [?r1]" example_ext paying_client ?f] rent_claimed [of "new_run 1 5 1 None 0" 1 "[]"]
    by (simp add: timely_step_def rent_sys_def set_db_def idle_def same)
  have a5: "rent_timely (60000000, ?f(0 := 60000000), ?s3) (60000000, ?f(0 := 60000000), ?s4)"
    using timed_step.die [of ?s3 0 example_ext default_settings paying_client "\<lambda>e. ''w''" 1000000 60000000 "?f(0 := 60000000)"]
    by (simp add: timely_step_def rent_sys_def recording_def)
  have a6: "rent_timely (60000000, ?f(0 := 60000000), ?s4) (400000000, ?f(0 := 60000000), ?s4)"
    by (simp add: timely_step_def timed_step.wait idle)
  have a7: "rent_timely (400000000, ?f(0 := 60000000), ?s4) (400000000, ?f(0 := 60000000), ?s5)"
    using timed_step.reclaim [of ?s4 0 400000000 400000000 1000000 1 5 1 ?sub "rent_db [?o]" example_ext default_settings
        paying_client "\<lambda>e. ''w''" "?f(0 := 60000000)"] rent_reclaimed
    by (simp add: timely_step_def rent_sys_def set_db_def)
  have a8: "rent_timely (400000000, ?f(0 := 60000000), ?s5) (400000000, ?f(0 := 60000000), ?s6)"
   
    by (rule rent_quiet [OF rent_route_step]) (simp_all add: rent_sys_def fun_eq_iff)
  have a9: "rent_timely (400000000, ?f(0 := 60000000), ?s6) (400000000, ?f, ?s7)"
    using timed_step.claim [of ?s6 0 400000000 400000000 1000000 default_settings "\<lambda>e. ''w''" 400000000 "\<lambda>_. False" 3
        "rent_db [?o, ?r2]" example_ext paying_client "?f(0 := 60000000)"] late_claimed
    by (simp add: timely_step_def rent_sys_def set_db_def idle_def same)
  let ?R = "\<lambda>y y'. rent_timely (400000000, ?f, y) (400000000, ?f, y')"
  have "\<exists>sn. sn_run sn = ?r2 \<and> ?R\<^sup>*\<^sup>* (rent_sys (rent_db ([?o] @ [?r2])) [] (Load 3) None)
      (rent_sys (rent_db ([?o] @ [?r2])) ([] @ [request_of example_ext ?r2]) (Persist sn (JStr ''p1'')) None)"
  proof (rule rent_pays)
    show "?R y (y\<lparr>y_world := w, y_exec := (y_exec y)(e := p)\<rparr>)"
      if "exec_step example_ext default_settings paying_client ''w'' i (y_exec y e) (y_world y) = (p, w)" for y e i p w
    proof -
      have "timed_step example_ext default_settings paying_client (\<lambda>e. ''w'') 1000000 (400000000, ?f, y)
          (400000000, ?f, y\<lparr>y_world := w, y_exec := (y_exec y)(e := p)\<rparr>)"
        by (rule timed_step.execute) (rule that)
      then show ?thesis by (simp add: timely_step_def)
    qed
  qed (simp_all add: late_run_def claimed_run_def)
  then obtain sn where a10: "?R\<^sup>*\<^sup>* ?s7 (?y (Persist sn (JStr ''p1'')) None)"
    by (auto simp: rent_request_def claimed_run_def late_run_def request_of_def)
  have "rent_timely\<^sup>*\<^sup>* (0, ?f, ?s0) (400000000, ?f, ?s7)"
    using a1 a2 a3 a4 a5 a6 a7 a8 a9 by (meson converse_rtranclp_into_rtranclp rtranclp.rtrancl_refl)
  from rtranclp_trans [OF this timely_moves [OF a10]]
  have "rent_timely\<^sup>*\<^sup>* (0, ?f, ?s0) (400000000, ?f, ?y (Persist sn (JStr ''p1'')) None)" by simp
  moreover have "w_requests (y_world (?y p v)) = [rent_request 3 2]" for p v by (simp add: rent_sys_def)
  ultimately show ?thesis by blast
qed


end
