(* ===== verification/Progress.thy ===== *)
theory Progress
  imports Timely
begin

text \<open>
  No run is lost while it is active: a waiting run can be paid (\<open>Delivery\<close>), and a RUNNING one whose
  executor is gone can be taken over. The gap between the two transactions of recovery is not
  covered by this: a run reclaimed and not routed is neither.
\<close>

section \<open>A RUNNING run has a lock\<close>

definition locks_set :: "db \<Rightarrow> bool" where
  "locks_set d \<longleftrightarrow> (\<forall>r \<in> running d. r_lock_expires_at r \<noteq> None)"

lemma locks_set_claim:
  assumes "locks_set d" and "claim_run S w t u l i d = (RunClaimed, d')"
  shows "locks_set d'"
  unfolding locks_set_def
proof
  fix r
  assume r: "r \<in> running d'"
  have "if r_id r = i then \<exists>x. r = x\<lparr>r_status := JobRunStatus.RUNNING, r_worker_id := Some w,
      r_lock_expires_at := Some (t + EXECUTOR_LOCK_TIMEOUT_S S * 1000000), r_started_at := Some u\<rparr> else r \<in> running d"
    by (rule running_after_update) (use r assms(2) in \<open>auto simp: claim_run_Claimed_iff\<close>)
  then show "r_lock_expires_at r \<noteq> None" using assms(1) by (auto simp: locks_set_def split: if_splits)
qed

lemma locks_set_step:
  assumes "sys_ok X y" and "locks_set (y_db y)" and "sys_step X S c name y y'"
  shows "locks_set (y_db y')"
proof -
  have by_less: "locks_set (y_db y')" if "running (y_db y') \<subseteq> running (y_db y)"
    using that assms(2) by (auto simp: locks_set_def)
  show ?thesis
  proof (cases "y_exec y' = y_exec y")
    case True
    from by_less [OF running_step [OF assms(1,3) True]] show ?thesis .
  next
    case False
    from assms(3) show ?thesis
    proof cases
      case claim
      then show ?thesis using locks_set_claim [OF assms(2)] by simp
    next
      case execute
      with running_exec_step [OF execute(2)] show ?thesis by (intro by_less) simp
    next
      case crash
      then show ?thesis by (intro by_less) simp
    qed (use False in simp_all)
  qed
qed

interpretation locked: inductive_invariant sys_start "sys_step X S c name" "\<lambda>y. sys_ok X y \<and> locks_set (y_db y)"
  for X S c name
proof unfold_locales
  show "sys_ok X y \<and> locks_set (y_db y)" if "sys_start y" for y
    using that sys_ok_start by (auto simp: sys_start_def locks_set_def running_def empty_db_def)
  show "sys_ok X y' \<and> locks_set (y_db y')"
    if "sys_ok X y \<and> locks_set (y_db y)" and "sys_step X S c name y y'" for y y'
    using that sys_ok_step locks_set_step by blast
qed

section \<open>Taking over\<close>

text \<open>The routing of a run that has just been reclaimed goes through: it queues the next attempt or
  writes a dead letter.\<close>

lemma route_goes_through:
  assumes "db_ok d" and "readable_policy (s_retry_policy sub)"
    and "r \<in> set (job_runs d)" and "(r_job_id r, r_attempt r + 1) \<notin> slots d"
    and "vi_run_id i \<notin> r_id ` set (job_runs d)" and "vi_dlq_id i \<notin> d_id ` set (dead_letter_queue d)"
  shows "\<exists>d'. route_reclaimed i (r_id r) (r_job_id r) (r_attempt r) sub d = Inr d'
    \<and> ((new_run (vi_run_id i) (r_job_id r) (r_attempt r + 1) None (db_now d) \<in> set (job_runs d') \<and> r \<in> set (job_runs d'))
      \<or> (\<exists>e \<in> set (dead_letter_queue d'). d_job_run_id e = r_id r)
        \<and> (\<forall>x \<in> set (job_runs d'). r_id x = r_id r \<longrightarrow> r_status x = JobRunStatus.DEAD))"
proof -
  obtain p m where p: "policy_of (s_retry_policy sub) = Inr p" "max_attempts p = JInt m"
    using assms(2) by (auto simp: readable_policy_def)
  have job: "r_job_id r \<in> j_id ` set (scheduled_jobs d)" using db_ok_run_job [OF assms(1,3)] .
  show ?thesis
  proof (cases "m \<le> r_attempt r")
    case True
    let ?d = "count_failure (vi_dlq_now i) (s_id sub) (update_runs (\<lambda>x. r_id x = r_id r)
        (\<lambda>x. x\<lparr>r_status := JobRunStatus.DEAD, r_error_message := Some (truncate_error (exhausted_reason (r_attempt r))),
              r_finished_at := Some (vi_dlq_now i), r_lock_expires_at := None, r_worker_id := None\<rparr>) d)"
    let ?e = "dlq_entry (vi_dlq_id i) (r_id r) (r_job_id r) (s_id sub) (truncate_error (exhausted_reason (r_attempt r)))
        (Some ''StuckRunRecovery'') (JObj [(''payment_config'', s_payment_config sub), (''attempt'', JInt (r_attempt r))]) (db_now d)"
    have "route_reclaimed i (r_id r) (r_job_id r) (r_attempt r) sub d
        = Inr (?d\<lparr>dead_letter_queue := dead_letter_queue ?d @ [?e]\<rparr>)"
      using p True assms(3,6)
      by (simp add: route_reclaimed_def is_exhausted_def recovery_move_to_dlq_def insert_dlq_def image_update_where)
    then show ?thesis by (auto simp: set_update_where)
  next
    case False
    let ?n = "new_run (vi_run_id i) (r_job_id r) (r_attempt r + 1) None (db_now d)"
    have "insert_run ?n d = Inr (True, d\<lparr>job_runs := job_runs d @ [?n]\<rparr>)"
      using assms(4,5) job by (simp add: insert_run_Inr_iff slots_def)
    then have "route_reclaimed i (r_id r) (r_job_id r) (r_attempt r) sub d = Inr (d\<lparr>job_runs := job_runs d @ [?n]\<rparr>)"
      using p False by (simp add: route_reclaimed_def is_exhausted_def)
    then show ?thesis using assms(3) by simp
  qed
qed

text \<open>A RUNNING run is reclaimed by a worker whose clock shows a later time than its lock.\<close>

lemma running_run_reclaimed:
  assumes "sys_ok X y" and "locks_set (y_db y)" and "r \<in> set (job_runs (y_db y))"
    and "r_status r = JobRunStatus.RUNNING"
  obtains u s where "reclaim_run u (r_id r) (y_db y) = Inr (Some (r_job_id r, r_attempt r, Some s),
        update_runs (\<lambda>x. r_id x = r_id r \<and> stuck u x) (reclaimed u) (y_db y))"
    and "readable_policy (s_retry_policy s)"
    and "reclaimed u r \<in> set (job_runs (update_runs (\<lambda>x. r_id x = r_id r \<and> stuck u x) (reclaimed u) (y_db y)))"
    and "(r_job_id r, r_attempt r + 1) \<notin> slots (update_runs (\<lambda>x. r_id x = r_id r \<and> stuck u x) (reclaimed u) (y_db y))"
proof -
  note sys = sys_ok_parts [OF assms(1)]
  obtain v where v: "r_lock_expires_at r = Some v" using assms(2-4) by (auto simp: locks_set_def running_def)
  let ?u = "v + 1"
  let ?d = "update_runs (\<lambda>x. r_id x = r_id r \<and> stuck ?u x) (reclaimed ?u) (y_db y)"
  have stuck: "stuck ?u r" using v assms(4) by (simp add: stuck_def)
  obtain s where s: "s \<in> set (subscriptions (y_db y))" "subscriptions_of_job (r_job_id r) (y_db y) = [s]"
    using subscriptions_of_job_one [OF sys(1) db_ok_run_job [OF sys(1) assms(3)]] by blast
  have re: "reclaim_run ?u (r_id r) (y_db y) = Inr (Some (r_job_id r, r_attempt r, Some s), ?d)"
    unfolding reclaim_run_iff [OF sys(1)] using assms(3) s stuck by blast
  have "(r_job_id r, r_attempt r + 1) \<notin> slots (y_db y)"
    using ledger_ok_rows(3) [OF sys(2) assms(3)] assms(4) by (simp add: run_ledger_ok_def active_def)
  then have "(r_job_id r, r_attempt r + 1) \<notin> slots ?d" by (simp add: slots_reclaim [OF sys(1) re])
  moreover have "reclaimed ?u r \<in> set (job_runs ?d)" using assms(3) stuck by (auto simp: set_update_where)
  ultimately show ?thesis using that re ledger_ok_rows(2) [OF sys(2) s(1)] by blast
qed

text \<open>
  C8: a run whose executor is gone is not lost. In every reachable state a RUNNING run, whatever
  has happened to its executor, can be taken over by one free recovery worker alone: there is a
  continuation that sends no request, after which the run is FAILED and the next attempt of its
  job waits to be claimed, or it is DEAD with a dead letter for the operators. Needed for it: the
  identifiers drawn are new.
\<close>

theorem running_run_can_be_taken_over:
  fixes i :: recover_inputs
  assumes "sys_start y0" and "(sys_step X S c name)\<^sup>*\<^sup>* y0 y"
    and "r \<in> set (job_runs (y_db y))" and "r_status r = JobRunStatus.RUNNING" and "y_rec y k = None"
    and "vi_run_id i \<notin> r_id ` set (job_runs (y_db y))" and "vi_dlq_id i \<notin> d_id ` set (dead_letter_queue (y_db y))"
  shows "\<exists>z. (sys_step X S c name)\<^sup>*\<^sup>* y z \<and> w_requests (y_world z) = w_requests (y_world y)
    \<and> ((\<exists>r' \<in> set (job_runs (y_db z)). r_id r' = r_id r \<and> r_status r' = JobRunStatus.FAILED)
         \<and> (\<exists>n \<in> set (job_runs (y_db z)). r_job_id n = r_job_id r \<and> r_attempt n = r_attempt r + 1
              \<and> r_status n = JobRunStatus.PENDING)
      \<or> (\<forall>r' \<in> set (job_runs (y_db z)). r_id r' = r_id r \<longrightarrow> r_status r' = JobRunStatus.DEAD)
         \<and> (\<exists>e \<in> set (dead_letter_queue (y_db z)). d_job_run_id e = r_id r))"
proof -
  have inv: "sys_ok X y" "locks_set (y_db y)" using locked.inv_reachable [OF assms(1,2)] by simp_all
  obtain u s d1 where d1: "d1 = update_runs (\<lambda>x. r_id x = r_id r \<and> stuck u x) (reclaimed u) (y_db y)"
    and re: "reclaim_run u (r_id r) (y_db y) = Inr (Some (r_job_id r, r_attempt r, Some s), d1)"
    and policy: "readable_policy (s_retry_policy s)" and mem: "reclaimed u r \<in> set (job_runs d1)"
    and slot: "(r_job_id r, r_attempt r + 1) \<notin> slots d1"
    using running_run_reclaimed [OF inv assms(3,4)] by blast
  let ?y1 = "(set_db d1 y)\<lparr>y_rec := (y_rec y)(k \<mapsto> (r_id r, r_job_id r, r_attempt r, s))\<rparr>"
  have m1: "sys_step X S c name y ?y1" using assms(5) re by (rule sys_step.reclaim)
  let ?r = "reclaimed u r"
  have ids: "vi_run_id i \<notin> r_id ` set (job_runs d1)" "vi_dlq_id i \<notin> d_id ` set (dead_letter_queue d1)"
    using assms(6,7) by (simp_all add: d1 image_update_where)
  have "db_ok d1" using sys_ok_parts(1) [OF sys_ok_step [OF inv(1) m1]] by simp
  moreover have "(r_job_id ?r, r_attempt ?r + 1) \<notin> slots d1" using slot by simp
  ultimately
  obtain d2 where route: "route_reclaimed i (r_id ?r) (r_job_id ?r) (r_attempt ?r) s d1 = Inr d2"
    and out: "(new_run (vi_run_id i) (r_job_id ?r) (r_attempt ?r + 1) None (db_now d1) \<in> set (job_runs d2) \<and> ?r \<in> set (job_runs d2))
      \<or> (\<exists>e \<in> set (dead_letter_queue d2). d_job_run_id e = r_id ?r)
        \<and> (\<forall>x \<in> set (job_runs d2). r_id x = r_id ?r \<longrightarrow> r_status x = JobRunStatus.DEAD)"
    using route_goes_through [of d1 s ?r i] policy mem ids by blast
  let ?z = "(set_db d2 ?y1)\<lparr>y_rec := (y_rec ?y1)(k := None)\<rparr>"
  have m2: "sys_step X S c name ?y1 ?z"
    by (rule sys_step.route [where run_id = "r_id r" and job_id = "r_job_id r" and attempt = "r_attempt r" and sub = s])
      (use route in simp_all)
  have "(sys_step X S c name)\<^sup>*\<^sup>* y ?z" using m1 m2 by (meson converse_rtranclp_into_rtranclp rtranclp.rtrancl_refl)
  moreover have "w_requests (y_world ?z) = w_requests (y_world y)" by simp
  moreover have "(\<exists>r' \<in> set (job_runs d2). r_id r' = r_id r \<and> r_status r' = JobRunStatus.FAILED)
         \<and> (\<exists>n \<in> set (job_runs d2). r_job_id n = r_job_id r \<and> r_attempt n = r_attempt r + 1 \<and> r_status n = JobRunStatus.PENDING)
      \<or> (\<forall>r' \<in> set (job_runs d2). r_id r' = r_id r \<longrightarrow> r_status r' = JobRunStatus.DEAD)
         \<and> (\<exists>e \<in> set (dead_letter_queue d2). d_job_run_id e = r_id r)"
    using out
  proof
    assume a: "new_run (vi_run_id i) (r_job_id ?r) (r_attempt ?r + 1) None (db_now d1) \<in> set (job_runs d2) \<and> ?r \<in> set (job_runs d2)"
    have "\<exists>r' \<in> set (job_runs d2). r_id r' = r_id r \<and> r_status r' = JobRunStatus.FAILED"
      by (rule bexI [OF _ conjunct2 [OF a]]) simp
    moreover have "\<exists>n \<in> set (job_runs d2). r_job_id n = r_job_id r \<and> r_attempt n = r_attempt r + 1 \<and> r_status n = JobRunStatus.PENDING"
      by (rule bexI [OF _ conjunct1 [OF a]]) simp
    ultimately show ?thesis by blast
  qed simp
  ultimately show ?thesis by (intro exI [of _ ?z]) simp
qed

text \<open>The first run of the worked example, its executor dead right after the claim.\<close>

theorem running_run_can_be_taken_over_witness:
  "rent_moves (rent_sys (empty_db 0) [] Finished None)
      (rent_sys (rent_db [claimed_run (new_run 1 5 1 None 0)]) [] Finished None)
    \<and> (\<exists>z. rent_moves (rent_sys (rent_db [claimed_run (new_run 1 5 1 None 0)]) [] Finished None) z
         \<and> w_requests (y_world z) = []
         \<and> ((\<exists>n \<in> set (job_runs (y_db z)). r_attempt n = 2 \<and> r_status n = JobRunStatus.PENDING)
           \<or> (\<exists>e \<in> set (dead_letter_queue (y_db z)). d_job_run_id e = 1)))"
proof -
  let ?r = "claimed_run (new_run 1 5 1 None 0)"
  let ?y = "rent_sys (rent_db [?r]) [] Finished None"
  have "rent_step (rent_sys (rent_db [new_run 1 5 1 None 0]) [] Finished None) (rent_sys (rent_db [?r]) [] (Load 1) None)"
    using rent_claims [of "new_run 1 5 1 None 0" 1 "[]" "[]"] by simp
  then have y: "rent_moves (rent_sys (empty_db 0) [] Finished None) ?y"
    using rent_begins rent_crash_step by (meson rtranclp.rtrancl_into_rtrancl)
  have "\<exists>z. rent_moves ?y z \<and> w_requests (y_world z) = w_requests (y_world ?y)
    \<and> ((\<exists>r' \<in> set (job_runs (y_db z)). r_id r' = r_id ?r \<and> r_status r' = JobRunStatus.FAILED)
         \<and> (\<exists>n \<in> set (job_runs (y_db z)). r_job_id n = r_job_id ?r \<and> r_attempt n = r_attempt ?r + 1
              \<and> r_status n = JobRunStatus.PENDING)
      \<or> (\<forall>r' \<in> set (job_runs (y_db z)). r_id r' = r_id ?r \<longrightarrow> r_status r' = JobRunStatus.DEAD)
         \<and> (\<exists>e \<in> set (dead_letter_queue (y_db z)). d_job_run_id e = r_id ?r))"
    by (rule running_run_can_be_taken_over [OF rent_start y, where k = 0 and i = example_recover])
      (simp_all add: rent_sys_def rent_db_def claimed_run_def example_recover_def)
  moreover have "w_requests (y_world ?y) = []" by (simp add: rent_sys_def)
  ultimately obtain z where "rent_moves ?y z" and "w_requests (y_world z) = []" and
    "(\<exists>n \<in> set (job_runs (y_db z)). r_attempt n = 2 \<and> r_status n = JobRunStatus.PENDING)
      \<or> (\<exists>e \<in> set (dead_letter_queue (y_db z)). d_job_run_id e = 1)"
    by (fastforce simp: claimed_run_def)
  with y show ?thesis by blast
qed

end
