(* ===== verification/Session.thy ===== *)
theory Session
  imports Schema
begin

text \<open>
  \<open>app/infrastructure/db/session.py\<close>: the module's three globals (engine, canonical factory, active
  factory) with the operations on them, and the unit of work every route and the session manager
  run their statements in. An engine is known by the number of its creation; which of the created
  ones have been disposed is part of the state. The connection pool itself is SQLAlchemy's.
\<close>

section \<open>The module's state\<close>

datatype factory = EngineFactory nat | TestFactory nat

record session_module =
  sm_engine :: "nat option"
  sm_canonical :: "factory option"
  sm_active :: "factory option"
  sm_created :: nat
  sm_disposed :: "nat list"

definition session_unloaded :: session_module where
  "session_unloaded =
     \<lparr>sm_engine = None, sm_canonical = None, sm_active = None, sm_created = 0, sm_disposed = []\<rparr>"

definition init_db :: "session_module \<Rightarrow> session_module" where
  "init_db m =
     (let engine = sm_created m; f = EngineFactory engine in
      m\<lparr>sm_engine := Some engine, sm_canonical := Some f, sm_active := Some f, sm_created := Suc engine\<rparr>)"

definition close_db :: "session_module \<Rightarrow> session_module" where
  "close_db m =
     (case sm_engine m of
        None \<Rightarrow> m
      | Some engine \<Rightarrow> m\<lparr>sm_engine := None, sm_canonical := None, sm_active := None,
                        sm_disposed := engine # sm_disposed m\<rparr>)"

definition configure_session_factory :: "factory \<Rightarrow> session_module \<Rightarrow> session_module" where
  "configure_session_factory f m = m\<lparr>sm_active := Some f\<rparr>"

definition restore_session_factory :: "session_module \<Rightarrow> session_module" where
  "restore_session_factory m = m\<lparr>sm_active := sm_canonical m\<rparr>"

definition get_session_factory :: "session_module \<Rightarrow> exn + factory" where
  "get_session_factory m = (case sm_active m of Some f \<Rightarrow> Inr f | None \<Rightarrow> Inl RuntimeError)"

text \<open>\<open>_factory\<close> of the three workers.\<close>

definition worker_factory :: "factory option \<Rightarrow> session_module \<Rightarrow> exn + factory" where
  "worker_factory injected m =
     (case injected of Some f \<Rightarrow> Inr f | None \<Rightarrow> get_session_factory m)"

section \<open>The unit of work\<close>

text \<open>
  \<open>get_db_session\<close> around a body: the body sees and changes a private copy of the database; a
  normal return commits, which may still fail (\<open>commit_fails\<close>), an exception rolls back, and the
  exception goes on to the caller.
\<close>

definition get_db_session ::
  "session_module \<Rightarrow> exn option \<Rightarrow> (db \<Rightarrow> (exn + 'a) \<times> db) \<Rightarrow> db \<Rightarrow> (exn + 'a) \<times> db" where
  "get_db_session m commit_fails body d =
     (case get_session_factory m of
        Inl e \<Rightarrow> (Inl e, d)
      | Inr f \<Rightarrow>
          (case body d of
             (Inl e, d') \<Rightarrow> (Inl e, d)
           | (Inr x, d') \<Rightarrow> (case commit_fails of Some e \<Rightarrow> (Inl e, d) | None \<Rightarrow> (Inr x, d'))))"

text \<open>
  The unit of work is all or nothing: it ends with an exception and the database as it was,
  or with the body's value and the body's database; and it ends normally exactly when a session
  factory is active, the body returns and the commit goes through.
\<close>

theorem unit_of_work:
  "(case get_db_session m commit_fails body d of
      (Inl e, d') \<Rightarrow> d' = d
    | (Inr x, d') \<Rightarrow> body d = (Inr x, d'))
   \<and> ((\<exists>x d'. get_db_session m commit_fails body d = (Inr x, d'))
      \<longleftrightarrow> sm_active m \<noteq> None \<and> commit_fails = None \<and> (\<exists>x d'. body d = (Inr x, d')))"
  by (auto simp: get_db_session_def get_session_factory_def split: option.splits sum.splits prod.splits)

section \<open>Lifecycle\<close>

datatype session_op = InitDb | CloseDb | Configure nat | Restore

fun session_step :: "session_op \<Rightarrow> session_module \<Rightarrow> session_module" where
  "session_step InitDb m = init_db m"
| "session_step CloseDb m = close_db m"
| "session_step (Configure k) m = configure_session_factory (TestFactory k) m"
| "session_step Restore m = restore_session_factory m"

definition session_run :: "session_op list \<Rightarrow> session_module \<Rightarrow> session_module" where
  "session_run ops m = fold session_step ops m"

text \<open>Engines nobody has disposed and nobody can dispose any more.\<close>

definition leaked :: "session_module \<Rightarrow> nat list" where
  "leaked m = filter (\<lambda>e. e \<notin> set (sm_disposed m) \<and> sm_engine m \<noteq> Some e) [0..<sm_created m]"

definition session_ok :: "session_module \<Rightarrow> bool" where
  "session_ok m \<longleftrightarrow> sm_canonical m = map_option EngineFactory (sm_engine m)
     \<and> (\<forall>e. sm_engine m = Some e \<longrightarrow> e < sm_created m \<and> e \<notin> set (sm_disposed m))
     \<and> set (sm_disposed m) \<subseteq> {..<sm_created m} \<and> distinct (sm_disposed m)
     \<and> (\<forall>e. sm_active m = Some (EngineFactory e) \<longrightarrow> sm_engine m = Some e)"

lemma session_ok_unloaded [simp]: "session_ok session_unloaded"
  by (simp add: session_ok_def session_unloaded_def)

lemma session_ok_step: "session_ok m \<Longrightarrow> session_ok (session_step op m)"
  by (cases op)
    (auto simp: session_ok_def init_db_def close_db_def configure_session_factory_def
      restore_session_factory_def Let_def split: option.splits)

interpretation session: inductive_invariant "\<lambda>m. m = session_unloaded" "\<lambda>m m'. \<exists>op. m' = session_step op m" session_ok
  by unfold_locales (auto intro: session_ok_step)

lemma session_run_moves: "(\<lambda>m m'. \<exists>op. m' = session_step op m)\<^sup>*\<^sup>* m (session_run ops m)"
  unfolding session_run_def
proof (induction ops arbitrary: m)
  case (Cons op ops)
  from Cons.IH [of "session_step op m"] show ?case
    by (auto intro: converse_rtranclp_into_rtranclp)
qed simp

text \<open>How many calls of \<open>init_db\<close> met an engine that was still open.\<close>

fun reopenings :: "session_op list \<Rightarrow> session_module \<Rightarrow> nat" where
  "reopenings [] m = 0"
| "reopenings (op # ops) m =
     (if op = InitDb \<and> sm_engine m \<noteq> None then 1 else 0) + reopenings ops (session_step op m)"

lemma filter_minus_one:
  assumes "e < n" and "P e"
  shows "length (filter P [0..<n]) = length (filter (\<lambda>x. P x \<and> x \<noteq> e) [0..<n]) + 1"
proof -
  let ?A = "{x. P x} \<inter> {0..<n}"
  have "{x. P x \<and> x \<noteq> e} \<inter> {0..<n} = ?A - {e}" by blast
  moreover have "Suc (card (?A - {e})) = card ?A" using assms by (intro card_Suc_Diff1) auto
  ultimately show ?thesis by (simp add: distinct_length_filter)
qed

lemma leaked_step:
  assumes "session_ok m"
  shows "length (leaked (session_step op m)) = length (leaked m) + (if op = InitDb \<and> sm_engine m \<noteq> None then 1 else 0)"
proof (cases op)
  case InitDb
  have new: "sm_created m \<notin> set (sm_disposed m)" using assms by (auto simp: session_ok_def)
  let ?n = "sm_created m" and ?D = "set (sm_disposed m)"
  have l: "leaked (init_db m) = filter (\<lambda>e. e \<notin> ?D) [0..<?n]"
    by (auto simp: leaked_def init_db_def Let_def intro: filter_cong)
  show ?thesis
  proof (cases "sm_engine m")
    case None
    then show ?thesis using InitDb l by (simp add: leaked_def)
  next
    case (Some e)
    then have e: "e < ?n" "e \<notin> ?D" using assms by (auto simp: session_ok_def)
    have "length (filter (\<lambda>x. x \<notin> ?D) [0..<?n]) = length (filter (\<lambda>x. x \<notin> ?D \<and> x \<noteq> e) [0..<?n]) + 1"
      using e by (rule filter_minus_one [where P = "\<lambda>x. x \<notin> ?D"])
    moreover have "leaked m = filter (\<lambda>x. x \<notin> ?D \<and> x \<noteq> e) [0..<?n]"
      unfolding leaked_def Some by (rule filter_cong) auto
    ultimately show ?thesis using InitDb l Some by simp
  qed
next
  case CloseDb
  have "leaked (close_db m) = leaked m"
  proof (cases "sm_engine m")
    case (Some e)
    have "filter (\<lambda>x. x \<noteq> e \<and> x \<notin> D) xs = filter (\<lambda>x. x \<notin> D \<and> e \<noteq> x) xs" for D xs
      by (rule filter_cong) auto
    with Some show ?thesis by (simp add: leaked_def close_db_def)
  qed (simp add: close_db_def)
  with CloseDb show ?thesis by simp
qed (simp_all add: leaked_def configure_session_factory_def restore_session_factory_def)

lemma leaked_run:
  "session_ok m \<Longrightarrow> length (leaked (session_run ops m)) = length (leaked m) + reopenings ops m"
proof (induction ops arbitrary: m)
  case (Cons op ops)
  then show ?case
    using leaked_step [OF Cons.prems, of op] session_ok_step [OF Cons.prems, of op]
    by (simp add: session_run_def)
qed (simp add: session_run_def)

text \<open>
  After any sequence of initialisations, shutdowns and overrides, an engine-bound factory that
  is handed out belongs to the engine that is open, never to a disposed one; without an open engine
  and without an override every use fails with the RuntimeError; and the engines that are lost
  without being disposed are exactly those an \<open>init_db\<close> replaced while they were open.
\<close>

theorem engine_lifecycle:
  "(get_session_factory (session_run ops session_unloaded) = Inr (EngineFactory e) \<longrightarrow>
      sm_engine (session_run ops session_unloaded) = Some e
      \<and> e \<notin> set (sm_disposed (session_run ops session_unloaded)))
   \<and> get_session_factory (close_db (init_db (session_run ops session_unloaded))) = Inl RuntimeError
   \<and> length (leaked (session_run ops session_unloaded)) = reopenings ops session_unloaded"
proof -
  let ?m = "session_run ops session_unloaded"
  have ok: "session_ok ?m" using session.inv_reachable [OF refl session_run_moves] .
  have "get_session_factory ?m = Inr (EngineFactory e) \<longrightarrow> sm_engine ?m = Some e \<and> e \<notin> set (sm_disposed ?m)"
    using ok by (auto simp: get_session_factory_def session_ok_def split: option.splits)
  moreover have "leaked session_unloaded = []" by (simp add: leaked_def session_unloaded_def)
  ultimately show ?thesis
    by (simp add: leaked_run get_session_factory_def close_db_def init_db_def Let_def)
qed

theorem engine_lifecycle_witness:
  "get_session_factory (session_run [InitDb, Configure 3, Restore, InitDb] session_unloaded) = Inr (EngineFactory 1)
   \<and> sm_engine (session_run [InitDb, Configure 3, Restore, InitDb] session_unloaded) = Some 1
   \<and> length (leaked (session_run [InitDb, Configure 3, Restore, InitDb] session_unloaded)) = 1"
proof -
  let ?ops = "[InitDb, Configure 3, Restore, InitDb]"
  have "get_session_factory (session_run ?ops session_unloaded) = Inr (EngineFactory 1)"
    by (simp add: session_run_def get_session_factory_def init_db_def Let_def session_unloaded_def
        configure_session_factory_def restore_session_factory_def)
  moreover have "reopenings ?ops session_unloaded = 1"
    by (simp add: init_db_def Let_def session_unloaded_def configure_session_factory_def restore_session_factory_def)
  ultimately show ?thesis using engine_lifecycle [of ?ops 1] by simp
qed

end
