(* ===== verification/Worker.thy ===== *)
theory Worker
  imports Session ExecutorFacts RecoveryFacts Scheduler
begin

text \<open>
  \<open>app/infrastructure/messaging/workers.py\<close> and the \<open>main\<close> functions of the three workers: the
  polling loop over a worker's tick, the stop flag, the SIGTERM handler and the process from
  \<open>init_db\<close> to \<open>close_db\<close>. What happens around a tick is the input of the loop: one record per
  cycle with what others did to the shared state before the tick, the tick's own inputs, and
  whether a signal or a cancellation arrives during the tick or the sleep. The loop runs over a
  list of such cycles; \<open>StillRunning\<close> is the result when the list ends first, so a claim that the
  loop ends excludes that result.
\<close>

section \<open>Signals\<close>

datatype worker_kind = ExecutorKind | SchedulerKind | RecoveryKind

text \<open>
  The handler each \<open>main\<close> installs is \<open>lambda: worker.stop()\<close>. For the executor that is
  \<open>BaseWorker.stop\<close>, which sets the flag. The scheduler and the recovery worker override \<open>stop\<close>
  with a coroutine function: calling it makes a coroutine object that nobody awaits, and its body
  does not run.
\<close>

datatype stop_method = PlainMethod | CoroutineMethod

definition stop_method_of :: "worker_kind \<Rightarrow> stop_method" where
  "stop_method_of k = (case k of ExecutorKind \<Rightarrow> PlainMethod | SchedulerKind \<Rightarrow> CoroutineMethod
     | RecoveryKind \<Rightarrow> CoroutineMethod)"

definition base_stop :: "bool \<Rightarrow> bool" where
  "base_stop flag = True"

definition call_without_await :: "stop_method \<Rightarrow> (bool \<Rightarrow> bool) \<Rightarrow> bool \<Rightarrow> bool" where
  "call_without_await m body flag = (case m of PlainMethod \<Rightarrow> body flag | CoroutineMethod \<Rightarrow> flag)"

definition on_sigterm :: "worker_kind \<Rightarrow> bool \<Rightarrow> bool" where
  "on_sigterm k flag = call_without_await (stop_method_of k) base_stop flag"

text \<open>\<open>stop\<close> of the two leader-only workers when it is awaited: the flag, then \<open>release\<close>; an
  exception of \<open>release\<close> goes to the caller with the flag set.\<close>

definition leader_worker_stop ::
  "'s redis \<Rightarrow> fault \<Rightarrow> int \<Rightarrow> bool \<Rightarrow> Election \<Rightarrow> 's \<Rightarrow> (exn + unit) \<times> bool \<times> Election \<times> 's" where
  "leader_worker_stop R fl now flag e s =
     (case release R fl now e s of (res, e', s') \<Rightarrow> (res, base_stop flag, e', s'))"

section \<open>What the constructors and properties choose\<close>

definition poll_interval :: "worker_kind \<Rightarrow> Settings \<Rightarrow> rat" where
  "poll_interval k S =
     (case k of ExecutorKind \<Rightarrow> EXECUTOR_POLL_INTERVAL_S S | SchedulerKind \<Rightarrow> SCHEDULER_INTERVAL_S S
      | RecoveryKind \<Rightarrow> RECOVERY_INTERVAL_S S)"

text \<open>The identity an executor stamps on the rows it claims: the argument, else the environment, else
  the settings, else a generated one; an empty text counts as absent.\<close>

definition py_or :: "string \<Rightarrow> string \<Rightarrow> string" where
  "py_or a b = (if a = [] then b else a)"

definition executor_worker_id :: "string option \<Rightarrow> string \<Rightarrow> Settings \<Rightarrow> string \<Rightarrow> string" where
  "executor_worker_id worker_id env S generated =
     (let env_id = py_or env (WORKER_ID S);
          fallback = (if env_id \<noteq> [] then env_id else generated) in
      case worker_id of None \<Rightarrow> fallback | Some w \<Rightarrow> py_or w fallback)"

lemma executor_worker_id_given: "generated \<noteq> [] \<Longrightarrow> executor_worker_id w env S generated \<noteq> []"
  by (simp add: executor_worker_id_def py_or_def Let_def split: option.split)

section \<open>The loop\<close>

datatype tick_outcome = TickDone | TickRaised exn | TickCancelled

datatype sleep_outcome = Slept | SleptSignal | SleepCancelled

record ('i, 's) cycle =
  cy_others :: "'s \<Rightarrow> 's"
  cy_input :: 'i
  cy_signal :: bool
  cy_sleep :: sleep_outcome

datatype loop_end = StillRunning | Stopped | Cancelled

text \<open>\<open>BaseWorker.run\<close>, with the handler that a signal runs on the flag.\<close>

fun worker_run ::
  "('i \<Rightarrow> 's \<Rightarrow> tick_outcome \<times> 's) \<Rightarrow> (bool \<Rightarrow> bool) \<Rightarrow> ('i, 's) cycle list \<Rightarrow> bool \<Rightarrow> 's \<Rightarrow> loop_end \<times> 's" where
  "worker_run tick handler [] stop s = (if stop then Stopped else StillRunning, s)"
| "worker_run tick handler (c # cs) stop s =
     (if stop then (Stopped, s)
      else case tick (cy_input c) (cy_others c s) of
        (TickCancelled, s') \<Rightarrow> (Cancelled, s')
      | (_, s') \<Rightarrow>
          (let stop' = (if cy_signal c then handler stop else stop) in
           if stop' then worker_run tick handler cs stop' s'
           else case cy_sleep c of
             SleepCancelled \<Rightarrow> (Cancelled, s')
           | SleptSignal \<Rightarrow> worker_run tick handler cs (handler stop') s'
           | Slept \<Rightarrow> worker_run tick handler cs stop' s'))"

section \<open>What the loop does\<close>

definition signalled :: "('i, 's) cycle \<Rightarrow> bool" where
  "signalled c \<longleftrightarrow> cy_signal c \<or> cy_sleep c = SleptSignal"

text \<open>The cycles up to and including the first with a signal.\<close>

fun through_first :: "('a \<Rightarrow> bool) \<Rightarrow> 'a list \<Rightarrow> 'a list" where
  "through_first P [] = []"
| "through_first P (x # xs) = (if P x then [x] else x # through_first P xs)"

lemma through_first_prefix: "\<exists>n. through_first P xs = take n xs"
proof (induction xs)
  case (Cons x xs)
  then obtain n where "through_first P xs = take n xs" ..
  then have "through_first P (x # xs) = take (if P x then 1 else Suc n) (x # xs)" by simp
  then show ?case ..
qed simp

definition cycle_state :: "('i \<Rightarrow> 's \<Rightarrow> tick_outcome \<times> 's) \<Rightarrow> ('i, 's) cycle \<Rightarrow> 's \<Rightarrow> 's" where
  "cycle_state tick c s = snd (tick (cy_input c) (cy_others c s))"

lemma worker_run_stopped [simp]: "worker_run tick handler cs True s = (Stopped, s)"
  by (cases cs) simp_all

text \<open>One cycle of a tick that is not cancelled.\<close>

lemma worker_run_cycle:
  assumes "fst (tick (cy_input c) (cy_others c s)) \<noteq> TickCancelled" and "cy_sleep c \<noteq> SleepCancelled"
  shows "worker_run tick base_stop (c # cs) False s
    = worker_run tick base_stop cs (signalled c) (cycle_state tick c s)"
  using assms
  by (cases "tick (cy_input c) (cy_others c s)"; cases "cy_sleep c"; cases "fst (tick (cy_input c) (cy_others c s))")
    (auto simp: signalled_def cycle_state_def base_stop_def Let_def)

lemma worker_loop_fold:
  assumes "\<forall>i s. fst (tick i s) \<noteq> TickCancelled" and "\<forall>c \<in> set cs. cy_sleep c \<noteq> SleepCancelled"
  shows "worker_run tick base_stop cs False s
    = (if \<exists>c \<in> set cs. signalled c then Stopped else StillRunning,
       fold (cycle_state tick) (through_first signalled cs) s)"
  using assms(2)
proof (induction cs arbitrary: s)
  case (Cons c cs)
  then show ?case using assms(1) worker_run_cycle [of tick c s cs] by (cases "signalled c") simp_all
qed simp

text \<open>
  C24: the loop of a worker whose handler sets the flag is the fold of its ticks over the cycles
  up to and including the one in which the first signal arrives, whatever exceptions the ticks
  raise: no exception ends it or skips a later tick, the tick during which the signal arrives is
  completed, none is started after it; with a signal the loop ends, and without one it goes on.
\<close>

theorem worker_loop_exact:
  assumes "\<forall>i s. fst (tick i s) \<noteq> TickCancelled" and "\<forall>c \<in> set cs. cy_sleep c \<noteq> SleepCancelled"
  shows "worker_run tick base_stop cs False s
    = (if \<exists>c \<in> set cs. signalled c then Stopped else StillRunning,
       fold (cycle_state tick) (through_first signalled cs) s)"
  using assms by (rule worker_loop_fold)

text \<open>A cancellation ends the loop at once, with the exception passed on.\<close>

lemma cancelled_ends:
  "fst (tick (cy_input c) (cy_others c s)) = TickCancelled \<Longrightarrow>
     worker_run tick handler (c # cs) False s = (Cancelled, cycle_state tick c s)"
  by (cases "tick (cy_input c) (cy_others c s)") (simp add: cycle_state_def)

section \<open>Processes\<close>

text \<open>\<open>main\<close> of a worker module: logging, \<open>init_db\<close>, the loop, and \<open>close_db\<close> in the \<open>finally\<close>.\<close>

definition main_process ::
  "worker_kind \<Rightarrow> ('i \<Rightarrow> 's \<Rightarrow> tick_outcome \<times> 's) \<Rightarrow> ('i, 's) cycle list \<Rightarrow> 's \<Rightarrow> session_module
     \<Rightarrow> loop_end \<times> 's \<times> session_module" where
  "main_process k tick cs s m =
     (let m1 = init_db m; (e, s') = worker_run tick (on_sigterm k) cs False s in
      (e, s', if e = StillRunning then m1 else close_db m1))"

lemma on_sigterm_simps [simp]:
  "on_sigterm ExecutorKind = base_stop"
  "on_sigterm SchedulerKind = (\<lambda>flag. flag)"
  "on_sigterm RecoveryKind = (\<lambda>flag. flag)"
  by (simp_all add: on_sigterm_def stop_method_of_def call_without_await_def fun_eq_iff)

lemma unhandled_runs_on:
  assumes "\<forall>i s. fst (tick i s) \<noteq> TickCancelled" and "\<forall>c \<in> set cs. cy_sleep c \<noteq> SleepCancelled"
  shows "fst (worker_run tick (\<lambda>flag. flag) cs False s) = StillRunning"
  using assms(2)
proof (induction cs arbitrary: s)
  case (Cons c cs)
  obtain out s' where t: "tick (cy_input c) (cy_others c s) = (out, s')" by fastforce
  then have "out \<noteq> TickCancelled" using assms(1) by (metis fst_conv)
  with Cons t show ?case by (cases out; cases "cy_sleep c") (simp_all add: Let_def)
qed simp


section \<open>What a process keeps\<close>

text \<open>The contract between a tick and the loop: whatever the tick is given, it keeps an invariant
  of the shared state. The loop then keeps it for as long as the other parties do.\<close>

locale kept_by_ticks =
  fixes tick :: "'i \<Rightarrow> 's \<Rightarrow> tick_outcome \<times> 's" and inv :: "'s \<Rightarrow> bool"
  assumes tick_keeps: "inv s \<Longrightarrow> inv (snd (tick i s))"
begin

lemma run_keeps:
  assumes "\<forall>c \<in> set cs. \<forall>s. inv s \<longrightarrow> inv (cy_others c s)" and "inv s"
  shows "inv (snd (worker_run tick handler cs stop s))"
  using assms
proof (induction cs arbitrary: s stop)
  case (Cons c cs)
  obtain out s' where t: "tick (cy_input c) (cy_others c s) = (out, s')" by fastforce
  have "inv (snd (tick (cy_input c) (cy_others c s)))" using Cons.prems by (intro tick_keeps) simp
  then have "inv s'" by (simp add: t)
  with Cons t show ?case by (cases out; cases "cy_sleep c") (simp_all add: Let_def)
qed simp

lemma process_keeps:
  assumes "\<forall>c \<in> set cs. \<forall>s. inv s \<longrightarrow> inv (cy_others c s)" and "inv s"
    and "main_process k tick cs s m = (e, s', m')"
  shows "inv s'"
  using run_keeps [OF assms(1,2), of "on_sigterm k" False] assms(3)
  by (auto simp: main_process_def Let_def split: prod.splits)

end

text \<open>The ticks of the three workers as the loop calls them. The shared state of a leader-only
  worker is its election, the Redis store and the database.\<close>

definition executor_loop_tick ::
  "ext \<Rightarrow> Settings \<Rightarrow> client \<Rightarrow> string \<Rightarrow> datetime \<times> (uuid \<Rightarrow> bool) \<times> (uuid \<Rightarrow> run_inputs) \<Rightarrow> world
     \<Rightarrow> tick_outcome \<times> world" where
  "executor_loop_tick X S c worker i w =
     (case i of (now, locked, ins) \<Rightarrow> (TickDone, executor_tick X S c worker now locked ins w))"

definition scheduler_loop_tick ::
  "ext \<Rightarrow> Settings \<Rightarrow> 's redis \<Rightarrow> 's sched_inputs \<Rightarrow> Election \<times> 's \<times> db \<Rightarrow> tick_outcome \<times> Election \<times> 's \<times> db" where
  "scheduler_loop_tick X S R i st =
     (case st of (e, s, d) \<Rightarrow>
       (case scheduler_tick X S R i e s d of
          (Inl x, st') \<Rightarrow> (TickRaised x, st') | (Inr out, st') \<Rightarrow> (TickDone, st')))"

definition recovery_loop_tick ::
  "Settings \<Rightarrow> 's redis \<Rightarrow> 's recovery_inputs \<Rightarrow> Election \<times> 's \<times> db \<Rightarrow> tick_outcome \<times> Election \<times> 's \<times> db" where
  "recovery_loop_tick S R i st =
     (case st of (e, s, d) \<Rightarrow>
       (case recovery_tick S R i e s d of
          (Some x, st') \<Rightarrow> (TickRaised x, st') | (None, st') \<Rightarrow> (TickDone, st')))"

lemma db_ok_scheduler_tick:
  "db_ok d \<Longrightarrow> scheduler_tick X S R i e s d = (res, e', s', d') \<Longrightarrow> db_ok d'"
  by (auto simp: scheduler_tick_def schedule_due_subscriptions_def Let_def
      split: sum.splits prod.splits option.splits if_splits intro: db_ok_create_jobs)

lemma db_ok_recovery_tick:
  assumes "db_ok d" and "recovery_tick S R i e s d = (x, e', s', d')"
  shows "db_ok d'"
proof -
  obtain res d1 where rec: "recover_stuck_runs (wi_runs i) (wi_now i) d = (res, d1)" by fastforce
  then have "db_ok d1" using assms(1) db_ok_recover_all unfolding recover_stuck_runs_def by blast
  then have "db_ok d2" if "cancel_orphaned_dag_jobs (wi_dag_clock i) d1 = (y, d2)" for y d2
    using that db_ok_evaluate_all unfolding cancel_orphaned_dag_jobs_def by blast
  with assms rec \<open>db_ok d1\<close> show ?thesis
    by (auto simp: recovery_tick_def split: prod.splits sum.splits if_splits)
qed

interpretation executor_process: kept_by_ticks "executor_loop_tick X S c worker" "\<lambda>w. db_ok (w_db w)"
  for X S c worker
  by unfold_locales (auto simp: executor_loop_tick_def executor_tick_def db_ok_process_batch split: prod.split)

interpretation scheduler_process: kept_by_ticks "scheduler_loop_tick X S R" "\<lambda>(e, s, d). db_ok d"
  for X S R
  by unfold_locales
    (auto simp: scheduler_loop_tick_def split: sum.splits prod.splits dest: db_ok_scheduler_tick)

interpretation recovery_process: kept_by_ticks "recovery_loop_tick S R" "\<lambda>(e, s, d). db_ok d"
  for S R
  by unfold_locales
    (auto simp: recovery_loop_tick_def split: option.splits prod.splits dest: db_ok_recovery_tick)

text \<open>
  None of the three processes ever leaves the database inconsistent: over any number of
  cycles, with any inputs, exceptions, signals and cancellations, unique constraints and foreign
  keys hold at its end if they held at its start and what others do in between keeps them.
\<close>

theorem processes_keep_database:
  assumes "db_ok d"
    and "\<forall>c \<in> set cs1. \<forall>w. db_ok (w_db w) \<longrightarrow> db_ok (w_db (cy_others c w))"
    and "\<forall>c \<in> set cs2. \<forall>e s d. db_ok d \<longrightarrow> db_ok (snd (snd (cy_others c (e, s, d))))"
    and "\<forall>c \<in> set cs3. \<forall>e s d. db_ok d \<longrightarrow> db_ok (snd (snd (cy_others c (e, s, d))))"
  shows "db_ok (w_db (fst (snd (main_process ExecutorKind (executor_loop_tick X S c worker) cs1
            \<lparr>w_db = d, w_requests = rq\<rparr> m))))
    \<and> db_ok (snd (snd (fst (snd (main_process SchedulerKind (scheduler_loop_tick X S R) cs2 (e, s, d) m)))))
    \<and> db_ok (snd (snd (fst (snd (main_process RecoveryKind (recovery_loop_tick S R) cs3 (e, s, d) m)))))"
proof (intro conjI)
  obtain r1 w1 m1 where p1: "main_process ExecutorKind (executor_loop_tick X S c worker) cs1
      \<lparr>w_db = d, w_requests = rq\<rparr> m = (r1, w1, m1)" by (rule prod_cases3)
  obtain r2 e2 s2 d2 m2 where p2: "main_process SchedulerKind (scheduler_loop_tick X S R) cs2 (e, s, d) m
      = (r2, (e2, s2, d2), m2)" by (metis prod_cases3)
  obtain r3 e3 s3 d3 m3 where p3: "main_process RecoveryKind (recovery_loop_tick S R) cs3 (e, s, d) m
      = (r3, (e3, s3, d3), m3)" by (metis prod_cases3)
  show "db_ok (w_db (fst (snd (main_process ExecutorKind (executor_loop_tick X S c worker) cs1
            \<lparr>w_db = d, w_requests = rq\<rparr> m))))"
    using executor_process.process_keeps [OF assms(2) _ p1] assms(1) by (simp add: p1)
  show "db_ok (snd (snd (fst (snd (main_process SchedulerKind (scheduler_loop_tick X S R) cs2 (e, s, d) m)))))"
    using scheduler_process.process_keeps [OF _ _ p2] assms(1,3) by (simp add: p2 split_beta)
  show "db_ok (snd (snd (fst (snd (main_process RecoveryKind (recovery_loop_tick S R) cs3 (e, s, d) m)))))"
    using recovery_process.process_keeps [OF _ _ p3] assms(1,4) by (simp add: p3 split_beta)
qed

section \<open>Worked examples\<close>

text \<open>Two cycles of an executor; the signal arrives in the sleep of the first.\<close>

definition example_cycle :: "sleep_outcome \<Rightarrow> (datetime \<times> (uuid \<Rightarrow> bool) \<times> (uuid \<Rightarrow> run_inputs), world) cycle" where
  "example_cycle z = \<lparr>cy_others = id, cy_input = (100, \<lambda>_. False,
     \<lambda>_. \<lparr>ri_lock = 110, ri_start = 111, ri_locked = \<lambda>_. False, ri_step = example_inputs\<rparr>), cy_signal = False, cy_sleep = z\<rparr>"

definition example_executor ::
  "datetime \<times> (uuid \<Rightarrow> bool) \<times> (uuid \<Rightarrow> run_inputs) \<Rightarrow> world \<Rightarrow> tick_outcome \<times> world" where
  "example_executor = executor_loop_tick example_ext default_settings
     (Injected (\<lambda>cfg key. Inl (BunqTransientError ''down''))) ''w1''"

lemma example_executor_ends: "fst (example_executor i w) \<noteq> TickCancelled"
  by (simp add: example_executor_def executor_loop_tick_def split: prod.split)

theorem worker_loop_exact_witness:
  "worker_run example_executor base_stop [example_cycle SleptSignal, example_cycle Slept] False example_world
     = (Stopped, cycle_state example_executor (example_cycle SleptSignal) example_world)"
  using worker_loop_exact [of example_executor "[example_cycle SleptSignal, example_cycle Slept]" example_world]
    example_executor_ends
  by (simp add: example_cycle_def signalled_def)


theorem processes_keep_database_witness:
  "db_ok (w_db (fst (snd (main_process ExecutorKind example_executor
     [example_cycle Slept, example_cycle SleptSignal] \<lparr>w_db = example_db, w_requests = []\<rparr> session_unloaded))))"
proof -
  have "\<forall>c \<in> set [example_cycle Slept, example_cycle SleptSignal].
      \<forall>w. db_ok (w_db w) \<longrightarrow> db_ok (w_db (cy_others c w))"
    by (simp add: example_cycle_def)
  note kept = processes_keep_database [OF db_ok_example this, of "[]" "[]"]
  show ?thesis unfolding example_executor_def by (rule conjunct1 [OF kept]) simp_all
qed

end
