(* ===== verification/Logging.thy ===== *)
theory Logging
  imports Settings Errors
begin

text \<open>
  \<open>app/core/logging.py\<close>: what \<open>configure_logging\<close> does to the process-wide state of structlog and
  of the standard logging module, and which records then reach the output. Rendering a record is
  the library's.
\<close>

section \<open>Configuration\<close>

datatype processor =
    MergeContextvars | AddLoggerName | AddLogLevel | TimeStamper string | StackInfoRenderer | FormatExcInfo
  | WrapForFormatter

datatype renderer = JSONRenderer | ConsoleRenderer bool

record formatter =
  fm_processor :: renderer
  fm_foreign_pre_chain :: "processor list"

record structlog_config =
  sl_processors :: "processor list"
  sl_cache_logger_on_first_use :: bool

text \<open>The state: structlog's configuration, the handlers of the root logger, numbered as they are
  made, and the level of each logger. A logger is known by its name split at the dots, the root
  logger by the empty list; level 0 is NOTSET, which asks the parent.\<close>

record logging_state =
  lg_structlog :: "structlog_config option"
  lg_handlers :: "(nat \<times> formatter option) list"
  lg_levels :: "string list \<Rightarrow> int"
  lg_made :: nat

definition logging_start :: "(nat \<times> formatter option) list \<Rightarrow> nat \<Rightarrow> logging_state" where
  "logging_start hs made =
     \<lparr>lg_structlog = None, lg_handlers = hs, lg_levels = (\<lambda>n. 0)([] := 30), lg_made = made\<rparr>"

definition shared_processors :: "processor list" where
  "shared_processors =
     [MergeContextvars, AddLoggerName, AddLogLevel, TimeStamper ''iso'', StackInfoRenderer, FormatExcInfo]"

definition renderer_of :: "Settings \<Rightarrow> renderer" where
  "renderer_of s = (if LOG_FORMAT s = ''json'' then JSONRenderer else ConsoleRenderer True)"

text \<open>\<open>getattr(logging, name, logging.INFO)\<close> for a name in capitals. Besides the levels the module has
  one public constant of such a name, a text, and a private table.\<close>

datatype log_attribute = LevelNumber int | TextConstant | OtherConstant

definition logging_attribute :: "string \<Rightarrow> log_attribute" where
  "logging_attribute name =
     (if name = ''CRITICAL'' \<or> name = ''FATAL'' then LevelNumber 50
      else if name = ''ERROR'' then LevelNumber 40
      else if name = ''WARNING'' \<or> name = ''WARN'' then LevelNumber 30
      else if name = ''INFO'' then LevelNumber 20
      else if name = ''DEBUG'' then LevelNumber 10
      else if name = ''NOTSET'' then LevelNumber 0
      else if name = ''BASIC_FORMAT'' then TextConstant
      else if name = ''_STYLES'' then OtherConstant
      else LevelNumber 20)"

definition set_level :: "string list \<Rightarrow> log_attribute \<Rightarrow> logging_state \<Rightarrow> exn + logging_state" where
  "set_level name v l =
     (case v of
        LevelNumber k \<Rightarrow> Inr (l\<lparr>lg_levels := (lg_levels l)(name := k)\<rparr>)
      | TextConstant \<Rightarrow> Inl (ValueError ''Unknown level'')
      | OtherConstant \<Rightarrow> Inl TypeError)"

text \<open>The handler is replaced before the level is looked up, so a level that is none leaves the
  process with the new handler and the old levels.\<close>

definition install_handler :: "Settings \<Rightarrow> logging_state \<Rightarrow> logging_state" where
  "install_handler s l =
     l\<lparr>lg_structlog := Some \<lparr>sl_processors = shared_processors @ [WrapForFormatter], sl_cache_logger_on_first_use = True\<rparr>,
       lg_handlers := [(lg_made l, Some \<lparr>fm_processor = renderer_of s, fm_foreign_pre_chain = shared_processors\<rparr>)],
       lg_made := Suc (lg_made l)\<rparr>"

definition configure_logging :: "Settings \<Rightarrow> logging_state \<Rightarrow> exn option \<times> logging_state" where
  "configure_logging s l =
     (let l1 = install_handler s l in
      case set_level [] (logging_attribute (str_upper (LOG_LEVEL s))) l1 of
        Inl e \<Rightarrow> (Some e, l1)
      | Inr l2 \<Rightarrow> (None, l2\<lparr>lg_levels := (lg_levels l2)([''sqlalchemy'', ''engine''] := 30, [''uvicorn'', ''access''] := 30)\<rparr>))"

section \<open>Which records are written\<close>

text \<open>\<open>getEffectiveLevel\<close>: the first level that is set, from the logger upwards.\<close>

fun level_upwards :: "(string list \<Rightarrow> int) \<Rightarrow> string list \<Rightarrow> int" where
  "level_upwards lv [] = lv []"
| "level_upwards lv (x # xs) = (if lv (rev (x # xs)) \<noteq> 0 then lv (rev (x # xs)) else level_upwards lv xs)"

definition effective_level :: "logging_state \<Rightarrow> string list \<Rightarrow> int" where
  "effective_level l name = level_upwards (lg_levels l) (rev name)"

text \<open>How often a record is written, when no other logger has handlers of its own.\<close>

definition lines_written :: "logging_state \<Rightarrow> string list \<Rightarrow> int \<Rightarrow> nat" where
  "lines_written l name level = (if effective_level l name \<le> level then length (lg_handlers l) else 0)"

definition configured_times :: "nat \<Rightarrow> Settings \<Rightarrow> logging_state \<Rightarrow> logging_state" where
  "configured_times n s = (\<lambda>l. snd (configure_logging s l)) ^^ n"

lemma configured_state:
  assumes "logging_attribute (str_upper (LOG_LEVEL s)) = LevelNumber k"
  shows "configured_times (Suc n) s (logging_start hs made) =
    \<lparr>lg_structlog = Some \<lparr>sl_processors = shared_processors @ [WrapForFormatter], sl_cache_logger_on_first_use = True\<rparr>,
     lg_handlers = [(made + n, Some \<lparr>fm_processor = renderer_of s, fm_foreign_pre_chain = shared_processors\<rparr>)],
     lg_levels = (\<lambda>n. 0)([] := k, [''sqlalchemy'', ''engine''] := 30, [''uvicorn'', ''access''] := 30),
     lg_made = Suc (made + n)\<rparr>"
proof (induction n)
  case (Suc n)
  have "configured_times (Suc (Suc n)) s l = snd (configure_logging s (configured_times (Suc n) s l))" for l
    by (simp add: configured_times_def)
  then show ?case
    using assms by (simp add: Suc configure_logging_def install_handler_def set_level_def fun_upd_def fun_eq_iff)
qed (use assms in \<open>simp add: configured_times_def configure_logging_def install_handler_def set_level_def
  logging_start_def fun_upd_def fun_eq_iff\<close>)

definition below :: "string list \<Rightarrow> string list \<Rightarrow> bool" where
  "below anc name \<longleftrightarrow> take (length anc) name = anc"

lemma level_upwards_quiet:
  "level_upwards ((\<lambda>n. 0)([] := k, [''sqlalchemy'', ''engine''] := 30, [''uvicorn'', ''access''] := 30)) xs
    = (if below [''sqlalchemy'', ''engine''] (rev xs) \<or> below [''uvicorn'', ''access''] (rev xs) then 30 else k)"
proof (induction xs)
  case (Cons x xs)
  have step: "below t (rev (x # xs)) \<longleftrightarrow> below t (rev xs) \<or> rev (x # xs) = t" if "t \<noteq> []" for t :: "string list"
  proof (cases "length t \<le> length xs")
    case True
    then have "rev (x # xs) \<noteq> t" using arg_cong [of "rev (x # xs)" t length] by auto
    with True show ?thesis by (simp add: below_def)
  next
    case False
    then have "below t (rev (x # xs)) \<longleftrightarrow> rev (x # xs) = t" "\<not> below t (rev xs)"
      by (auto simp: below_def dest: arg_cong [where f = length])
    then show ?thesis by simp
  qed
  show ?case using Cons step [of "[''sqlalchemy'', ''engine'']"] step [of "[''uvicorn'', ''access'']"]
    by (simp del: rev.simps)
qed (simp add: below_def)

text \<open>
  One line per record. However often it is configured and whatever handlers the process
  had before, a record at or above the threshold of its logger is written exactly once, in the
  format the settings ask for, and one below it never; the threshold is the configured level, except under
  \<open>sqlalchemy.engine\<close> and \<open>uvicorn.access\<close>, where it is WARNING, be that higher or lower.
\<close>

theorem one_line_per_record:
  assumes "logging_attribute (str_upper (LOG_LEVEL s)) = LevelNumber k"
  shows "let l = configured_times (Suc n) s (logging_start hs made);
             threshold = (if below [''sqlalchemy'', ''engine''] name \<or> below [''uvicorn'', ''access''] name then 30 else k) in
    lines_written l name level = (if threshold \<le> level then 1 else 0)
    \<and> map (map_option fm_processor \<circ> snd) (lg_handlers l)
        = [Some (if LOG_FORMAT s = ''json'' then JSONRenderer else ConsoleRenderer True)]"
  by (simp add: configured_state [OF assms] lines_written_def effective_level_def level_upwards_quiet renderer_of_def)

text \<open>An unknown level is INFO without a word; a name that is another constant of the module stops
  the process.\<close>

lemma unknown_level:
  assumes "LOG_LEVEL s = ''verbose''"
  shows "effective_level (snd (configure_logging s l)) [] = 20"
proof -
  have "logging_attribute (str_upper ''verbose'') = LevelNumber 20" by code_simp
  with assms show ?thesis by (simp add: configure_logging_def set_level_def effective_level_def Let_def)
qed

theorem one_line_per_record_witness:
  "lines_written (configured_times 3 default_settings (logging_start [(0, None), (1, None)] 2)) [''app'', ''main''] 20 = 1
   \<and> lines_written (configured_times 3 default_settings (logging_start [(0, None), (1, None)] 2))
        [''sqlalchemy'', ''engine'', ''Engine''] 20 = 0"
proof -
  have level: "logging_attribute (str_upper (LOG_LEVEL default_settings)) = LevelNumber 20"
    by code_simp
  show ?thesis
    using one_line_per_record [OF level, of 2 "[(0, None), (1, None)]" 2 "[''app'', ''main'']" 20]
      one_line_per_record [OF level, of 2 "[(0, None), (1, None)]" 2 "[''sqlalchemy'', ''engine'', ''Engine'']" 20]
    by (simp add: Let_def below_def numeral_3_eq_3)
qed

end
