(* ===== verification/Startup.thy ===== *)
theory Startup
  imports Worker Logging
begin

text \<open>
  What a worker process makes before its loop and what it leaves behind: the constructors of the
  workers, of \<open>LeaderElection\<close> and of \<open>BunqClient\<close>, \<open>create_redis\<close>, and the \<open>main\<close> functions from
  \<open>configure_logging\<close> to the end. Connections of redis and httpx are known by the number of their
  creation; the libraries may refuse the address or a header (\<open>refused\<close>).
\<close>

section \<open>Connections\<close>

record connections =
  cn_made :: nat
  cn_open :: "nat list"

definition open_connection :: "connections \<Rightarrow> nat \<times> connections" where
  "open_connection cn = (cn_made cn, \<lparr>cn_made = Suc (cn_made cn), cn_open = cn_made cn # cn_open cn\<rparr>)"

definition close_connection :: "nat \<Rightarrow> connections \<Rightarrow> connections" where
  "close_connection c cn = cn\<lparr>cn_open := filter (\<lambda>x. x \<noteq> c) (cn_open cn)\<rparr>"

definition connections_ok :: "connections \<Rightarrow> bool" where
  "connections_ok cn \<longleftrightarrow> (\<forall>c \<in> set (cn_open cn). c < cn_made cn)"

lemma close_opened:
  "connections_ok cn \<Longrightarrow> open_connection cn = (c, cn') \<Longrightarrow> cn_open (close_connection c cn') = cn_open cn"
  by (auto simp: open_connection_def close_connection_def connections_ok_def filter_id_conv)

text \<open>\<open>create_redis\<close>: \<open>from_url\<close> looks at the URL and connects later.\<close>

definition create_redis :: "(string \<Rightarrow> exn option) \<Rightarrow> Settings \<Rightarrow> connections \<Rightarrow> (exn + nat) \<times> connections" where
  "create_redis refused S cn =
     (case refused (REDIS_URL S) of
        Some e \<Rightarrow> (Inl e, cn)
      | None \<Rightarrow> (case open_connection cn of (c, cn') \<Rightarrow> (Inr c, cn')))"

section \<open>The HTTP client\<close>

record http_client =
  hc_connection :: nat
  hc_base_url :: string
  hc_headers :: "(string \<times> string) list"
  hc_timeout :: rat

definition BunqClient_headers :: "Settings \<Rightarrow> (string \<times> string) list" where
  "BunqClient_headers S =
     [(''Content-Type'', ''application/json''), (''X-Bunq-Client-Authentication'', BUNQ_API_KEY S),
      (''User-Agent'', APP_NAME S @ ''/1.0'')]"

definition BunqClient_init ::
  "(string \<Rightarrow> (string \<times> string) list \<Rightarrow> exn option) \<Rightarrow> Settings \<Rightarrow> connections
     \<Rightarrow> (exn + http_client) \<times> connections" where
  "BunqClient_init refused S cn =
     (case refused (BUNQ_BASE_URL S) (BunqClient_headers S) of
        Some e \<Rightarrow> (Inl e, cn)
      | None \<Rightarrow>
          (case open_connection cn of (c, cn') \<Rightarrow>
             (Inr \<lparr>hc_connection = c, hc_base_url = BUNQ_BASE_URL S, hc_headers = BunqClient_headers S,
                   hc_timeout = 30\<rparr>, cn')))"

definition BunqClient_aexit :: "http_client \<Rightarrow> connections \<Rightarrow> connections" where
  "BunqClient_aexit client cn = close_connection (hc_connection client) cn"

text \<open>\<open>async with BunqClient() as client: ...\<close>: the exit runs however the body ends, and its value,
  \<open>None\<close>, lets an exception of the body through.\<close>

definition with_BunqClient ::
  "(string \<Rightarrow> (string \<times> string) list \<Rightarrow> exn option) \<Rightarrow> Settings
     \<Rightarrow> (http_client \<Rightarrow> connections \<Rightarrow> (exn + 'a) \<times> connections) \<Rightarrow> connections \<Rightarrow> (exn + 'a) \<times> connections" where
  "with_BunqClient refused S body cn =
     (case BunqClient_init refused S cn of
        (Inl e, cn1) \<Rightarrow> (Inl e, cn1)
      | (Inr client, cn1) \<Rightarrow> (case body client cn1 of (res, cn2) \<Rightarrow> (res, BunqClient_aexit client cn2)))"

text \<open>Used in that way the client leaves no connection, whether the body returns or raises.\<close>

lemma with_BunqClient_leaves_nothing:
  assumes "connections_ok cn" and "\<And>client cn. cn_open (snd (body client cn)) = cn_open cn"
  shows "cn_open (snd (with_BunqClient refused S body cn)) = cn_open cn"
proof (cases "BunqClient_init refused S cn")
  case (Pair res cn1)
  show ?thesis
  proof (cases res)
    case (Inl e)
    with Pair show ?thesis
      by (auto simp: with_BunqClient_def BunqClient_init_def split: option.splits prod.splits)
  next
    case (Inr client)
    have "cn_open (BunqClient_aexit client (snd (body client cn1))) = filter (\<lambda>x. x \<noteq> hc_connection client) (cn_open cn1)"
      by (simp add: BunqClient_aexit_def close_connection_def assms(2))
    also have "\<dots> = cn_open (close_connection (hc_connection client) cn1)" by (simp add: close_connection_def)
    also have "\<dots> = cn_open cn"
      using Pair Inr close_opened [OF assms(1)]
      by (auto simp: BunqClient_init_def split: option.splits prod.splits)
    finally show ?thesis using Pair Inr by (simp add: with_BunqClient_def split_beta)
  qed
qed

section \<open>Tokens of the election\<close>

text \<open>\<open>LeaderElection.__init__\<close>: the token is made of the process number and the monotonic clock.\<close>

definition election_token :: "int \<Rightarrow> int \<Rightarrow> string" where
  "election_token pid monotonic_ns = int_str pid @ '':'' @ int_str monotonic_ns"

definition LeaderElection_init :: "int \<Rightarrow> int \<Rightarrow> Election" where
  "LeaderElection_init pid monotonic_ns = Election_init (election_token pid monotonic_ns)"

lemma no_colon_int_str: "CHR '':'' \<notin> set (int_str i)"
  using nat_str_digits [of "CHR '':''"] by (auto simp: int_str_def is_digit_def char_code_def)

text \<open>Two election objects have the same token only when they were made with the same process number
  at the same reading of the clock. Neither is unique across machines: in containers the number is
  often 1 everywhere, and each machine has a monotonic clock of its own.\<close>

lemma election_token_eq_iff: "election_token p n = election_token p' n' \<longleftrightarrow> p = p' \<and> n = n'"
proof
  assume eq: "election_token p n = election_token p' n'"
  have cut: "takeWhile (\<lambda>c. c \<noteq> CHR '':'') (election_token p n) = int_str p" for p n
    unfolding election_token_def by (subst takeWhile_append2) (use no_colon_int_str [of p] in auto)
  from cut [of p n] cut [of p' n'] eq have "int_str p = int_str p'" by simp
  with eq show "p = p' \<and> n = n'" by (simp add: election_token_def)
qed simp

section \<open>Worker objects\<close>

record worker =
  wk_stop :: bool
  wk_factory :: "factory option"
  wk_redis :: "nat option"
  wk_election :: "Election option"

text \<open>\<open>BaseWorker.__init__\<close>, and the constructors over it. The executor has neither a connection nor
  an election; its identity is \<open>executor_worker_id\<close>.\<close>

definition BaseWorker_init :: "factory option \<Rightarrow> worker" where
  "BaseWorker_init injected = \<lparr>wk_stop = False, wk_factory = injected, wk_redis = None, wk_election = None\<rparr>"

definition leader_worker_init ::
  "(string \<Rightarrow> exn option) \<Rightarrow> Settings \<Rightarrow> int \<Rightarrow> int \<Rightarrow> factory option \<Rightarrow> connections
     \<Rightarrow> (exn + worker) \<times> connections" where
  "leader_worker_init refused S pid monotonic_ns injected cn =
     (case create_redis refused S cn of
        (Inl e, cn') \<Rightarrow> (Inl e, cn')
      | (Inr c, cn') \<Rightarrow>
          (Inr ((BaseWorker_init injected)\<lparr>wk_redis := Some c,
                  wk_election := Some (LeaderElection_init pid monotonic_ns)\<rparr>), cn'))"

definition worker_init ::
  "worker_kind \<Rightarrow> (string \<Rightarrow> exn option) \<Rightarrow> Settings \<Rightarrow> int \<Rightarrow> int \<Rightarrow> factory option \<Rightarrow> connections
     \<Rightarrow> (exn + worker) \<times> connections" where
  "worker_init k refused S pid monotonic_ns injected cn =
     (case k of ExecutorKind \<Rightarrow> (Inr (BaseWorker_init injected), cn)
      | SchedulerKind \<Rightarrow> leader_worker_init refused S pid monotonic_ns injected cn
      | RecoveryKind \<Rightarrow> leader_worker_init refused S pid monotonic_ns injected cn)"

text \<open>The whole of \<open>stop\<close> of the two leader-only workers when it is awaited: the connection is closed
  after a release that returns.\<close>

definition stop_and_close ::
  "'s redis \<Rightarrow> fault \<Rightarrow> int \<Rightarrow> nat \<Rightarrow> bool \<Rightarrow> Election \<Rightarrow> 's \<Rightarrow> connections
     \<Rightarrow> (exn + unit) \<times> bool \<times> Election \<times> 's \<times> connections" where
  "stop_and_close R fl now c flag e s cn =
     (case leader_worker_stop R fl now flag e s of
        (Inl x, flag', e', s') \<Rightarrow> (Inl x, flag', e', s', cn)
      | (Inr _, flag', e', s') \<Rightarrow> (Inr (), flag', e', s', close_connection c cn))"

text \<open>An awaited stop that returns frees the lock this process holds and closes its connection.\<close>

lemma stop_and_close_frees:
  assumes "redis_laws R" and "el_is_leader e" and "rd_get R REDIS_LEADER_KEY now s = Some (el_token e)"
    and "stop_and_close R fl now c flag e s cn = (Inr (), flag', e', s', cn')"
  shows "flag' \<and> \<not> el_is_leader e' \<and> c \<notin> set (cn_open cn') \<and> (\<forall>t \<ge> now. rd_get R REDIS_LEADER_KEY t s' = None)"
proof -
  obtain e1 where rel: "release R fl now e s = (Inr (), e1, s')"
    and rest: "flag' = base_stop flag" "e' = e1" "cn' = close_connection c cn"
    using assms(4) by (auto simp: stop_and_close_def leader_worker_stop_def split: sum.splits prod.splits)
  then have "s' = snd (rd_del R REDIS_LEADER_KEY now s)" and "\<not> el_is_leader e1"
    using assms(2,3)
    by (auto simp: release_def Let_def redis_call_Inr release_script_def split: sum.splits prod.splits)
  then have "\<forall>t \<ge> now. rd_get R REDIS_LEADER_KEY t s' = None"
    using redis_shows_key [OF redis_del [OF assms(1)]] by simp
  with rest \<open>\<not> el_is_leader e1\<close> show ?thesis by (simp add: base_stop_def close_connection_def)
qed

section \<open>Processes\<close>

text \<open>
  \<open>main\<close> from its first line: logging, \<open>init_db\<close>, the constructor, and \<open>main_process\<close> for the loop
  between \<open>init_db\<close> and the \<open>close_db\<close> of the \<open>finally\<close>. \<open>enter\<close> makes the loop's state from the new
  worker: for the leader-only workers its election beside what the process shares with others.
\<close>

record process =
  pr_logging :: logging_state
  pr_session :: session_module
  pr_connections :: connections

datatype ending = Died exn | LoopEnded loop_end

definition worker_main ::
  "worker_kind \<Rightarrow> Settings \<Rightarrow> (string \<Rightarrow> exn option) \<Rightarrow> int \<Rightarrow> int \<Rightarrow> ('i \<Rightarrow> 's \<Rightarrow> tick_outcome \<times> 's)
     \<Rightarrow> (worker \<Rightarrow> 's) \<Rightarrow> ('i, 's) cycle list \<Rightarrow> process \<Rightarrow> ending \<times> 's option \<times> process" where
  "worker_main k S refused pid monotonic_ns tick enter cs p =
     (case configure_logging S (pr_logging p) of
        (Some e, l) \<Rightarrow> (Died e, None, p\<lparr>pr_logging := l\<rparr>)
      | (None, l) \<Rightarrow>
          (case worker_init k refused S pid monotonic_ns None (pr_connections p) of
             (Inl e, cn) \<Rightarrow>
               (Died e, None, \<lparr>pr_logging = l, pr_session = init_db (pr_session p), pr_connections = cn\<rparr>)
           | (Inr w, cn) \<Rightarrow>
               (case main_process k tick cs (enter w) (pr_session p) of
                  (out, s, m) \<Rightarrow>
                    (LoopEnded out, Some s, \<lparr>pr_logging = l, pr_session = m, pr_connections = cn\<rparr>))))"

definition log_level_ok :: "Settings \<Rightarrow> bool" where
  "log_level_ok S \<longleftrightarrow> (\<exists>k. logging_attribute (str_upper (LOG_LEVEL S)) = LevelNumber k)"

lemma configure_logging_ok: "fst (configure_logging S l) = None \<longleftrightarrow> log_level_ok S"
  by (auto simp: configure_logging_def set_level_def log_level_ok_def Let_def split: log_attribute.split sum.split)

definition uses_redis :: "worker_kind \<Rightarrow> bool" where
  "uses_redis k \<longleftrightarrow> k \<noteq> ExecutorKind"

lemma worker_init_result:
  "worker_init k refused S pid ns injected cn =
     (if \<not> uses_redis k then (Inr (BaseWorker_init injected), cn)
      else case refused (REDIS_URL S) of
        Some e \<Rightarrow> (Inl e, cn)
      | None \<Rightarrow> (Inr \<lparr>wk_stop = False, wk_factory = injected, wk_redis = Some (cn_made cn),
                    wk_election = Some (LeaderElection_init pid ns)\<rparr>,
               \<lparr>cn_made = Suc (cn_made cn), cn_open = cn_made cn # cn_open cn\<rparr>))"
  by (cases k) (simp_all add: worker_init_def uses_redis_def leader_worker_init_def create_redis_def
    open_connection_def BaseWorker_init_def split: option.split)

text \<open>
  What a worker process leaves behind, for every way it ends. A log level that is no level stops
  it before it opened anything. A Redis URL that is refused stops a scheduler or a recovery process
  after \<open>init_db\<close> and outside the \<open>try\<close>: its engine is not disposed. Once the loop has been entered
  the engine is disposed at every end of it; the Redis connection of a scheduler or a recovery
  process is never closed, and the shared state, the lock in Redis included, is what the
  last cycle left.
\<close>

theorem process_leaves:
  assumes "worker_main k S refused pid ns tick enter cs p = (out, s, p')"
    and "out \<noteq> LoopEnded StillRunning" and "sm_engine (pr_session p) = None"
  shows "(\<not> log_level_ok S \<longrightarrow> (\<exists>e. out = Died e) \<and> pr_session p' = pr_session p \<and> pr_connections p' = pr_connections p)
    \<and> (log_level_ok S \<and> uses_redis k \<and> refused (REDIS_URL S) \<noteq> None \<longrightarrow>
         (\<exists>e. out = Died e) \<and> sm_engine (pr_session p') = Some (sm_created (pr_session p))
         \<and> pr_connections p' = pr_connections p)
    \<and> (log_level_ok S \<and> (uses_redis k \<longrightarrow> refused (REDIS_URL S) = None) \<longrightarrow>
         sm_engine (pr_session p') = None \<and> get_session_factory (pr_session p') = Inl RuntimeError
         \<and> cn_open (pr_connections p')
             = (if uses_redis k then cn_made (pr_connections p) # cn_open (pr_connections p)
                else cn_open (pr_connections p))
         \<and> (\<exists>w. fst (worker_init k refused S pid ns None (pr_connections p)) = Inr w
              \<and> s = Some (snd (worker_run tick (on_sigterm k) cs False (enter w)))))"
proof (cases "configure_logging S (pr_logging p)")
  case (Pair failure l)
  then have ok: "failure = None \<longleftrightarrow> log_level_ok S" using configure_logging_ok [of S "pr_logging p"] by simp
  show ?thesis
  proof (cases failure)
    case (Some e)
    then show ?thesis using assms(1) Pair ok by (auto simp: worker_main_def)
  next
    case None
    then show ?thesis using assms Pair ok
      by (auto simp: worker_main_def worker_init_result main_process_def init_db_def close_db_def
          get_session_factory_def Let_def split: option.splits prod.splits if_splits)
  qed
qed

end
