(* ===== verification/Observability.thy ===== *)
theory Observability
  imports Session
begin

text \<open>
  \<open>observability/setup.py\<close> and the lifespan of \<open>app/main.py\<close>: the dead-letter counters of one
  process, the cached tracer with OpenTelemetry's global provider, which can be set once and keeps
  its first value, and the startup and shutdown of the API process.
\<close>

section \<open>Dead-letter metrics\<close>

record metrics =
  mt_dlq_entries_total :: nat
  mt_dlq_resolved_total :: nat
  mt_dlq_size :: int

definition metrics_start :: metrics where
  "metrics_start = \<lparr>mt_dlq_entries_total = 0, mt_dlq_resolved_total = 0, mt_dlq_size = 0\<rparr>"

definition record_dlq_entry :: "'m metrics_scheme \<Rightarrow> 'm metrics_scheme" where
  "record_dlq_entry m = m\<lparr>mt_dlq_entries_total := Suc (mt_dlq_entries_total m), mt_dlq_size := mt_dlq_size m + 1\<rparr>"

definition record_dlq_resolved :: "'m metrics_scheme \<Rightarrow> 'm metrics_scheme" where
  "record_dlq_resolved m = m\<lparr>mt_dlq_resolved_total := Suc (mt_dlq_resolved_total m), mt_dlq_size := mt_dlq_size m - 1\<rparr>"

definition metrics_step :: "metrics \<Rightarrow> metrics \<Rightarrow> bool" where
  "metrics_step m m' \<longleftrightarrow> m' = record_dlq_entry m \<or> m' = record_dlq_resolved m"

text \<open>The gauge is the difference of the counters of its own process, so it is negative in a
  process that only resolves, as the API process does.\<close>

definition gauge_exact :: "metrics \<Rightarrow> bool" where
  "gauge_exact m \<longleftrightarrow> mt_dlq_size m = int (mt_dlq_entries_total m) - int (mt_dlq_resolved_total m)"

interpretation dlq_gauge: inductive_invariant "\<lambda>m. m = metrics_start" metrics_step gauge_exact
  by unfold_locales
    (auto simp: gauge_exact_def metrics_start_def metrics_step_def record_dlq_entry_def record_dlq_resolved_def)

lemma gauge_below_zero: "mt_dlq_size ((record_dlq_resolved ^^ n) metrics_start) = - int n"
  by (induction n) (simp_all add: metrics_start_def record_dlq_resolved_def)

section \<open>Tracing\<close>

text \<open>Providers are numbered by their construction; a tracer is known by its provider.\<close>

record tracing =
  tr_tracer :: "nat option"
  tr_provider :: "nat option"
  tr_constructed :: nat

definition configure_tracing :: "tracing \<Rightarrow> nat \<times> tracing" where
  "configure_tracing t =
     (let new = tr_constructed t;
          provider = (case tr_provider t of None \<Rightarrow> new | Some old \<Rightarrow> old) in
      (provider, t\<lparr>tr_provider := Some provider, tr_constructed := Suc new\<rparr>))"

definition get_tracer :: "tracing \<Rightarrow> nat \<times> tracing" where
  "get_tracer t =
     (case tr_tracer t of
        Some tracer \<Rightarrow> (tracer, t)
      | None \<Rightarrow> (let (tracer, t') = configure_tracing t in (tracer, t'\<lparr>tr_tracer := Some tracer\<rparr>)))"

lemma get_tracer_again: "get_tracer t = (tracer, t') \<Longrightarrow> get_tracer t' = (tracer, t')"
  by (auto simp: get_tracer_def configure_tracing_def Let_def split: option.splits)

section \<open>The API process\<close>

definition api_startup :: "session_module \<times> tracing \<Rightarrow> session_module \<times> tracing" where
  "api_startup p = (case p of (m, t) \<Rightarrow> (init_db m, snd (configure_tracing t)))"

definition api_shutdown :: "session_module \<times> tracing \<Rightarrow> session_module \<times> tracing" where
  "api_shutdown p = (case p of (m, t) \<Rightarrow> (close_db m, t))"

text \<open>The lifespan calls \<open>configure_tracing\<close> and drops the tracer, so the first \<open>get_tracer\<close> after it
  constructs a second provider, which never becomes the global one.\<close>

lemma second_provider:
  assumes "api_startup (m, \<lparr>tr_tracer = None, tr_provider = None, tr_constructed = 0\<rparr>) = (m', t)"
    and "get_tracer t = (tracer, t')"
  shows "tracer = 0 \<and> tr_provider t' = Some 0 \<and> tr_constructed t' = 2"
  using assms by (auto simp: api_startup_def get_tracer_def configure_tracing_def Let_def)

lemma api_lifespan:
  "get_session_factory (fst (api_startup (m, t))) = Inr (EngineFactory (sm_created m))
   \<and> get_session_factory (fst (api_shutdown (api_startup (m, t)))) = Inl RuntimeError"
  by (simp add: api_startup_def api_shutdown_def init_db_def close_db_def get_session_factory_def Let_def)

end
