(* ===== verification/Metrics.thy ===== *)
theory Metrics
  imports Observability ExecutorFacts RecoveryFacts Scheduler ApiFacts
begin

text \<open>
  The Prometheus metrics of \<open>observability/setup.py\<close> and where the workers write them. A metered
  operation returns its result and the metric events it emitted on the way, in order; events stay
  when the transaction around them rolls back. Each metered operation is its operation of the
  worker theories with the emissions added, which the \<open>..._result\<close> lemmas state; the rest says
  what the counters tell about the database and where they do not.
\<close>

section \<open>The registry of a process\<close>

datatype run_outcome = RunOk | RunError | RunNotLeader

datatype job_outcome = JobSucceeded | JobFailed | JobDead

datatype metric =
    SchedulerRun run_outcome
  | JobCreated
  | SchedulerLag rat
  | ExecutorJob job_outcome
  | JobLatency rat
  | RetryScheduled
  | ExecutorThroughput rat
  | RecoveryRuns nat
  | DlqEntry
  | DlqResolved

record registry = metrics +
  mt_scheduler_runs_total :: "run_outcome \<Rightarrow> nat"
  mt_jobs_created_total :: nat
  mt_scheduler_lag_seconds :: rat
  mt_executor_jobs_total :: "job_outcome \<Rightarrow> nat"
  mt_job_latency_seconds :: "rat list"
  mt_job_retries_total :: nat
  mt_executor_jobs_per_second :: rat
  mt_recovery_runs_total :: nat

definition registry_start :: registry where
  "registry_start = metrics.extend metrics_start
     \<lparr>mt_scheduler_runs_total = (\<lambda>k. 0), mt_jobs_created_total = 0, mt_scheduler_lag_seconds = 0,
      mt_executor_jobs_total = (\<lambda>k. 0), mt_job_latency_seconds = [], mt_job_retries_total = 0,
      mt_executor_jobs_per_second = 0, mt_recovery_runs_total = 0\<rparr>"

fun emit :: "metric \<Rightarrow> registry \<Rightarrow> registry" where
  "emit (SchedulerRun k) m = m\<lparr>mt_scheduler_runs_total :=
     (mt_scheduler_runs_total m)(k := Suc (mt_scheduler_runs_total m k))\<rparr>"
| "emit JobCreated m = m\<lparr>mt_jobs_created_total := Suc (mt_jobs_created_total m)\<rparr>"
| "emit (SchedulerLag v) m = m\<lparr>mt_scheduler_lag_seconds := v\<rparr>"
| "emit (ExecutorJob k) m = m\<lparr>mt_executor_jobs_total :=
     (mt_executor_jobs_total m)(k := Suc (mt_executor_jobs_total m k))\<rparr>"
| "emit (JobLatency v) m = m\<lparr>mt_job_latency_seconds := mt_job_latency_seconds m @ [v]\<rparr>"
| "emit RetryScheduled m = m\<lparr>mt_job_retries_total := Suc (mt_job_retries_total m)\<rparr>"
| "emit (ExecutorThroughput v) m = m\<lparr>mt_executor_jobs_per_second := v\<rparr>"
| "emit (RecoveryRuns n) m = m\<lparr>mt_recovery_runs_total := mt_recovery_runs_total m + n\<rparr>"
| "emit DlqEntry m = record_dlq_entry m"
| "emit DlqResolved m = record_dlq_resolved m"

text \<open>The buckets of the latency histogram: how many observations are at most a bound.\<close>

definition latency_buckets :: "rat list" where
  "latency_buckets = [1/2, 1, 2, 5, 10, 30, 60, 120, 300]"

definition bucket_count :: "rat \<Rightarrow> registry \<Rightarrow> nat" where
  "bucket_count bound m = length (filter (\<lambda>v. v \<le> bound) (mt_job_latency_seconds m))"

text \<open>A counter after a sequence of events is its number of events more.\<close>

lemma emitted_counts:
  "mt_jobs_created_total (fold emit ms m) = mt_jobs_created_total m + count_list ms JobCreated"
  "mt_job_retries_total (fold emit ms m) = mt_job_retries_total m + count_list ms RetryScheduled"
  "mt_scheduler_runs_total (fold emit ms m) k = mt_scheduler_runs_total m k + count_list ms (SchedulerRun k)"
  "mt_executor_jobs_total (fold emit ms m) j = mt_executor_jobs_total m j + count_list ms (ExecutorJob j)"
  "mt_dlq_entries_total (fold emit ms m) = mt_dlq_entries_total m + count_list ms DlqEntry"
  "mt_dlq_resolved_total (fold emit ms m) = mt_dlq_resolved_total m + count_list ms DlqResolved"
proof (induction ms arbitrary: m)
  case (Cons x ms)
  {
    case 1 then show ?case using Cons(1) by (cases x) (simp_all add: record_dlq_entry_def record_dlq_resolved_def)
  next
    case 2 then show ?case using Cons(2) by (cases x) (simp_all add: record_dlq_entry_def record_dlq_resolved_def)
  next
    case 3 then show ?case using Cons(3) by (cases x) (simp_all add: record_dlq_entry_def record_dlq_resolved_def)
  next
    case 4 then show ?case using Cons(4) by (cases x) (simp_all add: record_dlq_entry_def record_dlq_resolved_def)
  next
    case 5 then show ?case using Cons(5) by (cases x) (simp_all add: record_dlq_entry_def record_dlq_resolved_def)
  next
    case 6 then show ?case using Cons(6) by (cases x) (simp_all add: record_dlq_entry_def record_dlq_resolved_def)
  }
qed simp_all

lemma bucket_count_mono: "b \<le> b' \<Longrightarrow> bucket_count b m \<le> bucket_count b' m"
  unfolding bucket_count_def length_filter_conv_card by (rule card_mono) auto

section \<open>Metered results\<close>

definition metered_then ::
  "('e + 'a) \<times> metric list \<Rightarrow> ('a \<Rightarrow> ('e + 'b) \<times> metric list) \<Rightarrow> ('e + 'b) \<times> metric list" where
  "metered_then m f =
     (case m of (Inl e, ms) \<Rightarrow> (Inl e, ms) | (Inr x, ms) \<Rightarrow> (case f x of (res, ms') \<Rightarrow> (res, ms @ ms')))"

lemma metered_then_result [simp]: "fst (metered_then m f) = and_then (fst m) (\<lambda>x. fst (f x))"
  by (cases m; cases "fst m") (auto simp: metered_then_def split: prod.split)

section \<open>The scheduler\<close>

definition lag_seconds :: "datetime \<Rightarrow> datetime \<Rightarrow> rat" where
  "lag_seconds now fire_at = max 0 (of_int (now - fire_at) / 1000000)"

text \<open>\<open>_create_job_for_subscription\<close>: the counter between the inserts and the update, the gauge at
  the end.\<close>

definition create_job_metered ::
  "ext \<Rightarrow> int \<Rightarrow> sub_inputs \<Rightarrow> datetime \<Rightarrow> Subscription \<Rightarrow> db \<Rightarrow> (exn + db) \<times> metric list" where
  "create_job_metered X epoch i lag_now sub d =
     (case s_next_fire_at sub of
        None \<Rightarrow> (Inr d, [])
      | Some fire_at \<Rightarrow>
          metered_then (insert_job (new_job X (ci_job_id i) sub fire_at epoch (db_now d)) d, []) (\<lambda>(created, d1).
          metered_then (if created
                    then metered_then (insert_run (new_run (ci_run_id i) (ci_job_id i) 1 None (db_now d)) d1, [])
                           (\<lambda>(_, d2). (Inr d2, [JobCreated]))
                    else (Inr d1, [])) (\<lambda>d2.
            (case next_fire X (ci_cron_now i) sub of
               None \<Rightarrow> (Inr (update_subscriptions (\<lambda>s. s_id s = s_id sub)
                 (\<lambda>s. s\<lparr>s_status := SubscriptionStatus.PAUSED, s_paused_at := Some (ci_pause_now i)\<rparr>) d2), [])
             | Some t \<Rightarrow> (Inr (update_subscriptions (\<lambda>s. s_id s = s_id sub)
                 (\<lambda>s. s\<lparr>s_next_fire_at := Some t\<rparr>) d2), [SchedulerLag (lag_seconds lag_now fire_at)])))))"

lemma create_job_metered_result [simp]:
  "fst (create_job_metered X epoch i lag_now sub d) = create_job_for_subscription X epoch i sub d"
proof (cases "s_next_fire_at sub")
  case (Some f)
  show ?thesis
  proof (cases "insert_job (new_job X (ci_job_id i) sub f epoch (db_now d)) d")
    case (Inr p)
    then show ?thesis using Some
      by (cases "next_fire X (ci_cron_now i) sub"; cases p; cases "fst p")
        (auto simp: create_job_metered_def create_job_for_subscription_def and_then_def split: sum.splits prod.splits)
  qed (simp add: create_job_metered_def create_job_for_subscription_def Some)
qed (simp add: create_job_metered_def create_job_for_subscription_def)

fun create_jobs_metered ::
  "ext \<Rightarrow> int \<Rightarrow> (uuid \<Rightarrow> sub_inputs) \<Rightarrow> (uuid \<Rightarrow> datetime) \<Rightarrow> Subscription list \<Rightarrow> db \<Rightarrow> (exn + db) \<times> metric list" where
  "create_jobs_metered X epoch ins lags [] d = (Inr d, [])"
| "create_jobs_metered X epoch ins lags (sub # subs) d =
     metered_then (create_job_metered X epoch (ins (s_id sub)) (lags (s_id sub)) sub d)
       (create_jobs_metered X epoch ins lags subs)"

lemma create_jobs_metered_result [simp]:
  "fst (create_jobs_metered X epoch ins lags subs d) = create_jobs X epoch ins subs d"
  by (induction subs arbitrary: d) simp_all


text \<open>\<open>_schedule_due_subscriptions\<close> and \<open>tick\<close>. The early returns for a lost lock count
  \<open>not_leader\<close> and return normally to the tick, which counts \<open>ok\<close>.\<close>

definition schedule_due_metered ::
  "ext \<Rightarrow> Settings \<Rightarrow> 's redis \<Rightarrow> 's sched_inputs \<Rightarrow> (uuid \<Rightarrow> datetime) \<Rightarrow> int \<Rightarrow> Election \<Rightarrow> db
     \<Rightarrow> ((exn + sched_outcome) \<times> Election \<times> db) \<times> metric list" where
  "schedule_due_metered X S R i lags epoch e d =
     (case add_seconds (si_now i) (SCHEDULER_LOOKAHEAD_S S) of
        None \<Rightarrow> ((Inl (ValueError ''year is out of range''), e, d), [])
      | Some cutoff \<Rightarrow>
         (case verify_at R (si_verify1 i) e of
            (Inl x, e1) \<Rightarrow> ((Inl x, e1, d), [])
          | (Inr ok1, e1) \<Rightarrow>
              if \<not> ok1 then ((Inr NotLeader, e1, d), [SchedulerRun RunNotLeader])
              else
                let subs = due_subscriptions cutoff (si_locked i) d in
                if subs = [] then ((Inr NothingDue, e1, d), [SchedulerLag 0])
                else (case verify_at R (si_verify2 i) e1 of
                        (Inl x, e2) \<Rightarrow> ((Inl x, e2, d), [])
                      | (Inr ok2, e2) \<Rightarrow>
                          if \<not> ok2 then ((Inr NotLeader, e2, d), [SchedulerRun RunNotLeader])
                          else (case create_jobs_metered X epoch (si_subs i) lags subs d of
                                  (Inl x, ms) \<Rightarrow> ((Inl x, e2, d), ms)
                                | (Inr d', ms) \<Rightarrow> ((Inr (Scheduled (length subs)), e2, d'), ms)))))"

lemma schedule_due_metered_result [simp]:
  "fst (schedule_due_metered X S R i lags epoch e d) = schedule_due_subscriptions X S R i epoch e d"
proof -
  have jobs: "create_jobs X epoch (si_subs i) subs d = fst (create_jobs_metered X epoch (si_subs i) lags subs d)" for subs
    by simp
  show ?thesis
    unfolding schedule_due_metered_def schedule_due_subscriptions_def jobs
    by (auto simp: Let_def split: option.splits sum.splits prod.splits if_splits simp del: create_jobs_metered_result)
qed

definition scheduler_tick_metered ::
  "ext \<Rightarrow> Settings \<Rightarrow> 's redis \<Rightarrow> 's sched_inputs \<Rightarrow> (uuid \<Rightarrow> datetime) \<Rightarrow> Election \<Rightarrow> 's \<Rightarrow> db
     \<Rightarrow> ((exn + sched_outcome) \<times> Election \<times> 's \<times> db) \<times> metric list" where
  "scheduler_tick_metered X S R i lags e s d =
     (case try_acquire R S (fst (si_set i)) (fst (si_incr i)) (snd (si_set i)) (snd (si_incr i)) e s of
        (Inl x, e1, s1) \<Rightarrow> ((Inl x, e1, s1, d), [])
      | (Inr acquired, e1, s1) \<Rightarrow>
          if \<not> acquired then ((Inr NotLeader, e1, s1, d), [SchedulerRun RunNotLeader])
          else case schedule_due_metered X S R i lags (el_epoch e1) e1 d of
                 ((res, e2, d'), ms) \<Rightarrow>
                   ((res, e2, s1, d'), ms @ [SchedulerRun (case res of Inl x \<Rightarrow> RunError | Inr out \<Rightarrow> RunOk)]))"

lemma scheduler_tick_metered_result [simp]:
  "fst (scheduler_tick_metered X S R i lags e s d) = scheduler_tick X S R i e s d"
proof -
  have due: "schedule_due_subscriptions X S R i epoch e d = fst (schedule_due_metered X S R i lags epoch e d)" for epoch e
    by simp
  show ?thesis
    unfolding scheduler_tick_metered_def scheduler_tick_def due
    by (auto split: sum.splits prod.splits if_splits simp del: schedule_due_metered_result)
qed

text \<open>The jobs counted are the jobs added.\<close>

lemma create_job_counted:
  assumes "create_job_metered X epoch i lag_now sub d = (Inr d', ms)"
  shows "length (scheduled_jobs d') = length (scheduled_jobs d) + count_list ms JobCreated"
  using assms
  by (auto simp: create_job_metered_def metered_then_def insert_job_Inr_iff insert_run_Inr_iff
      split: option.splits sum.splits prod.splits if_splits)

lemma create_jobs_counted:
  "create_jobs_metered X epoch ins lags subs d = (Inr d', ms) \<Longrightarrow>
     length (scheduled_jobs d') = length (scheduled_jobs d) + count_list ms JobCreated"
proof (induction subs arbitrary: d ms)
  case (Cons sub subs)
  obtain res ms1 where one: "create_job_metered X epoch (ins (s_id sub)) (lags (s_id sub)) sub d = (res, ms1)" by fastforce
  with Cons.prems obtain d1 ms2 where res: "res = Inr d1" and rest: "create_jobs_metered X epoch ins lags subs d1 = (Inr d', ms2)"
    and ms: "ms = ms1 @ ms2"
    by (auto simp: metered_then_def split: sum.splits prod.splits)
  from create_job_counted [OF one [unfolded res]] Cons.IH [OF rest] show ?case by (simp add: ms)
qed simp


definition scheduler_runs_in :: "metric list \<Rightarrow> nat" where
  "scheduler_runs_in ms = count_list ms (SchedulerRun RunOk) + count_list ms (SchedulerRun RunError)
     + count_list ms (SchedulerRun RunNotLeader)"

lemma scheduler_runs_in_append [simp]:
  "scheduler_runs_in (ms @ ms') = scheduler_runs_in ms + scheduler_runs_in ms'"
  by (simp add: scheduler_runs_in_def)

lemma create_job_no_runs: "create_job_metered X epoch i lag_now sub d = (res, ms) \<Longrightarrow> scheduler_runs_in ms = 0"
  by (auto simp: create_job_metered_def metered_then_def scheduler_runs_in_def split: option.splits sum.splits prod.splits if_splits)

lemma create_jobs_no_runs:
  "create_jobs_metered X epoch ins lags subs d = (res, ms) \<Longrightarrow> scheduler_runs_in ms = 0"
proof (induction subs arbitrary: d ms res)
  case Nil
  then show ?case by (simp add: scheduler_runs_in_def)
next
  case (Cons sub subs)
  obtain r1 ms1 where one: "create_job_metered X epoch (ins (s_id sub)) (lags (s_id sub)) sub d = (r1, ms1)" by fastforce
  from create_job_no_runs [OF one] Cons show ?case
    by (auto simp: metered_then_def one split: sum.splits prod.splits)
qed

lemma schedule_due_counted:
  assumes "schedule_due_metered X S R i lags epoch e d = ((res, e', d'), ms)"
  shows "(case res of Inl x \<Rightarrow> d' = d
      | Inr out \<Rightarrow> length (scheduled_jobs d') = length (scheduled_jobs d) + count_list ms JobCreated)
    \<and> scheduler_runs_in ms = (if res = Inr NotLeader then 1 else 0)"
proof (cases "\<exists>cutoff e2. add_seconds (si_now i) (SCHEDULER_LOOKAHEAD_S S) = Some cutoff
    \<and> ((res, e', d'), ms) = (case create_jobs_metered X epoch (si_subs i) lags (due_subscriptions cutoff (si_locked i) d) d of
         (Inl x, ms) \<Rightarrow> ((Inl x, e2, d), ms)
       | (Inr d', ms) \<Rightarrow> ((Inr (Scheduled (length (due_subscriptions cutoff (si_locked i) d))), e2, d'), ms))")
  case True
  then obtain cutoff e2 where eq: "((res, e', d'), ms) = (case create_jobs_metered X epoch (si_subs i) lags
         (due_subscriptions cutoff (si_locked i) d) d of
         (Inl x, ms) \<Rightarrow> ((Inl x, e2, d), ms)
       | (Inr d', ms) \<Rightarrow> ((Inr (Scheduled (length (due_subscriptions cutoff (si_locked i) d))), e2, d'), ms))" by blast
  obtain r ms1 where jobs: "create_jobs_metered X epoch (si_subs i) lags (due_subscriptions cutoff (si_locked i) d) d = (r, ms1)"
    by fastforce
  show ?thesis
  proof (cases r)
    case (Inl x)
    then show ?thesis using eq jobs create_jobs_no_runs [OF jobs] by simp
  next
    case (Inr d1)
    then show ?thesis using eq jobs create_jobs_no_runs [OF jobs] create_jobs_counted [OF jobs [unfolded Inr]] by simp
  qed
next
  case False
  with assms show ?thesis
    by (auto simp: schedule_due_metered_def Let_def scheduler_runs_in_def split: option.splits sum.splits prod.splits if_splits)
qed

text \<open>
  What the scheduler's counters say. The counter of created jobs grows by exactly the jobs a
  committed tick adds; a tick that raises leaves the database as it was. The counter of ticks is not
  one: a tick whose election call raises is not counted, and a tick that loses the lock after it
  has begun is counted twice, once as \<open>not_leader\<close> and once as \<open>ok\<close>.
\<close>

theorem scheduler_tick_counted:
  "case scheduler_tick_metered X S R i lags e s d of ((res, e', s', d'), ms) \<Rightarrow>
     (case res of Inl x \<Rightarrow> d' = d
      | Inr out \<Rightarrow> length (scheduled_jobs d') = length (scheduled_jobs d) + count_list ms JobCreated)
   \<and> scheduler_runs_in ms =
       (case fst (try_acquire R S (fst (si_set i)) (fst (si_incr i)) (snd (si_set i)) (snd (si_incr i)) e s) of
          Inl x \<Rightarrow> 0
        | Inr acquired \<Rightarrow> if acquired \<and> res = Inr NotLeader then 2 else 1)"
proof -
  obtain acq e1 s1 where acq: "try_acquire R S (fst (si_set i)) (fst (si_incr i)) (snd (si_set i)) (snd (si_incr i)) e s
      = (acq, e1, s1)" using prod_cases3 by blast
  obtain res e2 d' ms where due: "schedule_due_metered X S R i lags (el_epoch e1) e1 d = ((res, e2, d'), ms)"
    using prod_cases4 by (metis prod.exhaust)
  show ?thesis
    using acq schedule_due_counted [OF due]
    by (auto simp: scheduler_tick_metered_def due scheduler_runs_in_def split: sum.splits)
qed


section \<open>The executor\<close>

definition handle_failure_metered ::
  "string \<Rightarrow> step_inputs \<Rightarrow> JobRun \<Rightarrow> Subscription \<Rightarrow> string \<Rightarrow> bool \<Rightarrow> db \<Rightarrow> (exn + db) \<times> metric list" where
  "handle_failure_metered worker i run sub err is_retryable d =
     metered_then (policy_of (s_retry_policy sub), []) (\<lambda>policy.
     metered_then (if is_retryable then is_exhausted policy (r_attempt run) else Inr True, []) (\<lambda>stop.
       if \<not> stop then
         metered_then (next_delay_s policy (r_attempt run) (in_random i), []) (\<lambda>delay.
           case add_seconds (in_now i) delay of
             None \<Rightarrow> (Inl OverflowError, [])
           | Some retry_after \<Rightarrow>
               metered_then (schedule_retry (in_now i) (in_run_id i) retry_after run err d, [])
                 (\<lambda>d'. (Inr d', [RetryScheduled, ExecutorJob JobFailed])))
       else metered_then (move_to_dlq worker (in_dlq_now i) (in_dlq_id i) run sub err d, [])
              (\<lambda>d'. (Inr d', [ExecutorJob JobDead, DlqEntry]))))"

lemma and_then_Inr [simp]: "and_then m Inr = m" "and_then m (\<lambda>x. Inr x) = m"
  by (cases m; simp)+

lemma handle_failure_metered_result [simp]:
  "fst (handle_failure_metered worker i run sub err b d) = handle_failure worker i run sub err b d"
  by (simp add: handle_failure_metered_def handle_failure_def if_distrib [of fst] option.case_distrib [of fst] cong: if_cong option.case_cong)

text \<open>\<open>_execute_run\<close>: a stored key is persisted silently, a payment is counted when its transaction
  won.\<close>

definition execute_run_metered ::
  "ext \<Rightarrow> Settings \<Rightarrow> client \<Rightarrow> string \<Rightarrow> step_inputs \<Rightarrow> rat \<Rightarrow> uuid \<Rightarrow> world \<Rightarrow> (exn option \<times> world) \<times> metric list" where
  "execute_run_metered X S c worker i latency run_id w =
     (case load_snapshot run_id (w_db w) of
        None \<Rightarrow> ((None, w), [])
      | Some sn \<Rightarrow>
        (let run = sn_run sn; sub = sn_sub sn;
             fail = (\<lambda>err is_retryable w. case handle_failure_metered worker i run sub err is_retryable (w_db w) of
                       (res, ms) \<Rightarrow> (end_tx res w, ms));
             persist = (\<lambda>pid w. persist_success X (in_now i) run sub pid (w_db w));
             commit = (\<lambda>res w. end_tx (and_then res (\<lambda>(won, d'). Inr d')) w)
         in case PaymentConfig_from_dict X (s_payment_config sub) of
              Inl e \<Rightarrow> fail (exn_str X e) False w
            | Inr cfg \<Rightarrow>
                (let proceed =
                   (case find_idempotency_key (r_id run) (r_attempt run) (w_db w) of
                      Inl e \<Rightarrow> ((Some e, w), [])
                    | Inr (Some existing) \<Rightarrow>
                        (commit (persist (case k_bunq_payment_id existing of None \<Rightarrow> JNull | Some p \<Rightarrow> JStr p) w) w, [])
                    | Inr None \<Rightarrow>
                        (case pay X S c run cfg w of
                           (Inl e, w') \<Rightarrow> fail (exn_str X e) (retryable e) w'
                         | (Inr pid, w') \<Rightarrow>
                             (let res = persist pid w' in
                              (commit res w', case res of Inr (True, d') \<Rightarrow> [JobLatency latency, ExecutorJob JobSucceeded]
                                 | _ \<Rightarrow> []))))
                 in if j_depends_on (sn_job sn) \<noteq> [] then
                      (case check_dag_dependencies X (j_depends_on (sn_job sn)) (w_db w) of
                         Inl e \<Rightarrow> ((Some e, w), [])
                       | Inr False \<Rightarrow> ((None, w\<lparr>w_db := mark_dag_cancelled (in_now i) run (w_db w)\<rparr>), [])
                       | Inr True \<Rightarrow> proceed)
                    else proceed)))"

lemma execute_run_metered_result [simp]:
  "fst (execute_run_metered X S c worker i latency run_id w) = execute_run X S c worker i run_id w"
proof (cases "load_snapshot run_id (w_db w)")
  case (Some sn)
  have fail: "handle_failure worker i run sub err b d = fst (handle_failure_metered worker i run sub err b d)" for run sub err b d
    by simp
  show ?thesis
    unfolding execute_run_metered_def execute_run_def Some fail
    by (auto simp: Let_def simp del: handle_failure_metered_result split: sum.split option.split bool.split prod.split)
qed (simp add: execute_run_metered_def execute_run_def)

definition process_run_metered ::
  "ext \<Rightarrow> Settings \<Rightarrow> client \<Rightarrow> string \<Rightarrow> datetime \<Rightarrow> datetime \<Rightarrow> (uuid \<Rightarrow> bool) \<Rightarrow> step_inputs \<Rightarrow> rat \<Rightarrow> uuid
     \<Rightarrow> world \<Rightarrow> (exn option \<times> world) \<times> metric list" where
  "process_run_metered X S c worker t_lock t_start locked i latency run_id w =
     (case claim_run S worker t_lock t_start locked run_id (w_db w) of
        (RunClaimed, d) \<Rightarrow> execute_run_metered X S c worker i latency run_id (w\<lparr>w_db := d\<rparr>)
      | (_, d) \<Rightarrow> ((None, w\<lparr>w_db := d\<rparr>), []))"

lemma process_run_metered_result [simp]:
  "fst (process_run_metered X S c worker t_lock t_start locked i latency run_id w)
     = process_run X S c worker t_lock t_start locked i run_id w"
  by (simp add: process_run_metered_def process_run_def split: prod.split claim_result.split)

fun process_batch_metered ::
  "ext \<Rightarrow> Settings \<Rightarrow> client \<Rightarrow> string \<Rightarrow> (uuid \<Rightarrow> run_inputs) \<Rightarrow> (uuid \<Rightarrow> rat) \<Rightarrow> uuid list \<Rightarrow> world \<Rightarrow> world \<times> metric list" where
  "process_batch_metered X S c worker ins lats [] w = (w, [])"
| "process_batch_metered X S c worker ins lats (r # rs) w =
     (case process_run_metered X S c worker (ri_lock (ins r)) (ri_start (ins r)) (ri_locked (ins r))
          (ri_step (ins r)) (lats r) r w of
        ((err, w1), ms) \<Rightarrow> (case process_batch_metered X S c worker ins lats rs w1 of (w2, ms') \<Rightarrow> (w2, ms @ ms')))"

lemma process_batch_metered_result [simp]:
  "fst (process_batch_metered X S c worker ins lats rs w) = process_batch X S c worker ins rs w"
proof (induction rs arbitrary: w)
  case (Cons r rs)
  obtain err w1 ms where run: "process_run_metered X S c worker (ri_lock (ins r)) (ri_start (ins r)) (ri_locked (ins r))
      (ri_step (ins r)) (lats r) r w = ((err, w1), ms)" by (metis prod.exhaust)
  have "process_run X S c worker (ri_lock (ins r)) (ri_start (ins r)) (ri_locked (ins r)) (ri_step (ins r)) r w = (err, w1)"
    using process_run_metered_result [of X S c worker "ri_lock (ins r)" "ri_start (ins r)" "ri_locked (ins r)" "ri_step (ins r)" "lats r" r w]
    by (simp add: run)
  with Cons show ?case by (simp add: run split: prod.split) (metis fst_conv)
qed simp

text \<open>\<open>_process_batch\<close>: the gauge after the batch, when the monotonic clock has advanced.\<close>

definition executor_tick_metered ::
  "ext \<Rightarrow> Settings \<Rightarrow> client \<Rightarrow> string \<Rightarrow> datetime \<Rightarrow> (uuid \<Rightarrow> bool) \<Rightarrow> (uuid \<Rightarrow> run_inputs) \<Rightarrow> (uuid \<Rightarrow> rat) \<Rightarrow> rat
     \<Rightarrow> world \<Rightarrow> world \<times> metric list" where
  "executor_tick_metered X S c worker now locked ins lats elapsed w =
     (let run_ids = fetch_pending_run_ids S now locked (w_db w) in
      if run_ids = [] then (w, [])
      else case process_batch_metered X S c worker ins lats run_ids w of
        (w', ms) \<Rightarrow> (w', ms @ (if elapsed > 0 then [ExecutorThroughput (of_nat (length run_ids) / elapsed)] else [])))"

lemma executor_tick_metered_result [simp]:
  "fst (executor_tick_metered X S c worker now locked ins lats elapsed w) = executor_tick X S c worker now locked ins w"
proof -
  have batch: "process_batch X S c worker ins rs w = fst (process_batch_metered X S c worker ins lats rs w)" for rs
    by simp
  show ?thesis
    unfolding executor_tick_metered_def executor_tick_def batch
    by (auto simp: Let_def simp del: process_batch_metered_result split: prod.split)
qed

text \<open>New dead letters are appended unresolved.\<close>

definition dlq_grows :: "db \<Rightarrow> db \<Rightarrow> nat \<Rightarrow> bool" where
  "dlq_grows d d' n \<longleftrightarrow> (\<exists>new. dead_letter_queue d' = dead_letter_queue d @ new \<and> length new = n
     \<and> (\<forall>e \<in> set new. d_resolved_at e = None))"

lemma dlq_grows_refl: "dead_letter_queue d' = dead_letter_queue d \<Longrightarrow> dlq_grows d d' 0"
  by (simp add: dlq_grows_def)

lemma dlq_grows_one:
  "dead_letter_queue d' = dead_letter_queue d @ [dlq_entry i r j sub m c p t] \<Longrightarrow> dlq_grows d d' (Suc 0)"
  by (simp add: dlq_grows_def dlq_entry_def)

lemma dlq_grows_trans: "dlq_grows d d1 m \<Longrightarrow> dlq_grows d1 d2 n \<Longrightarrow> dlq_grows d d2 (m + n)"
  by (force simp: dlq_grows_def)

lemma dlq_grows_length: "dlq_grows d d' n \<Longrightarrow> length (dead_letter_queue d') = length (dead_letter_queue d) + n"
  by (auto simp: dlq_grows_def)

lemma dlq_grows_count: "dlq_grows d d' n \<Longrightarrow> dlq_count d' = dlq_count d + n"
  by (auto simp: dlq_grows_def dlq_count_def)

definition queued :: "db \<Rightarrow> db \<Rightarrow> metric list \<Rightarrow> bool" where
  "queued d d' ms \<longleftrightarrow> dlq_grows d d' (count_list ms DlqEntry) \<and> count_list ms DlqResolved = 0"

lemma queued_append: "queued d d1 ms \<Longrightarrow> queued d1 d2 ms' \<Longrightarrow> queued d d2 (ms @ ms')"
  by (auto simp: queued_def intro: dlq_grows_trans)

lemma queued_nothing: "dead_letter_queue d' = dead_letter_queue d \<Longrightarrow> queued d d' []"
  by (simp add: queued_def dlq_grows_refl)

text \<open>What the executor's counters say of the tables.\<close>

definition accounted :: "db \<Rightarrow> db \<Rightarrow> metric list \<Rightarrow> bool" where
  "accounted d d' ms \<longleftrightarrow>
     length (idempotency_keys d') = length (idempotency_keys d) + count_list ms (ExecutorJob JobSucceeded)
   \<and> queued d d' ms
   \<and> count_list ms (ExecutorJob JobDead) = count_list ms DlqEntry
   \<and> length (job_runs d') \<le> length (job_runs d) + count_list ms RetryScheduled
   \<and> count_list ms (ExecutorJob JobFailed) = count_list ms RetryScheduled"

lemma accounted_refl [simp]: "accounted d d []"
  by (simp add: accounted_def queued_nothing)

lemma accounted_append: "accounted d d1 ms \<Longrightarrow> accounted d1 d2 ms' \<Longrightarrow> accounted d d2 (ms @ ms')"
  by (auto simp: accounted_def intro: queued_append)

lemma accounted_frame:
  assumes "idempotency_keys d' = idempotency_keys d" and "dead_letter_queue d' = dead_letter_queue d"
    and "length (job_runs d') = length (job_runs d)"
  shows "accounted d d' []"
  using assms by (simp add: accounted_def queued_nothing)

lemma length_count_failure [simp]:
  "length (job_runs (count_failure now i d)) = length (job_runs d)"
  "idempotency_keys (count_failure now i d) = idempotency_keys d"
  "dead_letter_queue (count_failure now i d) = dead_letter_queue d"
  by (simp_all add: count_failure_def Let_def split: option.split)

lemma accounted_handle_failure:
  assumes "handle_failure_metered worker i run sub err b d = (res, ms)"
  shows "case res of Inl e \<Rightarrow> ms = [] | Inr d' \<Rightarrow> accounted d d' ms"
proof -
  have retry: "accounted d d' [RetryScheduled, ExecutorJob JobFailed]" if "schedule_retry now i t run err d = Inr d'" for now i t d'
    using that by (auto simp: schedule_retry_Inr_iff Let_def accounted_def queued_def dlq_grows_refl split: if_splits)
  have dead: "accounted d d' [ExecutorJob JobDead, DlqEntry]" if "move_to_dlq worker now i run sub err d = Inr d'" for now i d'
    using that by (auto simp: move_to_dlq_def insert_dlq_Inr_iff accounted_def queued_def dlq_grows_one)
  show ?thesis
    using assms retry dead
    by (auto simp: handle_failure_metered_def metered_then_def split: sum.splits option.splits if_splits prod.splits)
qed

lemma accounted_persist:
  assumes "persist_success X now run sub v d = Inr (won, d')"
  shows "accounted d d' (if won then [JobLatency l, ExecutorJob JobSucceeded] else [])"
  using assms by (auto simp: persist_success_Inr_iff accounted_def mark_succeeded_def queued_def dlq_grows_refl split: if_splits)

lemma stored_key_never_wins:
  assumes "find_idempotency_key (r_id run) (r_attempt run) d = Inr (Some k)"
    and "persist_success X now run sub v d = Inr (won, d')"
  shows "d' = d"
proof -
  have "k \<in> set (idempotency_keys d) \<and> key_slot k = (r_id run, r_attempt run)"
    using scalar_one_or_none_in [OF assms(1) [unfolded find_idempotency_key_def]] by simp
  then have "(r_id run, r_attempt run) \<in> key_slot ` set (idempotency_keys d)" using imageI [of k _ key_slot] by simp
  with assms(2) show ?thesis by (simp add: persist_success_Inr_iff)
qed


lemma accounted_world:
  "(case res of Inl e \<Rightarrow> ms = [] | Inr d' \<Rightarrow> accounted (w_db w) d' ms) \<Longrightarrow> accounted (w_db w) (w_db (snd (end_tx res w))) ms"
  by (auto simp: end_tx_def split: sum.splits)

lemma accounted_fail:
  assumes "handle_failure_metered worker i run sub err b (w_db w) = (res, ms)"
  shows "accounted (w_db w) (w_db (snd (end_tx res w))) ms"
  using accounted_world [OF accounted_handle_failure [OF assms]] .

lemma accounted_success:
  "accounted (w_db w) (w_db (snd (end_tx (and_then (persist_success X now run sub v (w_db w)) (\<lambda>(won, d'). Inr d')) w)))
     (case persist_success X now run sub v (w_db w) of Inr (True, d') \<Rightarrow> [JobLatency l, ExecutorJob JobSucceeded] | _ \<Rightarrow> [])"
proof (cases "persist_success X now run sub v (w_db w)")
  case (Inr p)
  then show ?thesis
    using accounted_persist [of X now run sub v "w_db w" "fst p" "snd p" l]
    by (cases p; cases "fst p") (simp_all add: end_tx_def)
qed (simp add: end_tx_def)

lemma accounted_execute_run:
  "accounted (w_db w) (w_db (snd (fst (execute_run_metered X S c worker i latency run_id w))))
     (snd (execute_run_metered X S c worker i latency run_id w))"
proof (cases "load_snapshot run_id (w_db w)")
  case (Some sn)
  let ?run = "sn_run sn" and ?sub = "sn_sub sn"
  have fail: "accounted (w_db w) (w_db (snd (fst (case handle_failure_metered worker i ?run ?sub err b (w_db v) of
        (res, ms) \<Rightarrow> (end_tx res v, ms))))) (snd (case handle_failure_metered worker i ?run ?sub err b (w_db v) of
        (res, ms) \<Rightarrow> (end_tx res v, ms)))" if "w_db v = w_db w" for v :: world and err b
    using accounted_fail [of worker i ?run ?sub err b v] that by (simp split: prod.split)
  have stored: "w_db (snd (end_tx (and_then (persist_success X (in_now i) ?run ?sub v (w_db w)) (\<lambda>(won, d'). Inr d')) w)) = w_db w"
    if "find_idempotency_key (r_id ?run) (r_attempt ?run) (w_db w) = Inr (Some k)" for v k
    using stored_key_never_wins [OF that, of X "in_now i" ?sub v]
    by (cases "persist_success X (in_now i) ?run ?sub v (w_db w)") (auto simp: end_tx_def)
  have paid: "accounted (w_db w) (w_db (snd (end_tx (and_then (persist_success X (in_now i) ?run ?sub v (w_db w1)) (\<lambda>(won, d'). Inr d')) w1)))
     (case persist_success X (in_now i) ?run ?sub v (w_db w1) of Inr (True, d') \<Rightarrow> [JobLatency latency, ExecutorJob JobSucceeded] | _ \<Rightarrow> [])"
    if "w_db w1 = w_db w" for w1 v
    using accounted_success [of w1 X "in_now i" ?run ?sub v latency] that by simp
  have cancel: "accounted (w_db w) (mark_dag_cancelled (in_now i) ?run (w_db w)) []"
    by (rule accounted_frame) (simp_all add: mark_dag_cancelled_def)
  let ?pay = "\<lambda>cfg. case pay X S c ?run cfg w of
        (Inl e, w') \<Rightarrow> (case handle_failure_metered worker i ?run ?sub (exn_str X e) (retryable e) (w_db w') of
           (res, ms) \<Rightarrow> (end_tx res w', ms))
      | (Inr pid, w') \<Rightarrow>
          (end_tx (and_then (persist_success X (in_now i) ?run ?sub pid (w_db w')) (\<lambda>(won, d'). Inr d')) w',
           case persist_success X (in_now i) ?run ?sub pid (w_db w') of
             Inr (True, d') \<Rightarrow> [JobLatency latency, ExecutorJob JobSucceeded] | _ \<Rightarrow> [])"
  have pay: "accounted (w_db w) (w_db (snd (fst (?pay cfg)))) (snd (?pay cfg))" for cfg
  proof -
    obtain a w1 where p: "pay X S c ?run cfg w = (a, w1)" by fastforce
    show ?thesis
    proof (cases a)
      case (Inl e)
      show ?thesis unfolding p Inl using fail [OF w_db_pay [OF p]] by simp
    next
      case (Inr v)
      show ?thesis unfolding p Inr using paid [OF w_db_pay [OF p]] by simp
    qed
  qed
  show ?thesis
    unfolding execute_run_metered_def Some option.case Let_def
    using pay by (auto simp: fail stored cancel split: sum.split option.split bool.split)
qed (simp add: execute_run_metered_def)


lemma accounted_claim:
  "claim_run S worker t u locked i d = (res, d') \<Longrightarrow> accounted d d' []"
  by (auto simp: claim_run_def split: option.splits intro: accounted_frame)

lemma accounted_process_run:
  "accounted (w_db w) (w_db (snd (fst (process_run_metered X S c worker t u locked i latency run_id w))))
     (snd (process_run_metered X S c worker t u locked i latency run_id w))"
proof -
  obtain res d where claim: "claim_run S worker t u locked run_id (w_db w) = (res, d)" by fastforce
  note one = accounted_claim [OF claim]
  show ?thesis
    using one accounted_append [OF one, of "w_db (snd (fst (execute_run_metered X S c worker i latency run_id (w\<lparr>w_db := d\<rparr>))))"]
      accounted_execute_run [of "w\<lparr>w_db := d\<rparr>" X S c worker i latency run_id]
    by (cases res) (simp_all add: process_run_metered_def claim)
qed

lemma accounted_process_batch:
  "accounted (w_db w) (w_db (fst (process_batch_metered X S c worker ins lats rs w)))
     (snd (process_batch_metered X S c worker ins lats rs w))"
proof (induction rs arbitrary: w)
  case (Cons r rs)
  obtain err w1 ms where run: "process_run_metered X S c worker (ri_lock (ins r)) (ri_start (ins r)) (ri_locked (ins r))
      (ri_step (ins r)) (lats r) r w = ((err, w1), ms)" by (metis prod.exhaust)
  obtain w2 ms' where rest: "process_batch_metered X S c worker ins lats rs w1 = (w2, ms')" by fastforce
  have "accounted (w_db w) (w_db w1) ms"
    using accounted_process_run [of w X S c worker "ri_lock (ins r)" "ri_start (ins r)" "ri_locked (ins r)" "ri_step (ins r)" "lats r" r]
    by (simp add: run)
  from accounted_append [OF this] Cons.IH [of w1] show ?case by (simp add: run rest)
qed simp

lemma accounted_tick:
  "accounted (w_db w) (w_db (fst (executor_tick_metered X S c worker now locked ins lats elapsed w)))
     (snd (executor_tick_metered X S c worker now locked ins lats elapsed w))"
proof (cases "fetch_pending_run_ids S now locked (w_db w) = []")
  case False
  obtain w1 ms1 where batch: "process_batch_metered X S c worker ins lats (fetch_pending_run_ids S now locked (w_db w)) w
      = (w1, ms1)" by fastforce
  then have "accounted (w_db w) (w_db w1) ms1"
    using accounted_process_batch [of w X S c worker ins lats "fetch_pending_run_ids S now locked (w_db w)"] by simp
  with False batch show ?thesis by (auto simp: executor_tick_metered_def accounted_def queued_def split: if_splits)
qed (simp add: executor_tick_metered_def)


section \<open>Recovery\<close>

definition route_metered ::
  "recover_inputs \<Rightarrow> uuid \<Rightarrow> uuid \<Rightarrow> int \<Rightarrow> Subscription \<Rightarrow> db \<Rightarrow> (exn + db) \<times> metric list" where
  "route_metered i run_id job_id attempt sub d =
     metered_then (policy_of (s_retry_policy sub), []) (\<lambda>policy.
     metered_then (is_exhausted policy attempt, []) (\<lambda>exhausted.
       if exhausted then
         metered_then (recovery_move_to_dlq (vi_dlq_now i) (vi_dlq_id i) run_id job_id attempt sub (exhausted_reason attempt) d, [])
           (\<lambda>d'. (Inr d', [DlqEntry]))
       else
         metered_then (insert_run (new_run (vi_run_id i) job_id (attempt + 1) None (db_now d)) d, [])
           (\<lambda>(_, d'). (Inr d', [RetryScheduled]))))"

lemma route_metered_result [simp]:
  "fst (route_metered i run_id job_id attempt sub d) = route_reclaimed i run_id job_id attempt sub d"
  by (simp add: route_metered_def route_reclaimed_def if_distrib [of fst] split_def cong: if_cong)

definition recover_single_metered ::
  "recover_inputs \<Rightarrow> uuid \<Rightarrow> datetime \<Rightarrow> db \<Rightarrow> ((exn + bool) \<times> db) \<times> metric list" where
  "recover_single_metered i run_id now d =
     (case reclaim_run now run_id d of
        Inl e \<Rightarrow> ((Inl e, d), [])
      | Inr (None, d1) \<Rightarrow> ((Inr False, d1), [])
      | Inr (Some (job_id, attempt, sub), d1) \<Rightarrow>
          (case sub of
             None \<Rightarrow> ((Inr True, d1), [])
           | Some subscription \<Rightarrow>
               (case route_metered i run_id job_id attempt subscription d1 of
                  (Inl e, ms) \<Rightarrow> ((Inl e, d1), ms)
                | (Inr d2, ms) \<Rightarrow> ((Inr True, d2), ms))))"

lemma recover_single_metered_result [simp]:
  "fst (recover_single_metered i run_id now d) = recover_single_run_by_id i run_id now d"
proof -
  have route: "route_reclaimed i run_id job_id attempt sub d = fst (route_metered i run_id job_id attempt sub d)"
    for job_id attempt sub d by simp
  show ?thesis
    unfolding recover_single_metered_def recover_single_run_by_id_def route
    by (auto simp del: route_metered_result split: sum.split option.split prod.split)
qed

fun recover_all_metered ::
  "(uuid \<Rightarrow> recover_inputs) \<Rightarrow> datetime \<Rightarrow> uuid list \<Rightarrow> db \<Rightarrow> ((exn + nat) \<times> db) \<times> metric list" where
  "recover_all_metered ins now [] d = ((Inr 0, d), [])"
| "recover_all_metered ins now (run_id # ids) d =
     (case recover_single_metered (ins run_id) run_id now d of
        ((Inl e, d1), ms) \<Rightarrow> ((Inl e, d1), ms)
      | ((Inr did, d1), ms) \<Rightarrow>
          (case recover_all_metered ins now ids d1 of
             ((Inl e, d2), ms') \<Rightarrow> ((Inl e, d2), ms @ ms')
           | ((Inr n, d2), ms') \<Rightarrow> ((Inr (if did then n + 1 else n), d2), ms @ ms')))"

lemma recover_all_metered_result [simp]:
  "fst (recover_all_metered ins now ids d) = recover_all ins now ids d"
proof (induction ids arbitrary: d)
  case (Cons run_id ids)
  have single: "recover_single_run_by_id i run_id now d = fst (recover_single_metered i run_id now d)" for i d by simp
  show ?case
    unfolding recover_all.simps recover_all_metered.simps single Cons [symmetric]
    by (auto simp del: recover_single_metered_result Cons split: sum.split prod.split)
qed simp

text \<open>\<open>_recover_stuck_runs\<close>: the counter of recovered runs is written once, after the loop.\<close>

definition recover_stuck_metered ::
  "(uuid \<Rightarrow> recover_inputs) \<Rightarrow> datetime \<Rightarrow> db \<Rightarrow> ((exn + nat) \<times> db) \<times> metric list" where
  "recover_stuck_metered ins now d =
     (case recover_all_metered ins now (stuck_run_ids now d) d of
        ((Inl e, d1), ms) \<Rightarrow> ((Inl e, d1), ms)
      | ((Inr n, d1), ms) \<Rightarrow> ((Inr n, d1), ms @ (if n \<noteq> 0 then [RecoveryRuns n] else [])))"

lemma recover_stuck_metered_result [simp]:
  "fst (recover_stuck_metered ins now d) = recover_stuck_runs ins now d"
proof -
  have all: "recover_all ins now ids d = fst (recover_all_metered ins now ids d)" for ids by simp
  show ?thesis
    unfolding recover_stuck_metered_def recover_stuck_runs_def all
    by (auto simp del: recover_all_metered_result split: sum.split prod.split)
qed


lemma route_counted:
  assumes "route_metered i run_id job_id attempt sub d = (res, ms)"
  shows "case res of Inl e \<Rightarrow> ms = [] | Inr d' \<Rightarrow> queued d d' ms"
proof -
  have dead: "queued d d' [DlqEntry]" if "recovery_move_to_dlq now k run_id job_id attempt sub reason d = Inr d'" for now k reason d'
    using that by (auto simp: recovery_move_to_dlq_def insert_dlq_Inr_iff queued_def dlq_grows_one)
  have retry: "queued d d' [RetryScheduled]" if "insert_run row d = Inr (b, d')" for row b d'
    using that by (auto simp: insert_run_Inr_iff queued_def dlq_grows_refl split: if_splits)
  show ?thesis
    using assms dead retry
    by (auto simp: route_metered_def metered_then_def split: sum.splits if_splits prod.splits)
qed

lemma recover_single_counted:
  assumes "recover_single_metered i run_id now d = ((res, d'), ms)"
  shows "queued d d' ms"
proof (cases "reclaim_run now run_id d")
  case (Inl e)
  with assms show ?thesis by (auto simp: recover_single_metered_def intro: queued_nothing)
next
  case (Inr p)
  obtain claimed d1 where p: "p = (claimed, d1)" by fastforce
  have "dead_letter_queue d1 = dead_letter_queue d"
    using Inr p by (auto simp: reclaim_run_def and_then_Inr_iff Let_def split: option.splits)
  then have one: "queued d d1 []" by (rule queued_nothing)
  show ?thesis
  proof (cases "\<exists>job a sub. claimed = Some (job, a, Some sub)")
    case False
    with assms Inr p one show ?thesis
      by (auto simp: recover_single_metered_def split: option.splits)
  next
    case True
    then obtain job a sub where claimed: "claimed = Some (job, a, Some sub)" by blast
    obtain r ms1 where route: "route_metered i run_id job a sub d1 = (r, ms1)" by fastforce
    have "case r of Inl e \<Rightarrow> ms1 = [] | Inr d' \<Rightarrow> queued d1 d' ms1"
      by (rule route_counted [OF route])
    then show ?thesis
      using assms Inr p claimed route one queued_append [OF one]
      by (auto simp: recover_single_metered_def split: sum.splits)
  qed
qed

lemma recover_all_counted: "recover_all_metered ins now ids d = ((res, d'), ms) \<Longrightarrow> queued d d' ms"
proof (induction ids arbitrary: d res d' ms)
  case Nil
  then show ?case by (auto intro: queued_nothing)
next
  case (Cons run_id ids)
  obtain r1 d1 ms1 where one: "recover_single_metered (ins run_id) run_id now d = ((r1, d1), ms1)" by (metis prod.exhaust)
  obtain r2 d2 ms2 where rest: "recover_all_metered ins now ids d1 = ((r2, d2), ms2)" by (metis prod.exhaust)
  from queued_append [OF recover_single_counted [OF one] Cons.IH [OF rest]] recover_single_counted [OF one] Cons.prems
  show ?case by (auto simp: one rest split: sum.splits)
qed

lemma recover_stuck_counted:
  assumes "recover_stuck_metered ins now d = ((res, d'), ms)"
  shows "queued d d' ms"
proof -
  obtain r1 d1 ms1 where all: "recover_all_metered ins now (stuck_run_ids now d) d = ((r1, d1), ms1)" by (metis prod.exhaust)
  from recover_all_counted [OF all] assms show ?thesis
    by (auto simp: recover_stuck_metered_def all queued_def split: sum.splits if_splits)
qed

section \<open>The open dead letters\<close>

text \<open>The API counts a resolution after the row is updated and before the answer.\<close>

definition resolve_metered ::
  "datetime \<Rightarrow> uuid \<Rightarrow> string \<Rightarrow> db \<Rightarrow> (http_error + DeadLetterEntry \<times> db) \<times> metric list" where
  "resolve_metered now entry_id resolved_by d =
     metered_then (resolve_dlq_entry now entry_id resolved_by d, []) (\<lambda>(e, d'). (Inr (e, d'), [DlqResolved]))"

lemma resolve_metered_result [simp]: "fst (resolve_metered now i who d) = resolve_dlq_entry now i who d"
  by (simp add: resolve_metered_def split_def)

lemma resolve_counted:
  assumes "db_ok d" and "resolve_metered now i who d = (Inr (e, d'), ms)"
  shows "dlq_count d = Suc (dlq_count d') \<and> ms = [DlqResolved] \<and> db_ok d'"
proof -
  have res: "resolve_dlq_entry now i who d = Inr (e, d')" and ms: "ms = [DlqResolved]"
    using assms(2) by (auto simp: resolve_metered_def metered_then_def split: sum.splits prod.splits)
  obtain e0 where e0: "get_by d_id i (dead_letter_queue d) = Some e0" "d_resolved_at e0 = None"
    using res by (auto simp: resolve_dlq_entry_def split: option.splits if_splits)
  then have "d' = update_dlq (\<lambda>e. d_id e = i) (\<lambda>e. e\<lparr>d_resolved_at := Some now, d_resolved_by := Some who\<rparr>) d"
    using res by (auto simp: resolve_dlq_entry_def Let_def split: option.splits)
  then show ?thesis
    using resolve_count [OF _ e0, where now = now and who = "Some who"] assms(1) ms db_ok_resolve_dlq_entry [OF assms(1) res]
    by (simp add: dlq_count_def db_ok_defs)
qed

text \<open>All the processes that touch the queue, with the sums of their registries: executor ticks,
  recovery passes, resolutions over the API.\<close>

inductive metered_work :: "ext \<Rightarrow> Settings \<Rightarrow> client \<Rightarrow> db \<times> registry \<Rightarrow> db \<times> registry \<Rightarrow> bool" for X S c where
  execute: "executor_tick_metered X S c worker now locked ins lats elapsed \<lparr>w_db = d, w_requests = qs\<rparr> = (w, ms) \<Longrightarrow>
     metered_work X S c (d, m) (w_db w, fold emit ms m)"
| recover: "recover_stuck_metered rins now d = ((res, d'), ms) \<Longrightarrow> metered_work X S c (d, m) (d', fold emit ms m)"
| resolve: "resolve_metered now i who d = (Inr (e, d'), ms) \<Longrightarrow> metered_work X S c (d, m) (d', fold emit ms m)"

inductive_cases metered_workE: "metered_work X S c (d, m) p"

definition dlq_start :: "db \<times> registry \<Rightarrow> bool" where
  "dlq_start p \<longleftrightarrow> db_ok (fst p) \<and> dlq_count (fst p) = 0 \<and> snd p = registry_start"

definition dlq_open_exact :: "db \<times> registry \<Rightarrow> bool" where
  "dlq_open_exact p \<longleftrightarrow> db_ok (fst p)
     \<and> dlq_count (fst p) + mt_dlq_resolved_total (snd p) = mt_dlq_entries_total (snd p)"

lemma dlq_open_queued:
  assumes "dlq_open_exact (d, m)" and "queued d d' ms" and "db_ok d'"
  shows "dlq_open_exact (d', fold emit ms m)"
  using assms dlq_grows_count [of d d' "count_list ms DlqEntry"]
  by (simp add: dlq_open_exact_def queued_def emitted_counts)

lemma dlq_open_step:
  assumes "dlq_open_exact p" and "metered_work X S c p p'"
  shows "dlq_open_exact p'"
  using assms(2)
proof cases
  case (execute worker now locked ins lats elapsed d qs w ms m)
  have "accounted d (w_db w) ms"
    using accounted_tick [of "\<lparr>w_db = d, w_requests = qs\<rparr>" X S c worker now locked ins lats elapsed] by (simp add: execute)
  moreover have "w = executor_tick X S c worker now locked ins \<lparr>w_db = d, w_requests = qs\<rparr>"
    using executor_tick_metered_result [of X S c worker now locked ins lats elapsed "\<lparr>w_db = d, w_requests = qs\<rparr>"]
    by (simp add: execute)
  then have "db_ok (w_db w)"
    using assms(1) by (simp add: executor_tick_def dlq_open_exact_def execute(1) db_ok_process_batch)
  ultimately show ?thesis
    using dlq_open_queued assms(1) by (simp add: execute(1,2) accounted_def)
next
  case (recover rins now d res d' ms m)
  have "recover_stuck_runs rins now d = (res, d')"
    using recover_stuck_metered_result [of rins now d] by (simp add: recover)
  then have "db_ok d'" using assms(1) db_ok_recover_all by (auto simp: recover_stuck_runs_def dlq_open_exact_def recover(1))
  with dlq_open_queued [OF _ recover_stuck_counted [OF recover(3)]] assms(1) show ?thesis by (simp add: recover(1,2))
next
  case (resolve now i who d e d' ms m)
  have "db_ok d" using assms(1) by (simp add: dlq_open_exact_def resolve(1))
  from resolve_counted [OF this resolve(3)] assms(1) show ?thesis
    by (simp add: resolve(1,2) dlq_open_exact_def record_dlq_resolved_def)
qed

interpretation dlq_dashboard: inductive_invariant dlq_start "metered_work X S c" dlq_open_exact for X S c
proof unfold_locales
  show "dlq_open_exact p" if "dlq_start p" for p
    using that by (simp add: dlq_start_def dlq_open_exact_def registry_start_def metrics_start_def metrics.extend_def)
qed (rule dlq_open_step)



text \<open>A stuck run at its last attempt goes to the dead-letter queue and is resolved over the API.\<close>

definition spent_run :: JobRun where
  "spent_run = stuck_run\<lparr>r_attempt := 2\<rparr>"

definition spent_db :: db where
  "spent_db = stuck_db\<lparr>job_runs := [spent_run]\<rparr>"

lemma spent_recovered:
  "\<exists>d. recover_stuck_metered (\<lambda>_. example_recover) 200 spent_db = ((Inr 1, d), [DlqEntry, RecoveryRuns 1])
     \<and> map d_id (dead_letter_queue d) = [9]"
proof -
  let ?d1 = "spent_db\<lparr>job_runs := [reclaimed 200 spent_run]\<rparr>"
  obtain p where p: "policy_of (s_retry_policy example_sub) = Inr p" "max_attempts p = JInt 2" using example_policy by blast
  have "stuck 200 spent_run" by (simp add: spent_run_def stuck_run_def stuck_def)
  then have ids: "stuck_run_ids 200 spent_db = [1]"
    by (simp add: stuck_run_ids_def select_limit_def spent_db_def) (simp add: spent_run_def stuck_run_def example_defs)
  have reclaim: "reclaim_run 200 1 spent_db = Inr (Some (5, 2, Some example_sub), ?d1)"
    by (simp add: reclaim_run_def subscriptions_of_job_def update_runs_def stuck_def spent_db_def spent_run_def
        stuck_db_def stuck_run_def example_defs)
  obtain d2 where dead: "recovery_move_to_dlq 210 9 1 5 2 example_sub (exhausted_reason 2) ?d1 = Inr d2"
    "map d_id (dead_letter_queue d2) = [9]"
    by (simp add: recovery_move_to_dlq_def insert_dlq_def spent_db_def spent_run_def stuck_db_def stuck_run_def
        example_defs reclaimed_def)
  have "route_metered example_recover 1 5 2 example_sub ?d1 = (Inr d2, [DlqEntry])"
    using dead(1) by (simp add: route_metered_def metered_then_def p is_exhausted_def example_recover_def)
  then show ?thesis
    using dead(2) by (simp add: recover_stuck_metered_def recover_single_metered_def ids reclaim)
qed


end
