(* ===== verification/App.thy ===== *)
theory App
  imports ApiFacts Observability
begin

text \<open>
  The HTTP application of \<open>app/main.py\<close>: the response models of the routes, the route table that
  the decorators and \<open>include_router\<close> build, one request from its handler through \<open>get_db\<close> and the
  exception handlers to its response, and what \<open>create_app\<close> configures. Matching a path against a
  table, parsing and rendering are the framework's.
\<close>

section \<open>Response models\<close>

text \<open>A response model takes its fields from the row; a field declared \<open>dict\<close> accepts JSON objects
  only, and anything else is the framework's response validation error.\<close>

definition is_dict :: "json \<Rightarrow> bool" where
  "is_dict v \<longleftrightarrow> json_fields v \<noteq> None"

definition response_validation_error :: exn where
  "response_validation_error = OtherException 0"

record SubscriptionResponse =
  sr_id :: uuid
  sr_name :: string
  sr_description :: "string option"
  sr_cron_expression :: string
  sr_timezone :: string
  sr_next_fire_at :: "datetime option"
  sr_payment_config :: json
  sr_retry_policy :: json
  sr_status :: string
  sr_consecutive_failures :: int
  sr_paused_at :: "datetime option"
  sr_created_at :: datetime
  sr_updated_at :: datetime

definition SubscriptionResponse_of :: "Subscription \<Rightarrow> exn + SubscriptionResponse" where
  "SubscriptionResponse_of s =
     (if \<not> is_dict (s_payment_config s) \<or> \<not> is_dict (s_retry_policy s) then Inl response_validation_error
      else Inr \<lparr>sr_id = s_id s, sr_name = s_name s, sr_description = s_description s,
        sr_cron_expression = s_cron_expression s, sr_timezone = s_timezone s, sr_next_fire_at = s_next_fire_at s,
        sr_payment_config = s_payment_config s, sr_retry_policy = s_retry_policy s,
        sr_status = subscription_status_value (s_status s), sr_consecutive_failures = s_consecutive_failures s,
        sr_paused_at = s_paused_at s, sr_created_at = s_created_at s, sr_updated_at = s_updated_at s\<rparr>)"

record JobResponse =
  jr_id :: uuid
  jr_subscription_id :: uuid
  jr_scheduled_for :: datetime
  jr_fingerprint :: string
  jr_depends_on :: "string list"
  jr_status :: string
  jr_created_at :: datetime

definition JobResponse_of :: "ScheduledJob \<Rightarrow> JobResponse" where
  "JobResponse_of j =
     \<lparr>jr_id = j_id j, jr_subscription_id = j_subscription_id j, jr_scheduled_for = j_scheduled_for j,
      jr_fingerprint = j_fingerprint j, jr_depends_on = j_depends_on j, jr_status = job_status_value (j_status j),
      jr_created_at = j_created_at j\<rparr>"

record JobRunResponse =
  rr_id :: uuid
  rr_job_id :: uuid
  rr_attempt :: int
  rr_worker_id :: "string option"
  rr_status :: string
  rr_bunq_payment_id :: "string option"
  rr_error_message :: "string option"
  rr_created_at :: datetime
  rr_started_at :: "datetime option"
  rr_finished_at :: "datetime option"

definition JobRunResponse_of :: "JobRun \<Rightarrow> JobRunResponse" where
  "JobRunResponse_of r =
     \<lparr>rr_id = r_id r, rr_job_id = r_job_id r, rr_attempt = r_attempt r, rr_worker_id = r_worker_id r,
      rr_status = run_status_value (r_status r), rr_bunq_payment_id = r_bunq_payment_id r,
      rr_error_message = r_error_message r, rr_created_at = r_created_at r, rr_started_at = r_started_at r,
      rr_finished_at = r_finished_at r\<rparr>"

record DLQEntryResponse =
  er_id :: uuid
  er_job_run_id :: uuid
  er_job_id :: uuid
  er_subscription_id :: uuid
  er_failure_reason :: string
  er_error_class :: "string option"
  er_payload_snapshot :: json
  er_created_at :: datetime
  er_resolved_at :: "datetime option"
  er_resolved_by :: "string option"

definition DLQEntryResponse_of :: "DeadLetterEntry \<Rightarrow> exn + DLQEntryResponse" where
  "DLQEntryResponse_of e =
     (if \<not> is_dict (d_payload_snapshot e) then Inl response_validation_error
      else Inr \<lparr>er_id = d_id e, er_job_run_id = d_job_run_id e, er_job_id = d_job_id e,
        er_subscription_id = d_subscription_id e, er_failure_reason = d_failure_reason e,
        er_error_class = d_error_class e, er_payload_snapshot = d_payload_snapshot e,
        er_created_at = d_created_at e, er_resolved_at = d_resolved_at e, er_resolved_by = d_resolved_by e\<rparr>)"

text \<open>A list response: the first row that does not fit ends it.\<close>

fun all_of :: "('r \<Rightarrow> exn + 'a) \<Rightarrow> 'r list \<Rightarrow> exn + 'a list" where
  "all_of f [] = Inr []"
| "all_of f (r # rs) = and_then (f r) (\<lambda>x. and_then (all_of f rs) (\<lambda>xs. Inr (x # xs)))"

lemma all_of_Inr_iff: "all_of f rs = Inr xs \<longleftrightarrow> map f rs = map Inr xs"
  by (induction rs arbitrary: xs) (auto simp: and_then_Inr_iff Cons_eq_map_conv)

section \<open>The route table\<close>

datatype http_method = GET | POST | PATCH | DELETE

datatype segment = Lit string | Param

datatype endpoint =
    CreateSubscription | ListSubscriptions | GetSubscription | UpdateSubscription | DeleteSubscription | ResumeSubscription
  | ListJobs | GetJob | ListJobRuns | GetJobRun
  | ListDlq | DlqCount | ResolveDlqEntry
  | Liveness | Readiness

record route =
  rt_method :: http_method
  rt_path :: "segment list"
  rt_endpoint :: endpoint
  rt_status :: int

definition the_route :: "http_method \<Rightarrow> segment list \<Rightarrow> endpoint \<Rightarrow> int \<Rightarrow> route" where
  "the_route m p e code = \<lparr>rt_method = m, rt_path = p, rt_endpoint = e, rt_status = code\<rparr>"

text \<open>The routers in the order of their decorators. A path is split at its slashes, so the path of
  the collection, a slash, is one empty segment.\<close>

definition subscriptions_router :: "route list" where
  "subscriptions_router =
     [the_route POST [Lit ''''] CreateSubscription 201,
      the_route GET [Lit ''''] ListSubscriptions 200,
      the_route GET [Param] GetSubscription 200,
      the_route PATCH [Param] UpdateSubscription 200,
      the_route DELETE [Param] DeleteSubscription 204,
      the_route POST [Param, Lit ''resume''] ResumeSubscription 200]"

definition jobs_router :: "route list" where
  "jobs_router =
     [the_route GET [Lit ''''] ListJobs 200,
      the_route GET [Param] GetJob 200,
      the_route GET [Param, Lit ''runs''] ListJobRuns 200,
      the_route GET [Lit ''runs'', Param] GetJobRun 200]"

definition dlq_router :: "route list" where
  "dlq_router =
     [the_route GET [Lit ''''] ListDlq 200,
      the_route GET [Lit ''count''] DlqCount 200,
      the_route POST [Param, Lit ''resolve''] ResolveDlqEntry 200]"

definition health_router :: "route list" where
  "health_router =
     [the_route GET [Lit ''live''] Liveness 200,
      the_route GET [Lit ''ready''] Readiness 200]"

definition include_router :: "string \<Rightarrow> route list \<Rightarrow> route list \<Rightarrow> route list" where
  "include_router prefix router routes = routes @ map (\<lambda>r. r\<lparr>rt_path := Lit prefix # rt_path r\<rparr>) router"

definition app_routes :: "route list" where
  "app_routes = include_router ''health'' health_router (include_router ''dlq'' dlq_router
     (include_router ''jobs'' jobs_router (include_router ''subscriptions'' subscriptions_router [])))"

lemma app_routes_eq:
  "app_routes =
     [the_route POST [Lit ''subscriptions'', Lit ''''] CreateSubscription 201,
      the_route GET [Lit ''subscriptions'', Lit ''''] ListSubscriptions 200,
      the_route GET [Lit ''subscriptions'', Param] GetSubscription 200,
      the_route PATCH [Lit ''subscriptions'', Param] UpdateSubscription 200,
      the_route DELETE [Lit ''subscriptions'', Param] DeleteSubscription 204,
      the_route POST [Lit ''subscriptions'', Param, Lit ''resume''] ResumeSubscription 200,
      the_route GET [Lit ''jobs'', Lit ''''] ListJobs 200,
      the_route GET [Lit ''jobs'', Param] GetJob 200,
      the_route GET [Lit ''jobs'', Param, Lit ''runs''] ListJobRuns 200,
      the_route GET [Lit ''jobs'', Lit ''runs'', Param] GetJobRun 200,
      the_route GET [Lit ''dlq'', Lit ''''] ListDlq 200,
      the_route GET [Lit ''dlq'', Lit ''count''] DlqCount 200,
      the_route POST [Lit ''dlq'', Param, Lit ''resolve''] ResolveDlqEntry 200,
      the_route GET [Lit ''health'', Lit ''live''] Liveness 200,
      the_route GET [Lit ''health'', Lit ''ready''] Readiness 200]"
  by (simp add: app_routes_def include_router_def subscriptions_router_def jobs_router_def dlq_router_def
      health_router_def the_route_def)

text \<open>A path is an instance of a template when the literal segments agree and the parameters are not
  empty; a client builds a path by writing its argument for the parameter.\<close>

fun instance_of :: "segment list \<Rightarrow> string list \<Rightarrow> bool" where
  "instance_of [] [] = True"
| "instance_of (Lit a # t) (s # p) = (s = a \<and> instance_of t p)"
| "instance_of (Param # t) (s # p) = (s \<noteq> [] \<and> instance_of t p)"
| "instance_of t p = False"

fun build_path :: "segment list \<Rightarrow> string \<Rightarrow> string list" where
  "build_path [] arg = []"
| "build_path (Lit a # t) arg = a # build_path t arg"
| "build_path (Param # t) arg = arg # build_path t arg"

text \<open>The framework takes the first route in the order of registration.\<close>

definition first_match :: "route list \<Rightarrow> http_method \<Rightarrow> string list \<Rightarrow> route option" where
  "first_match routes m p = find (\<lambda>r. rt_method r = m \<and> instance_of (rt_path r) p) routes"

definition routes_first :: "(route list \<Rightarrow> http_method \<Rightarrow> string list \<Rightarrow> route option) \<Rightarrow> bool" where
  "routes_first router \<longleftrightarrow> (\<forall>routes m p. router routes m p = first_match routes m p)"

lemma uuid_str_not_word: "length s < 36 \<Longrightarrow> uuid_str u \<noteq> s"
  using length_uuid_str [of u] by auto

lemma own_route:
  assumes "arg \<noteq> ''''" and "arg \<noteq> ''count''" and "arg \<noteq> ''runs''"
  shows "list_all (\<lambda>r. first_match app_routes (rt_method r) (build_path (rt_path r) arg) = Some r) app_routes"
  using assms unfolding first_match_def app_routes_eq the_route_def by simp

text \<open>
  C35: every endpoint answers under its own URL. For every route of the application and every
  identifier written into its path, the framework finds that route: the fixed paths \<open>count\<close>, \<open>runs\<close>
  and the empty one never hide a resource, nor a resource them, although the job and the run routes
  overlap for other texts.
\<close>

theorem every_endpoint_reachable:
  assumes "routes_first router" and "r \<in> set app_routes"
  shows "router app_routes (rt_method r) (build_path (rt_path r) (uuid_str u)) = Some r"
proof -
  have "list_all (\<lambda>r. first_match app_routes (rt_method r) (build_path (rt_path r) (uuid_str u)) = Some r) app_routes"
    by (rule own_route) (rule uuid_str_not_word, simp)+
  then show ?thesis using assms by (simp add: routes_first_def list_all_iff)
qed

theorem every_endpoint_reachable_witness:
  "first_match app_routes GET [''jobs'', ''runs'', uuid_str 5]
     = Some (the_route GET [Lit ''jobs'', Lit ''runs'', Param] GetJobRun 200)"
  using every_endpoint_reachable [of first_match "the_route GET [Lit ''jobs'', Lit ''runs'', Param] GetJobRun 200" 5]
  by (simp add: routes_first_def app_routes_eq the_route_def)

section \<open>One request\<close>

text \<open>A request after routing and parsing: the endpoint with its arguments.\<close>

datatype api_call =
    CallCreateSubscription SubscriptionCreate
  | CallListSubscriptions "string option" int int
  | CallGetSubscription uuid
  | CallUpdateSubscription uuid SubscriptionUpdate
  | CallDeleteSubscription uuid
  | CallResumeSubscription uuid
  | CallListJobs "uuid option" "string option" int int
  | CallGetJob uuid
  | CallListJobRuns uuid
  | CallGetJobRun uuid
  | CallListDlq "uuid option" bool int int
  | CallDlqCount
  | CallResolveDlqEntry uuid string
  | CallLiveness
  | CallReadiness

fun endpoint_of :: "api_call \<Rightarrow> endpoint" where
  "endpoint_of (CallCreateSubscription b) = CreateSubscription"
| "endpoint_of (CallListSubscriptions st l off) = ListSubscriptions"
| "endpoint_of (CallGetSubscription i) = GetSubscription"
| "endpoint_of (CallUpdateSubscription i b) = UpdateSubscription"
| "endpoint_of (CallDeleteSubscription i) = DeleteSubscription"
| "endpoint_of (CallResumeSubscription i) = ResumeSubscription"
| "endpoint_of (CallListJobs i st l off) = ListJobs"
| "endpoint_of (CallGetJob i) = GetJob"
| "endpoint_of (CallListJobRuns i) = ListJobRuns"
| "endpoint_of (CallGetJobRun i) = GetJobRun"
| "endpoint_of (CallListDlq i r l off) = ListDlq"
| "endpoint_of CallDlqCount = DlqCount"
| "endpoint_of (CallResolveDlqEntry i who) = ResolveDlqEntry"
| "endpoint_of CallLiveness = Liveness"
| "endpoint_of CallReadiness = Readiness"

definition route_of :: "api_call \<Rightarrow> route" where
  "route_of c = the (find (\<lambda>r. rt_endpoint r = endpoint_of c) app_routes)"

datatype body =
    SubscriptionBody SubscriptionResponse
  | SubscriptionsBody "SubscriptionResponse list"
  | JobBody JobResponse
  | JobsBody "JobResponse list"
  | RunBody JobRunResponse
  | RunsBody "JobRunResponse list"
  | DlqBody DLQEntryResponse
  | DlqsBody "DLQEntryResponse list"
  | JsonBody json
  | NoBody

record call_inputs =
  ai_now :: datetime
  ai_pause_now :: datetime
  ai_new_id :: uuid
  ai_select_1 :: "exn option"

text \<open>The handler's return value through its response model.\<close>

definition answer :: "('r \<Rightarrow> exn + 'a) \<Rightarrow> ('a \<Rightarrow> body) \<Rightarrow> http_error + 'r \<times> db \<Rightarrow> http_error + body \<times> db" where
  "answer model wrap res = and_then res (\<lambda>(x, d). and_then (unhandled (model x)) (\<lambda>y. Inr (wrap y, d)))"

definition reading :: "db \<Rightarrow> http_error + 'r \<Rightarrow> http_error + 'r \<times> db" where
  "reading d res = and_then res (\<lambda>x. Inr (x, d))"

fun handle :: "ext \<Rightarrow> call_inputs \<Rightarrow> api_call \<Rightarrow> db \<Rightarrow> http_error + body \<times> db" where
  "handle X i (CallCreateSubscription b) d =
     answer SubscriptionResponse_of SubscriptionBody (create_subscription X (ai_now i) (ai_new_id i) b d)"
| "handle X i (CallListSubscriptions st limit offset) d =
     answer (all_of SubscriptionResponse_of) SubscriptionsBody (reading d (list_subscriptions st limit offset d))"
| "handle X i (CallGetSubscription s) d =
     answer SubscriptionResponse_of SubscriptionBody (reading d (get_subscription s d))"
| "handle X i (CallUpdateSubscription s b) d =
     answer SubscriptionResponse_of SubscriptionBody (update_subscription X (ai_now i) (ai_pause_now i) s b d)"
| "handle X i (CallDeleteSubscription s) d = answer Inr (\<lambda>_. NoBody) (delete_subscription s d)"
| "handle X i (CallResumeSubscription s) d =
     answer SubscriptionResponse_of SubscriptionBody (resume_subscription X (ai_now i) s d)"
| "handle X i (CallListJobs s st limit offset) d =
     answer Inr (\<lambda>js. JobsBody (map JobResponse_of js)) (reading d (list_jobs s st limit offset d))"
| "handle X i (CallGetJob j) d = answer Inr (\<lambda>j. JobBody (JobResponse_of j)) (reading d (get_job j d))"
| "handle X i (CallListJobRuns j) d =
     answer Inr (\<lambda>rs. RunsBody (map JobRunResponse_of rs)) (reading d (Inr (list_job_runs j d)))"
| "handle X i (CallGetJobRun r) d = answer Inr (\<lambda>r. RunBody (JobRunResponse_of r)) (reading d (get_job_run r d))"
| "handle X i (CallListDlq s resolved limit offset) d =
     answer (all_of DLQEntryResponse_of) DlqsBody (reading d (list_dlq s resolved limit offset d))"
| "handle X i CallDlqCount d =
     Inr (JsonBody (JObj [(''unresolved_count'', JInt (int (dlq_count d)))]), d)"
| "handle X i (CallResolveDlqEntry e who) d =
     answer DLQEntryResponse_of DlqBody (resolve_dlq_entry (ai_now i) e who d)"
| "handle X i CallLiveness d = Inr (JsonBody (snd liveness), d)"
| "handle X i CallReadiness d = Inr (JsonBody (snd (readiness X (ai_select_1 i))), d)"

text \<open>\<open>get_db\<close> around the handler: its statements are committed when it returns, and rolled back on
  any exception, an HTTPException included. The framework runs the part after the \<open>yield\<close> before it
  sends the response (up to FastAPI 0.117; the requirements ask for 0.111 or later). The liveness
  probe has no session.\<close>

definition get_db ::
  "session_module \<Rightarrow> exn option \<Rightarrow> (db \<Rightarrow> http_error + 'a \<times> db) \<Rightarrow> db \<Rightarrow> (http_error + 'a) \<times> db" where
  "get_db m commit_fails body d =
     (case get_session_factory m of
        Inl e \<Rightarrow> (Inl (Unhandled e), d)
      | Inr f \<Rightarrow> (case body d of
            Inl e \<Rightarrow> (Inl e, d)
          | Inr (x, d') \<Rightarrow> (case commit_fails of Some e \<Rightarrow> (Inl (Unhandled e), d) | None \<Rightarrow> (Inr x, d'))))"

text \<open>The response: the route's status, the status of the HTTPException, or what the exception
  handlers make of anything else.\<close>

definition respond ::
  "ext \<Rightarrow> session_module \<Rightarrow> exn option \<Rightarrow> call_inputs \<Rightarrow> api_call \<Rightarrow> db \<Rightarrow> (int \<times> body) \<times> db" where
  "respond X m commit_fails i c d =
     (case (if c = CallLiveness then (case handle X i c d of Inl e \<Rightarrow> (Inl e, d) | Inr (x, d') \<Rightarrow> (Inr x, d'))
            else get_db m commit_fails (handle X i c) d) of
        (Inr b, d') \<Rightarrow> ((rt_status (route_of c), b), d')
      | (Inl (HTTPException code detail), d') \<Rightarrow> ((code, JsonBody (JObj [(''detail'', JStr detail)])), d')
      | (Inl (Unhandled e), d') \<Rightarrow> ((fst (error_response X e), JsonBody (snd (error_response X e))), d'))"

section \<open>Every request is safe\<close>

lemma answer_Inr_iff:
  "answer model wrap res = Inr (b, d') \<longleftrightarrow> (\<exists>x y. res = Inr (x, d') \<and> model x = Inr y \<and> b = wrap y)"
  by (auto simp: answer_def and_then_Inr_iff unhandled_Inr_iff split: sum.splits)

lemma reading_Inr_iff: "reading d res = Inr (x, d') \<longleftrightarrow> res = Inr x \<and> d' = d"
  by (auto simp: reading_def and_then_Inr_iff)

text \<open>What the API leaves alone: the jobs, the runs, the idempotency keys, and which dead letters
  there are.\<close>

definition workers_rows :: "db \<Rightarrow> ScheduledJob list \<times> JobRun list \<times> IdempotencyKeyRecord list \<times> uuid list" where
  "workers_rows d = (scheduled_jobs d, job_runs d, idempotency_keys d, map d_id (dead_letter_queue d))"

lemma handle_safe:
  assumes "db_ok d" and "handle X i c d = Inr (b, d')"
  shows "db_ok d'" and "workers_rows d' = workers_rows d"
    and "rt_method (route_of c) = GET \<longrightarrow> d' = d"
proof -
  show "db_ok d'"
    using assms by (cases c)
      (auto simp: answer_Inr_iff reading_Inr_iff intro: db_ok_create_subscription db_ok_update_subscription
        db_ok_delete_subscription db_ok_resume_subscription db_ok_resolve_dlq_entry)
  show "workers_rows d' = workers_rows d"
    using assms(2) by (cases c)
      (auto simp: answer_Inr_iff reading_Inr_iff workers_rows_def create_subscription_def update_subscription_def
        delete_subscription_def resume_subscription_def resolve_dlq_entry_def and_then_Inr_iff Let_def
        unhandled_Inr_iff insert_subscription_Inr_iff map_update_where split: if_splits option.splits)
  show "rt_method (route_of c) = GET \<longrightarrow> d' = d"
    using assms(2) by (cases c)
      (auto simp: answer_Inr_iff reading_Inr_iff route_of_def app_routes_eq the_route_def)
qed

lemma compute_next_fire_Inl: "compute_next_fire X c tz now = Inl e \<Longrightarrow> e \<in> {Unhandled UnknownTimeZoneError, Unhandled CroniterError}"
  by (auto simp: compute_next_fire_def split: if_splits option.splits)

lemma page_Inl: "page l off xs = Inl e \<Longrightarrow> e = Unhandled DataError"
  by (simp add: page_def split: if_splits)

lemma model_Inl:
  "SubscriptionResponse_of s = Inl e \<Longrightarrow> e = response_validation_error"
  "DLQEntryResponse_of x = Inl e \<Longrightarrow> e = response_validation_error"
  by (simp_all add: SubscriptionResponse_of_def DLQEntryResponse_of_def split: if_splits)

lemma all_of_Inl: "all_of f rs = Inl e \<Longrightarrow> \<exists>r \<in> set rs. f r = Inl e"
  by (induction rs) (auto simp: and_then_Inl_iff)

lemma insert_subscription_Inl: "insert_subscription s d = Inl e \<Longrightarrow> e = IntegrityError"
  by (auto simp: insert_subscription_def insert_row_def split: if_splits sum.splits)

text \<open>The ways a handler fails.\<close>

definition route_failures :: "http_error set" where
  "route_failures = {e. (\<exists>code t. e = HTTPException code t \<and> code \<in> {404, 409, 422})
     \<or> (\<exists>x. e = Unhandled x \<and> \<not> is_scheduler_error x)}"

lemma route_failures_simps [simp]:
  "HTTPException code t \<in> route_failures \<longleftrightarrow> code \<in> {404, 409, 422}"
  "Unhandled x \<in> route_failures \<longleftrightarrow> \<not> is_scheduler_error x"
  by (auto simp: route_failures_def)

lemma answer_Inl:
  assumes "answer model wrap res = Inl e"
    and "\<And>e. res = Inl e \<Longrightarrow> e \<in> route_failures" and "\<And>x e. model x = Inl e \<Longrightarrow> \<not> is_scheduler_error e"
  shows "e \<in> route_failures"
proof (cases res)
  case (Inr p)
  then obtain x d where res: "res = Inr (x, d)" by (cases p) simp
  then show ?thesis using assms(1) assms(3) [of x] by (cases "model x") (auto simp: answer_def unhandled_def)
qed (use assms in \<open>simp add: answer_def\<close>)

lemma reading_Inl: "reading d res = Inl e \<longleftrightarrow> res = Inl e"
  by (auto simp: reading_def and_then_Inl_iff)

lemma unhandled_Inl_iff: "unhandled r = Inl e \<longleftrightarrow> (\<exists>x. r = Inl x \<and> e = Unhandled x)"
  by (auto simp: unhandled_def split: sum.splits)

lemma route_failures_of:
  "create_subscription X now i b d = Inl e \<Longrightarrow> e \<in> route_failures"
  "list_subscriptions st l off d = Inl e \<Longrightarrow> e \<in> route_failures"
  "get_subscription i d = Inl e \<Longrightarrow> e \<in> route_failures"
  "update_subscription X now t i u d = Inl e \<Longrightarrow> e \<in> route_failures"
  "delete_subscription i d = Inl e \<Longrightarrow> e \<in> route_failures"
  "resume_subscription X now i d = Inl e \<Longrightarrow> e \<in> route_failures"
  "list_jobs s st l off d = Inl e \<Longrightarrow> e \<in> route_failures"
  "get_job i d = Inl e \<Longrightarrow> e \<in> route_failures"
  "get_job_run i d = Inl e \<Longrightarrow> e \<in> route_failures"
  "list_dlq s r l off d = Inl e \<Longrightarrow> e \<in> route_failures"
  "resolve_dlq_entry now i who d = Inl e \<Longrightarrow> e \<in> route_failures"
  by (auto simp: create_subscription_def update_subscription_def delete_subscription_def resume_subscription_def
      resolve_dlq_entry_def get_subscription_def find_subscription_def list_subscriptions_def list_jobs_def
      get_job_def get_job_run_def list_dlq_def validation_error_def unhandled_Inl_iff and_then_Inl_iff Let_def
      split: if_splits option.splits sum.splits dest!: compute_next_fire_Inl page_Inl insert_subscription_Inl)

lemma handle_failures:
  assumes "handle X i c d = Inl e"
  shows "e \<in> route_failures"
proof -
  have model: "SubscriptionResponse_of s = Inl x \<Longrightarrow> \<not> is_scheduler_error x"
    "all_of SubscriptionResponse_of ss = Inl x \<Longrightarrow> \<not> is_scheduler_error x"
    "DLQEntryResponse_of r = Inl x \<Longrightarrow> \<not> is_scheduler_error x"
    "all_of DLQEntryResponse_of rs = Inl x \<Longrightarrow> \<not> is_scheduler_error x" for s ss r rs x
    by (auto simp: response_validation_error_def dest!: all_of_Inl model_Inl)
  show ?thesis
    using assms by (cases c) (auto simp: reading_Inl elim!: answer_Inl dest: model route_failures_of)
qed

lemma error_status: "fst (error_response X e) \<in> {404, 422, 500}"
  by (cases e) (simp_all add: error_response_def)

lemma route_status: "rt_status (route_of c) \<in> {200, 201, 204}"
  by (cases c) (simp_all add: route_of_def app_routes_eq the_route_def)

lemma respond_cases:
  assumes "respond X m commit_fails i c d = ((code, b), d')"
  shows "(handle X i c d = Inr (b, d') \<and> code = rt_status (route_of c))
    \<or> (d' = d \<and> code \<in> {404, 409, 422, 500})"
proof (cases "handle X i c d")
  case (Inl e)
  then show ?thesis
    using assms handle_failures [OF Inl] error_status [of X]
    by (cases e) (auto simp: respond_def get_db_def split: if_splits sum.splits)
next
  case (Inr p)
  then show ?thesis
    using assms error_status [of X]
    by (cases p) (auto simp: respond_def get_db_def split: if_splits sum.splits option.splits)
qed

text \<open>
  C22: every request is safe. Whatever is asked, the database stays consistent and the API never
  touches a job, a run or an idempotency key, nor adds or removes a dead letter; a GET changes
  nothing; a request answered with an error has changed nothing; and the status is the route's
  own or one of 404, 409, 422 and 500.
\<close>

theorem api_calls_safe:
  assumes "db_ok d" and "respond X m commit_fails i c d = ((code, b), d')"
  shows "db_ok d' \<and> workers_rows d' = workers_rows d
    \<and> (rt_method (route_of c) = GET \<longrightarrow> d' = d) \<and> (400 \<le> code \<longrightarrow> d' = d)
    \<and> (code = rt_status (route_of c) \<or> code \<in> {404, 409, 422, 500})"
  using respond_cases [OF assms(2)]
proof
  assume h: "handle X i c d = Inr (b, d') \<and> code = rt_status (route_of c)"
  then show ?thesis using handle_safe [OF assms(1)] route_status [of c] by auto
qed (use assms(1) in auto)

section \<open>The exception handlers\<close>

text \<open>The ancestry of an exception, of which only the classes of the repository and \<open>Exception\<close>
  matter, and the handlers in the order of \<open>create_app\<close>. The framework takes the handler of the
  first class that has one; without any, and with \<open>DEBUG\<close> off, it answers a bare 500.\<close>

fun domain_class :: "exn \<Rightarrow> string option" where
  "domain_class (SubscriptionNotFoundError _) = Some ''SubscriptionNotFoundError''"
| "domain_class (SubscriptionValidationError _) = Some ''SubscriptionValidationError''"
| "domain_class (InvalidSubscriptionStateError _ _) = Some ''InvalidSubscriptionStateError''"
| "domain_class (JobNotFoundError _) = Some ''JobNotFoundError''"
| "domain_class (InvalidJobStateError _ _) = Some ''InvalidJobStateError''"
| "domain_class (ConfigurationError _) = Some ''ConfigurationError''"
| "domain_class (BunqPaymentError _ _) = Some ''BunqPaymentError''"
| "domain_class (BunqTransientError _) = Some ''BunqTransientError''"
| "domain_class (BunqAmbiguousError _) = Some ''BunqAmbiguousError''"
| "domain_class (LeaderElectionError _) = Some ''LeaderElectionError''"
| "domain_class (IdempotencyConflictError _) = Some ''IdempotencyConflictError''"
| "domain_class _ = None"

definition exn_mro :: "exn \<Rightarrow> string list" where
  "exn_mro e = (case domain_class e of None \<Rightarrow> [] | Some c \<Rightarrow> [c, ''SchedulerError'']) @ [''Exception'']"

definition detail_response :: "int \<Rightarrow> (ext \<Rightarrow> exn \<Rightarrow> string) \<Rightarrow> ext \<Rightarrow> exn \<Rightarrow> int \<times> json" where
  "detail_response code text_of X e = (code, JObj [(''detail'', JStr (text_of X e))])"

definition exception_handlers :: "(string \<times> (ext \<Rightarrow> exn \<Rightarrow> int \<times> json)) list" where
  "exception_handlers =
     [(''SubscriptionNotFoundError'', detail_response 404 exn_str),
      (''JobNotFoundError'', detail_response 404 exn_str),
      (''SubscriptionValidationError'', detail_response 422 exn_str),
      (''SchedulerError'', detail_response 500 (\<lambda>X e. ''An internal error occurred.''))]"

fun first_handler :: "string list \<Rightarrow> (ext \<Rightarrow> exn \<Rightarrow> int \<times> json) option" where
  "first_handler [] = None"
| "first_handler (c # cs) =
     (case map_of exception_handlers c of Some h \<Rightarrow> Some h | None \<Rightarrow> first_handler cs)"

definition handler_of :: "exn \<Rightarrow> (ext \<Rightarrow> exn \<Rightarrow> int \<times> json) option" where
  "handler_of e = first_handler (exn_mro e)"

lemma error_response_by_ancestry:
  "error_response X e =
     (case handler_of e of Some h \<Rightarrow> h X e | None \<Rightarrow> (500, JStr ''Internal Server Error''))"
  by (cases e)
    (simp_all add: error_response_def handler_of_def exn_mro_def exception_handlers_def detail_response_def)

lemma handler_of_None_iff: "handler_of e = None \<longleftrightarrow> \<not> is_scheduler_error e"
  by (cases e) (simp_all add: handler_of_def exn_mro_def exception_handlers_def)

text \<open>
  No request reaches the handlers of the domain exceptions. An endpoint fails with an
  HTTPException of its own, or with an exception for which no handler is registered, and then the
  client gets a bare 500 that says nothing of the cause.
\<close>

theorem domain_handlers_idle:
  assumes "handle X i c d = Inl e"
  shows "(\<exists>code text. e = HTTPException code text \<and> code \<in> {404, 409, 422})
    \<or> (\<exists>x. e = Unhandled x \<and> handler_of x = None \<and> error_response X x = (500, JStr ''Internal Server Error''))"
  using handle_failures [OF assms]
  by (cases e) (auto simp: error_response_by_ancestry simp flip: handler_of_None_iff)

section \<open>What \<open>create_app\<close> configures\<close>

record app_config =
  app_title :: string
  app_version :: string
  app_debug :: bool
  app_allow_origins :: "string list"
  app_allow_credentials :: bool
  app_allow_methods :: "string list"
  app_allow_headers :: "string list"
  app_handlers :: "string list"
  app_router :: "route list"
  app_mounts :: "string list"

definition create_app :: "Settings \<Rightarrow> app_config" where
  "create_app s =
     \<lparr>app_title = ''Payment Scheduler'', app_version = ''1.0.0'', app_debug = DEBUG s,
      app_allow_origins = [''https://backend-portfolio-two-ebon.vercel.app/'', ''http://localhost:3000''],
      app_allow_credentials = True, app_allow_methods = [''*''], app_allow_headers = [''*''],
      app_handlers = map fst exception_handlers, app_router = app_routes, app_mounts = [''metrics'']\<rparr>"

text \<open>The middleware compares the Origin header with the texts of the list. A browser writes an
  origin as scheme, host and port, without a slash at the end.\<close>

definition cors_allows :: "app_config \<Rightarrow> string \<Rightarrow> bool" where
  "cors_allows a origin \<longleftrightarrow> ''*'' \<in> set (app_allow_origins a) \<or> origin \<in> set (app_allow_origins a)"

definition browser_origin :: "string \<Rightarrow> bool" where
  "browser_origin v \<longleftrightarrow> v \<noteq> [] \<and> last v \<noteq> CHR ''/''"

lemma only_localhost_allowed:
  "browser_origin v \<Longrightarrow> cors_allows (create_app s) v \<longleftrightarrow> v = ''http://localhost:3000''"
  by (auto simp: browser_origin_def cors_allows_def create_app_def)

text \<open>The mount cannot take a path of a route.\<close>

lemma metrics_mount_free:
  "r \<in> set (app_router (create_app s)) \<Longrightarrow> rt_path r \<noteq> [] \<and> hd (rt_path r) \<notin> Lit ` set (app_mounts (create_app s))"
  by (auto simp: create_app_def app_routes_eq the_route_def)

section \<open>Worked examples\<close>

definition example_inputs :: call_inputs where
  "example_inputs = \<lparr>ai_now = 500, ai_pause_now = 501, ai_new_id = 21, ai_select_1 = None\<rparr>"

theorem api_calls_safe_witness:
  "\<exists>b d'. respond example_ext (init_db session_unloaded) None example_inputs
        (CallResolveDlqEntry 9 ''ops'') example_dlq_db = ((200, b), d')
     \<and> dlq_count d' = 0 \<and> workers_rows d' = workers_rows example_dlq_db
     \<and> fst (fst (respond example_ext (init_db session_unloaded) None example_inputs
          (CallResolveDlqEntry 8 ''ops'') example_dlq_db)) = 404"
proof -
  let ?m = "init_db session_unloaded"
  have ok: "db_ok example_dlq_db" by (simp add: example_dlq_db_def example_defs db_ok_defs dlq_entry_def)
  have f: "get_session_factory ?m = Inr (EngineFactory 0)"
    by (simp add: get_session_factory_def init_db_def session_unloaded_def Let_def)
  obtain code b d' where r: "respond example_ext ?m None example_inputs (CallResolveDlqEntry 9 ''ops'') example_dlq_db
      = ((code, b), d')" by (metis surj_pair)
  then have "code = 200 \<and> dlq_count d' = 0"
    by (auto simp: respond_def get_db_def f answer_def DLQEntryResponse_of_def is_dict_def resolve_dlq_entry_def
        example_dlq_db_def dlq_entry_def example_inputs_def route_of_def app_routes_eq the_route_def dlq_count_def
        unhandled_def Let_def)
  moreover have "fst (fst (respond example_ext ?m None example_inputs (CallResolveDlqEntry 8 ''ops'') example_dlq_db)) = 404"
    by (simp add: respond_def get_db_def f answer_def resolve_dlq_entry_def example_dlq_db_def dlq_entry_def)
  ultimately show ?thesis using api_calls_safe [OF ok r] r by auto
qed

theorem domain_handlers_idle_witness:
  "\<exists>e. handle example_ext example_inputs (CallListSubscriptions None (- 1) 0) example_db = Inl (Unhandled e)
     \<and> handler_of e = None"
proof -
  have h: "handle example_ext example_inputs (CallListSubscriptions None (- 1) 0) example_db = Inl (Unhandled DataError)"
    by (simp add: answer_def reading_def list_subscriptions_def page_def)
  from domain_handlers_idle [OF h] h show ?thesis by auto
qed

end
