(* ===== verification/Migrations.thy ===== *)
theory Migrations
  imports Domain
begin

text \<open>
  The alembic migrations under \<open>app/infrastructure/db/migrations/versions\<close> as data: each \<open>upgrade\<close>
  and \<open>downgrade\<close> is a list of schema changes, and \<open>apply_ddl\<close> is what PostgreSQL does with one,
  with its errors. Then the tables as \<open>app/infrastructure/db/models.py\<close> declares them, and the
  chain of revision identifiers that alembic follows.
\<close>

section \<open>Schemas\<close>

datatype coltype = Uuid | Varchar nat | Txt | Timestamptz | Jsonb | Int4 | Int8

record column =
  c_name :: string
  c_type :: coltype
  c_nullable :: bool
  c_primary :: bool
  c_references :: "string option"

record table =
  t_name :: string
  t_columns :: "column list"
  t_uniques :: "(string \<times> string list) list"
  t_checks :: "(string \<times> string \<times> string list) list"
  t_triggers :: "(string \<times> string) list"

record db_index =
  i_name :: string
  i_table :: string
  i_columns :: "string list"
  i_where :: "string option"

record schema =
  sc_tables :: "table list"
  sc_indexes :: "db_index list"
  sc_functions :: "string list"

definition empty_schema :: schema where
  "empty_schema = \<lparr>sc_tables = [], sc_indexes = [], sc_functions = []\<rparr>"

text \<open>Shorthands for the columns the files write down: nullable, required, primary key, and a
  required foreign key with ON DELETE CASCADE. Server defaults are not part of the model.\<close>

definition opt :: "string \<Rightarrow> coltype \<Rightarrow> column" where
  "opt n ty = \<lparr>c_name = n, c_type = ty, c_nullable = True, c_primary = False, c_references = None\<rparr>"

definition req :: "string \<Rightarrow> coltype \<Rightarrow> column" where
  "req n ty = \<lparr>c_name = n, c_type = ty, c_nullable = False, c_primary = False, c_references = None\<rparr>"

definition pkey :: "string \<Rightarrow> coltype \<Rightarrow> column" where
  "pkey n ty = \<lparr>c_name = n, c_type = ty, c_nullable = False, c_primary = True, c_references = None\<rparr>"

definition fkey :: "string \<Rightarrow> string \<Rightarrow> column" where
  "fkey n t = \<lparr>c_name = n, c_type = Uuid, c_nullable = False, c_primary = False, c_references = Some t\<rparr>"

definition new_table :: "string \<Rightarrow> column list \<Rightarrow> (string \<times> string list) list \<Rightarrow> table" where
  "new_table n cs us = \<lparr>t_name = n, t_columns = cs, t_uniques = us, t_checks = [], t_triggers = []\<rparr>"

section \<open>Changes\<close>

datatype ddl =
    CreateTable table
  | DropTable string
  | CreateIndex string string "string list" "string option"
  | DropIndex string
  | AddColumn string column
  | DropColumn string string
  | AlterServerDefault string string
  | CreateUnique string string "string list"
  | CreateCheck string string string "string list"
  | DropConstraint string string
  | CreateOrReplaceFunction string
  | DropFunctionIfExists string
  | CreateTrigger string string string
  | DropTriggerIfExists string string

datatype ddl_error = DuplicateObject string | UndefinedObject string | DependentObjects string

definition has_table :: "string \<Rightarrow> schema \<Rightarrow> bool" where
  "has_table t s \<longleftrightarrow> t \<in> t_name ` set (sc_tables s)"

definition has_column :: "string \<Rightarrow> string \<Rightarrow> schema \<Rightarrow> bool" where
  "has_column t c s \<longleftrightarrow> (\<exists>x \<in> set (sc_tables s). t_name x = t \<and> c \<in> c_name ` set (t_columns x))"

definition constraint_names :: "table \<Rightarrow> string list" where
  "constraint_names t = map fst (t_uniques t) @ map fst (t_checks t)"

definition has_constraint :: "string \<Rightarrow> string \<Rightarrow> schema \<Rightarrow> bool" where
  "has_constraint t n s \<longleftrightarrow> (\<exists>x \<in> set (sc_tables s). t_name x = t \<and> n \<in> set (constraint_names x))"

definition update_table :: "string \<Rightarrow> (table \<Rightarrow> table) \<Rightarrow> schema \<Rightarrow> schema" where
  "update_table t f s = s\<lparr>sc_tables := update_where (\<lambda>x. t_name x = t) f (sc_tables s)\<rparr>"

text \<open>Tables other than \<open>t\<close> that reference it, and triggers that call a function.\<close>

definition referenced :: "string \<Rightarrow> schema \<Rightarrow> bool" where
  "referenced t s \<longleftrightarrow> (\<exists>x \<in> set (sc_tables s). t_name x \<noteq> t \<and> Some t \<in> c_references ` set (t_columns x))"

definition called :: "string \<Rightarrow> schema \<Rightarrow> bool" where
  "called f s \<longleftrightarrow> (\<exists>x \<in> set (sc_tables s). f \<in> snd ` set (t_triggers x))"

text \<open>
  One change. A table takes its indexes, constraints and triggers with it and cannot be dropped
  while another references it; a column takes the indexes and constraints it is part of; a
  function cannot be dropped while a trigger calls it.
\<close>

fun apply_ddl :: "ddl \<Rightarrow> schema \<Rightarrow> ddl_error + schema" where
  "apply_ddl (CreateTable t) s =
     (if has_table (t_name t) s then Inl (DuplicateObject (t_name t))
      else if \<exists>c \<in> set (t_columns t). case c_references c of None \<Rightarrow> False
               | Some r \<Rightarrow> r \<noteq> t_name t \<and> \<not> has_table r s
        then Inl (UndefinedObject (t_name t))
      else Inr (s\<lparr>sc_tables := sc_tables s @ [t]\<rparr>))"
| "apply_ddl (DropTable t) s =
     (if \<not> has_table t s then Inl (UndefinedObject t)
      else if referenced t s then Inl (DependentObjects t)
      else Inr (s\<lparr>sc_tables := filter (\<lambda>x. t_name x \<noteq> t) (sc_tables s),
                  sc_indexes := filter (\<lambda>i. i_table i \<noteq> t) (sc_indexes s)\<rparr>))"
| "apply_ddl (CreateIndex n t cs w) s =
     (if n \<in> i_name ` set (sc_indexes s) then Inl (DuplicateObject n)
      else if \<exists>c \<in> set cs. \<not> has_column t c s then Inl (UndefinedObject n)
      else Inr (s\<lparr>sc_indexes := sc_indexes s @ [\<lparr>i_name = n, i_table = t, i_columns = cs, i_where = w\<rparr>]\<rparr>))"
| "apply_ddl (DropIndex n) s =
     (if n \<notin> i_name ` set (sc_indexes s) then Inl (UndefinedObject n)
      else Inr (s\<lparr>sc_indexes := filter (\<lambda>i. i_name i \<noteq> n) (sc_indexes s)\<rparr>))"
| "apply_ddl (AddColumn t c) s =
     (if \<not> has_table t s then Inl (UndefinedObject t)
      else if has_column t (c_name c) s then Inl (DuplicateObject (c_name c))
      else Inr (update_table t (\<lambda>x. x\<lparr>t_columns := t_columns x @ [c]\<rparr>) s))"
| "apply_ddl (DropColumn t c) s =
     (if \<not> has_column t c s then Inl (UndefinedObject c)
      else Inr (update_table t (\<lambda>x. x\<lparr>t_columns := filter (\<lambda>y. c_name y \<noteq> c) (t_columns x),
                  t_uniques := filter (\<lambda>u. c \<notin> set (snd u)) (t_uniques x),
                  t_checks := filter (\<lambda>k. fst (snd k) \<noteq> c) (t_checks x)\<rparr>)
             (s\<lparr>sc_indexes := filter (\<lambda>i. \<not> (i_table i = t \<and> c \<in> set (i_columns i))) (sc_indexes s)\<rparr>)))"
| "apply_ddl (AlterServerDefault t c) s = (if has_column t c s then Inr s else Inl (UndefinedObject c))"
| "apply_ddl (CreateUnique n t cs) s =
     (if has_constraint t n s then Inl (DuplicateObject n)
      else if \<exists>c \<in> set cs. \<not> has_column t c s then Inl (UndefinedObject n)
      else Inr (update_table t (\<lambda>x. x\<lparr>t_uniques := t_uniques x @ [(n, cs)]\<rparr>) s))"
| "apply_ddl (CreateCheck n t c vs) s =
     (if has_constraint t n s then Inl (DuplicateObject n)
      else if \<not> has_column t c s then Inl (UndefinedObject n)
      else Inr (update_table t (\<lambda>x. x\<lparr>t_checks := t_checks x @ [(n, c, vs)]\<rparr>) s))"
| "apply_ddl (DropConstraint n t) s =
     (if \<not> has_constraint t n s then Inl (UndefinedObject n)
      else Inr (update_table t (\<lambda>x. x\<lparr>t_uniques := filter (\<lambda>u. fst u \<noteq> n) (t_uniques x),
                  t_checks := filter (\<lambda>k. fst k \<noteq> n) (t_checks x)\<rparr>) s))"
| "apply_ddl (CreateOrReplaceFunction f) s =
     Inr (if f \<in> set (sc_functions s) then s else s\<lparr>sc_functions := sc_functions s @ [f]\<rparr>)"
| "apply_ddl (DropFunctionIfExists f) s =
     (if called f s then Inl (DependentObjects f)
      else Inr (s\<lparr>sc_functions := filter (\<lambda>g. g \<noteq> f) (sc_functions s)\<rparr>))"
| "apply_ddl (CreateTrigger n t f) s =
     (if \<not> has_table t s \<or> f \<notin> set (sc_functions s) then Inl (UndefinedObject n)
      else if \<exists>x \<in> set (sc_tables s). t_name x = t \<and> n \<in> fst ` set (t_triggers x) then Inl (DuplicateObject n)
      else Inr (update_table t (\<lambda>x. x\<lparr>t_triggers := t_triggers x @ [(n, f)]\<rparr>) s))"
| "apply_ddl (DropTriggerIfExists n t) s =
     Inr (update_table t (\<lambda>x. x\<lparr>t_triggers := filter (\<lambda>g. fst g \<noteq> n) (t_triggers x)\<rparr>) s)"

text \<open>A migration runs in one transaction: all its changes or none.\<close>

fun apply_all :: "ddl list \<Rightarrow> schema \<Rightarrow> ddl_error + schema" where
  "apply_all [] s = Inr s"
| "apply_all (x # xs) s = and_then (apply_ddl x s) (apply_all xs)"

lemma apply_all_append: "apply_all (xs @ ys) s = and_then (apply_all xs s) (apply_all ys)"
proof (induction xs arbitrary: s)
  case (Cons x xs)
  then show ?case by (cases "apply_ddl x s") simp_all
qed simp

section \<open>The four migrations\<close>

definition subscriptions_table :: table where
  "subscriptions_table = new_table ''subscriptions''
     [pkey ''id'' Uuid, req ''name'' (Varchar 255), opt ''description'' Txt,
      req ''cron_expression'' (Varchar 100), req ''timezone'' (Varchar 64), opt ''next_fire_at'' Timestamptz,
      req ''payment_config'' Jsonb, req ''retry_policy'' Jsonb, req ''status'' (Varchar 20),
      req ''consecutive_failures'' Int4, opt ''paused_at'' Timestamptz,
      req ''created_at'' Timestamptz, req ''updated_at'' Timestamptz] []"

definition scheduled_jobs_table :: table where
  "scheduled_jobs_table = new_table ''scheduled_jobs''
     [pkey ''id'' Uuid, fkey ''subscription_id'' ''subscriptions'', req ''scheduled_for'' Timestamptz,
      req ''fingerprint'' (Varchar 64), req ''depends_on'' Jsonb, req ''status'' (Varchar 20),
      req ''created_by_epoch'' Int8, req ''created_at'' Timestamptz, req ''updated_at'' Timestamptz]
     [(''uq_job_per_window'', [''subscription_id'', ''scheduled_for'']), (''uq_job_fingerprint'', [''fingerprint''])]"

definition job_runs_table :: table where
  "job_runs_table = new_table ''job_runs''
     [pkey ''id'' Uuid, fkey ''job_id'' ''scheduled_jobs'', req ''attempt'' Int4, opt ''worker_id'' (Varchar 255),
      opt ''claimed_at'' Timestamptz, opt ''lock_expires_at'' Timestamptz, req ''status'' (Varchar 20),
      opt ''bunq_payment_id'' (Varchar 255), opt ''error_message'' Txt, req ''created_at'' Timestamptz,
      opt ''started_at'' Timestamptz, opt ''finished_at'' Timestamptz]
     [(''uq_run_per_attempt'', [''job_id'', ''attempt''])]"

definition idempotency_keys_table :: table where
  "idempotency_keys_table = new_table ''idempotency_keys''
     [pkey ''key'' (Varchar 64), fkey ''job_run_id'' ''job_runs'', req ''external_provider'' (Varchar 50),
      opt ''response_snapshot'' Jsonb, req ''created_at'' Timestamptz] []"

definition dead_letter_queue_table :: table where
  "dead_letter_queue_table = new_table ''dead_letter_queue''
     [pkey ''id'' Uuid, fkey ''job_run_id'' ''job_runs'', req ''job_id'' Uuid, req ''subscription_id'' Uuid,
      req ''failure_reason'' Txt, opt ''error_class'' (Varchar 255), req ''payload_snapshot'' Jsonb,
      req ''created_at'' Timestamptz, opt ''resolved_at'' Timestamptz, opt ''resolved_by'' (Varchar 255)] []"

definition upgrade_0001 :: "ddl list" where
  "upgrade_0001 =
     [CreateTable subscriptions_table,
      CreateIndex ''ix_subscriptions_next_fire_at_status'' ''subscriptions'' [''next_fire_at'', ''status''] None,
      CreateTable scheduled_jobs_table,
      CreateIndex ''ix_scheduled_jobs_status_scheduled_for'' ''scheduled_jobs'' [''status'', ''scheduled_for''] None,
      CreateIndex ''ix_scheduled_jobs_subscription_id'' ''scheduled_jobs'' [''subscription_id''] None,
      CreateTable job_runs_table,
      CreateIndex ''ix_job_runs_status'' ''job_runs'' [''status''] None,
      CreateIndex ''ix_job_runs_lock_expires_at'' ''job_runs'' [''lock_expires_at''] None,
      CreateTable idempotency_keys_table,
      CreateTable dead_letter_queue_table,
      CreateIndex ''ix_dlq_job_id'' ''dead_letter_queue'' [''job_id''] None,
      CreateIndex ''ix_dlq_subscription_id'' ''dead_letter_queue'' [''subscription_id''] None,
      CreateIndex ''ix_dlq_created_at'' ''dead_letter_queue'' [''created_at''] None,
      CreateOrReplaceFunction ''update_updated_at_column'',
      CreateTrigger ''update_subscriptions_updated_at'' ''subscriptions'' ''update_updated_at_column'',
      CreateTrigger ''update_scheduled_jobs_updated_at'' ''scheduled_jobs'' ''update_updated_at_column'']"

definition downgrade_0001 :: "ddl list" where
  "downgrade_0001 =
     [DropTriggerIfExists ''update_subscriptions_updated_at'' ''subscriptions'',
      DropTriggerIfExists ''update_scheduled_jobs_updated_at'' ''scheduled_jobs'',
      DropFunctionIfExists ''update_updated_at_column'',
      DropTable ''dead_letter_queue'', DropTable ''idempotency_keys'', DropTable ''job_runs'',
      DropTable ''scheduled_jobs'', DropTable ''subscriptions'']"

definition pending_only :: string where
  "pending_only = ''status = '' @ [CHR 39] @ ''PENDING'' @ [CHR 39]"

definition upgrade_0002 :: "ddl list" where
  "upgrade_0002 =
     [AddColumn ''job_runs'' (opt ''retry_after'' Timestamptz),
      CreateIndex ''ix_job_runs_pending_claimable'' ''job_runs'' [''retry_after''] (Some pending_only),
      CreateCheck ''ck_job_runs_status'' ''job_runs'' ''status''
        [''PENDING'', ''RUNNING'', ''SUCCEEDED'', ''FAILED'', ''DEAD''],
      CreateCheck ''ck_scheduled_jobs_status'' ''scheduled_jobs'' ''status''
        [''PENDING'', ''BLOCKED'', ''READY'', ''DONE'', ''CANCELLED''],
      CreateCheck ''ck_subscriptions_status'' ''subscriptions'' ''status'' [''ACTIVE'', ''PAUSED'', ''CANCELLED'']]"

definition downgrade_0002 :: "ddl list" where
  "downgrade_0002 =
     [DropConstraint ''ck_subscriptions_status'' ''subscriptions'',
      DropConstraint ''ck_scheduled_jobs_status'' ''scheduled_jobs'',
      DropConstraint ''ck_job_runs_status'' ''job_runs'',
      DropIndex ''ix_job_runs_pending_claimable'',
      DropColumn ''job_runs'' ''retry_after'']"

definition upgrade_0003 :: "ddl list" where
  "upgrade_0003 =
     [CreateOrReplaceFunction ''trg_set_updated_at'',
      DropTriggerIfExists ''trg_subscriptions_updated_at'' ''subscriptions'',
      CreateTrigger ''trg_subscriptions_updated_at'' ''subscriptions'' ''trg_set_updated_at'',
      DropTriggerIfExists ''trg_scheduled_jobs_updated_at'' ''scheduled_jobs'',
      CreateTrigger ''trg_scheduled_jobs_updated_at'' ''scheduled_jobs'' ''trg_set_updated_at'']"

definition downgrade_0003 :: "ddl list" where
  "downgrade_0003 =
     [DropTriggerIfExists ''trg_subscriptions_updated_at'' ''subscriptions'',
      DropTriggerIfExists ''trg_scheduled_jobs_updated_at'' ''scheduled_jobs'',
      DropFunctionIfExists ''trg_set_updated_at'']"

definition upgrade_0004 :: "ddl list" where
  "upgrade_0004 =
     [AddColumn ''idempotency_keys'' (req ''attempt'' Int4),
      AlterServerDefault ''idempotency_keys'' ''attempt'',
      AddColumn ''idempotency_keys'' (opt ''bunq_payment_id'' (Varchar 255)),
      CreateUnique ''uq_idempotency_run_attempt'' ''idempotency_keys'' [''job_run_id'', ''attempt'']]"

definition downgrade_0004 :: "ddl list" where
  "downgrade_0004 =
     [DropConstraint ''uq_idempotency_run_attempt'' ''idempotency_keys'',
      DropColumn ''idempotency_keys'' ''bunq_payment_id'',
      DropColumn ''idempotency_keys'' ''attempt'']"

section \<open>The models\<close>

text \<open>\<open>Base.metadata\<close>: the tables and indexes the ORM classes declare.\<close>

definition model_tables :: "table list" where
  "model_tables =
     [new_table ''subscriptions''
        [pkey ''id'' Uuid, req ''name'' (Varchar 255), opt ''description'' Txt,
         req ''cron_expression'' (Varchar 100), req ''timezone'' (Varchar 64), opt ''next_fire_at'' Timestamptz,
         req ''payment_config'' Jsonb, req ''retry_policy'' Jsonb, req ''status'' (Varchar 20),
         req ''consecutive_failures'' Int4, opt ''paused_at'' Timestamptz,
         req ''created_at'' Timestamptz, req ''updated_at'' Timestamptz] [],
      new_table ''scheduled_jobs''
        [pkey ''id'' Uuid, fkey ''subscription_id'' ''subscriptions'', req ''scheduled_for'' Timestamptz,
         req ''fingerprint'' (Varchar 64), req ''depends_on'' Jsonb, req ''status'' (Varchar 20),
         req ''created_by_epoch'' Int8, req ''created_at'' Timestamptz, req ''updated_at'' Timestamptz]
        [(''uq_job_per_window'', [''subscription_id'', ''scheduled_for'']), (''uq_job_fingerprint'', [''fingerprint''])],
      new_table ''job_runs''
        [pkey ''id'' Uuid, fkey ''job_id'' ''scheduled_jobs'', req ''attempt'' Int4, opt ''worker_id'' (Varchar 255),
         opt ''claimed_at'' Timestamptz, opt ''lock_expires_at'' Timestamptz, req ''status'' (Varchar 20),
         opt ''retry_after'' Timestamptz, opt ''bunq_payment_id'' (Varchar 255), opt ''error_message'' Txt,
         req ''created_at'' Timestamptz, opt ''started_at'' Timestamptz, opt ''finished_at'' Timestamptz]
        [(''uq_run_per_attempt'', [''job_id'', ''attempt''])],
      new_table ''idempotency_keys''
        [pkey ''key'' (Varchar 64), fkey ''job_run_id'' ''job_runs'', req ''attempt'' Int4,
         opt ''bunq_payment_id'' (Varchar 255), req ''external_provider'' (Varchar 50),
         opt ''response_snapshot'' Jsonb, req ''created_at'' Timestamptz]
        [(''uq_idempotency_run_attempt'', [''job_run_id'', ''attempt''])],
      new_table ''dead_letter_queue''
        [pkey ''id'' Uuid, fkey ''job_run_id'' ''job_runs'', req ''job_id'' Uuid, req ''subscription_id'' Uuid,
         req ''failure_reason'' Txt, opt ''error_class'' (Varchar 255), req ''payload_snapshot'' Jsonb,
         req ''created_at'' Timestamptz, opt ''resolved_at'' Timestamptz, opt ''resolved_by'' (Varchar 255)] []]"

definition model_indexes :: "db_index list" where
  "model_indexes = map (\<lambda>(n, t, cs, w). \<lparr>i_name = n, i_table = t, i_columns = cs, i_where = w\<rparr>)
     [(''ix_subscriptions_next_fire_at_status'', ''subscriptions'', [''next_fire_at'', ''status''], None),
      (''ix_scheduled_jobs_status_scheduled_for'', ''scheduled_jobs'', [''status'', ''scheduled_for''], None),
      (''ix_scheduled_jobs_subscription_id'', ''scheduled_jobs'', [''subscription_id''], None),
      (''ix_job_runs_status'', ''job_runs'', [''status''], None),
      (''ix_job_runs_lock_expires_at'', ''job_runs'', [''lock_expires_at''], None),
      (''ix_job_runs_pending_claimable'', ''job_runs'', [''retry_after''], Some pending_only),
      (''ix_dlq_job_id'', ''dead_letter_queue'', [''job_id''], None),
      (''ix_dlq_subscription_id'', ''dead_letter_queue'', [''subscription_id''], None),
      (''ix_dlq_created_at'', ''dead_letter_queue'', [''created_at''], None)]"

section \<open>The chain of revisions\<close>

record revision =
  rv_id :: string
  rv_down :: "string option"
  rv_upgrade :: "ddl list"
  rv_downgrade :: "ddl list"

definition revisions :: "revision list" where
  "revisions =
     [\<lparr>rv_id = ''0001_initial'', rv_down = None, rv_upgrade = upgrade_0001, rv_downgrade = downgrade_0001\<rparr>,
      \<lparr>rv_id = ''0002_retry_after_and_constraints'', rv_down = Some ''0001_initial'',
       rv_upgrade = upgrade_0002, rv_downgrade = downgrade_0002\<rparr>,
      \<lparr>rv_id = ''0003'', rv_down = Some ''0002_retry_after_and_constraints'',
       rv_upgrade = upgrade_0003, rv_downgrade = downgrade_0003\<rparr>,
      \<lparr>rv_id = ''0004'', rv_down = Some ''0003_updated_at_trigger'',
       rv_upgrade = upgrade_0004, rv_downgrade = downgrade_0004\<rparr>]"

text \<open>The revisions from the base to a given one, following \<open>down_revision\<close>; \<open>None\<close> when an
  identifier names no revision. The fuel is the number of revisions: a longer chain would repeat
  one.\<close>

fun lineage :: "nat \<Rightarrow> revision list \<Rightarrow> string \<Rightarrow> revision list option" where
  "lineage n rs i =
     (case find (\<lambda>r. rv_id r = i) rs of
        None \<Rightarrow> None
      | Some r \<Rightarrow> (case rv_down r of
            None \<Rightarrow> Some [r]
          | Some j \<Rightarrow> (case n of 0 \<Rightarrow> None | Suc k \<Rightarrow> map_option (\<lambda>l. l @ [r]) (lineage k rs j))))"

definition upgrade_to :: "string \<Rightarrow> schema \<Rightarrow> (ddl_error + schema) option" where
  "upgrade_to i s = map_option (\<lambda>l. apply_all (concat (map rv_upgrade l)) s) (lineage (length revisions) revisions i)"

section \<open>Facts\<close>

text \<open>Upgrading and then downgrading a migration gives the schema back, one migration after the
  other.\<close>

fun roundtrips :: "revision list \<Rightarrow> schema \<Rightarrow> bool" where
  "roundtrips [] s = True"
| "roundtrips (r # rs) s =
     (case apply_all (rv_upgrade r) s of
        Inl e \<Rightarrow> False
      | Inr s' \<Rightarrow> apply_all (rv_downgrade r) s' = Inr s \<and> roundtrips rs s')"

text \<open>The same table up to the order of columns and constraints.\<close>

definition same_table :: "table \<Rightarrow> table \<Rightarrow> bool" where
  "same_table t u \<longleftrightarrow> t_name t = t_name u \<and> length (t_columns t) = length (t_columns u)
     \<and> set (t_columns t) = set (t_columns u) \<and> set (t_uniques t) = set (t_uniques u)"

definition migrated :: "ddl_error + schema" where
  "migrated = apply_all (concat (map rv_upgrade revisions)) empty_schema"

definition checks_of :: "string \<Rightarrow> schema \<Rightarrow> string list list" where
  "checks_of t s = map (\<lambda>k. snd (snd k)) (concat (map t_checks (filter (\<lambda>x. t_name x = t) (sc_tables s))))"

lemma UNIV_cases:
  "(UNIV :: JobRunStatus set) = {JobRunStatus.PENDING, JobRunStatus.RUNNING, JobRunStatus.SUCCEEDED,
     JobRunStatus.FAILED, JobRunStatus.DEAD}"
  "(UNIV :: JobStatus set) = {JobStatus.PENDING, JobStatus.BLOCKED, JobStatus.READY, JobStatus.DONE, JobStatus.CANCELLED}"
  "(UNIV :: SubscriptionStatus set) = {SubscriptionStatus.ACTIVE, SubscriptionStatus.PAUSED, SubscriptionStatus.CANCELLED}"
  using JobRunStatus.exhaust JobStatus.exhaust SubscriptionStatus.exhaust by blast+

lemma status_ranges:
  "range run_status_value = {''PENDING'', ''RUNNING'', ''SUCCEEDED'', ''FAILED'', ''DEAD''}"
  "range job_status_value = {''PENDING'', ''BLOCKED'', ''READY'', ''DONE'', ''CANCELLED''}"
  "range subscription_status_value = {''ACTIVE'', ''PAUSED'', ''CANCELLED''}"
  by (simp_all add: UNIV_cases)




end
