(* ===== verification/AlembicEnv.thy ===== *)
theory AlembicEnv
  imports Migrations Settings
begin

text \<open>
  \<open>app/infrastructure/db/migrations/env.py\<close>, the script alembic runs for each command: offline it
  writes the changes as text, online it opens an engine and a connection and runs them in one
  transaction. Which changes a command asks for is alembic's: the model takes them as a parameter
  \<open>plan\<close>, a function of the schema that may fail, as it does on a broken chain of revisions.
\<close>

section \<open>State\<close>

datatype env_error = PlanError | ConnectError | MigrationError ddl_error

record context_options =
  co_url :: "string option"
  co_connection :: "nat option"
  co_literal_binds :: bool
  co_paramstyle :: "string option"

record env_state =
  en_schema :: schema
  en_script :: "ddl list"
  en_file_config :: "string option"
  en_context :: "context_options option"
  en_engines :: "nat list"
  en_connections :: "nat list"
  en_made :: nat

type_synonym plan = "schema \<Rightarrow> env_error + ddl list"

section \<open>The two modes\<close>

definition run_migrations_offline :: "Settings \<Rightarrow> plan \<Rightarrow> env_state \<Rightarrow> env_error option \<times> env_state" where
  "run_migrations_offline s plan e =
     (let e1 = e\<lparr>en_context := Some \<lparr>co_url = Some (POSTGRES_DSN s), co_connection = None,
              co_literal_binds = True, co_paramstyle = Some ''named''\<rparr>\<rparr> in
      case plan (en_schema e) of
        Inl err \<Rightarrow> (Some err, e1)
      | Inr changes \<Rightarrow> (None, e1\<lparr>en_script := en_script e @ changes\<rparr>))"

text \<open>The transaction commits the changes together or not at all; PostgreSQL runs schema changes in
  transactions.\<close>

definition do_run_migrations :: "plan \<Rightarrow> nat \<Rightarrow> env_state \<Rightarrow> env_error option \<times> env_state" where
  "do_run_migrations plan connection e =
     (let e1 = e\<lparr>en_context := Some \<lparr>co_url = None, co_connection = Some connection,
              co_literal_binds = False, co_paramstyle = None\<rparr>\<rparr> in
      case plan (en_schema e) of
        Inl err \<Rightarrow> (Some err, e1)
      | Inr changes \<Rightarrow> (case apply_all changes (en_schema e) of
            Inl err \<Rightarrow> (Some (MigrationError err), e1)
          | Inr schema' \<Rightarrow> (None, e1\<lparr>en_schema := schema'\<rparr>)))"

text \<open>The engine is numbered by its construction, and so is its connection. \<open>async with\<close> closes the
  connection on every way out; \<open>dispose\<close> comes after it, on a normal return only.\<close>

definition run_migrations_online_async :: "plan \<Rightarrow> bool \<Rightarrow> env_state \<Rightarrow> env_error option \<times> env_state" where
  "run_migrations_online_async plan reachable e =
     (let n = en_made e;
          e1 = e\<lparr>en_engines := n # en_engines e, en_made := Suc n\<rparr> in
      if \<not> reachable then (Some ConnectError, e1)
      else
        (let (err, e2) = do_run_migrations plan n (e1\<lparr>en_connections := n # en_connections e1\<rparr>);
             e3 = e2\<lparr>en_connections := remove1 n (en_connections e2)\<rparr> in
         case err of
           Some x \<Rightarrow> (Some x, e3)
         | None \<Rightarrow> (None, e3\<lparr>en_engines := remove1 n (en_engines e3)\<rparr>)))"

definition run_env ::
  "Settings \<Rightarrow> string option \<Rightarrow> bool \<Rightarrow> plan \<Rightarrow> bool \<Rightarrow> env_state \<Rightarrow> env_error option \<times> env_state" where
  "run_env s config_file offline plan reachable e =
     (let e0 = (case config_file of None \<Rightarrow> e | Some f \<Rightarrow> e\<lparr>en_file_config := Some f\<rparr>) in
      if offline then run_migrations_offline s plan e0 else run_migrations_online_async plan reachable e0)"

section \<open>Facts\<close>

text \<open>The engine of this run stays open exactly when the run fails.\<close>

lemma online_resources:
  assumes "run_migrations_online_async plan reachable e = (err, e')"
  shows "en_connections e' = en_connections e
    \<and> en_engines e' = (if err = None then en_engines e else en_made e # en_engines e)"
  using assms
  by (auto simp: run_migrations_online_async_def do_run_migrations_def Let_def split: if_splits sum.splits prod.splits)

text \<open>
  A migration command is all or nothing. In either mode a run that fails leaves the schema as
  it was; the offline mode writes the changes as text and never touches the database; an online
  run that succeeds has applied every change of the plan, in order. No run leaves a connection
  open, but a failed online run leaves its engine undisposed.
\<close>

theorem migration_run_atomic:
  assumes "run_env s config_file offline plan reachable e = (err, e')"
  shows "(err \<noteq> None \<or> offline \<longrightarrow> en_schema e' = en_schema e)
    \<and> (err = None \<longrightarrow> (\<exists>changes. plan (en_schema e) = Inr changes
         \<and> (if offline then en_script e' = en_script e @ changes
            else apply_all changes (en_schema e) = Inr (en_schema e') \<and> en_script e' = en_script e)))
    \<and> en_connections e' = en_connections e
    \<and> en_engines e' = (if offline \<or> err = None then en_engines e else en_made e # en_engines e)"
proof (cases offline)
  case True
  then show ?thesis using assms
    by (auto simp: run_env_def run_migrations_offline_def Let_def split: option.splits sum.splits)
next
  case False
  define e0 where "e0 = (case config_file of None \<Rightarrow> e | Some f \<Rightarrow> e\<lparr>en_file_config := Some f\<rparr>)"
  have run: "run_migrations_online_async plan reachable e0 = (err, e')"
    using assms False by (simp add: run_env_def e0_def Let_def)
  have same: "en_schema e0 = en_schema e" "en_script e0 = en_script e" "en_connections e0 = en_connections e"
    "en_engines e0 = en_engines e" "en_made e0 = en_made e"
    by (simp_all add: e0_def split: option.split)
  from run online_resources [OF run] False show ?thesis
    by (auto simp: same run_migrations_online_async_def do_run_migrations_def Let_def
        split: if_splits sum.splits prod.splits)
qed

text \<open>The plan of \<open>upgrade head\<close>: alembic cannot resolve the head, so the command changes nothing,
  whatever the schema.\<close>

definition plan_upgrade :: "string \<Rightarrow> plan" where
  "plan_upgrade target schema =
     (case lineage (length revisions) revisions target of
        None \<Rightarrow> Inl PlanError | Some rs \<Rightarrow> Inr (concat (map rv_upgrade rs)))"

lemma upgrade_head_does_nothing:
  "run_env s config_file offline (plan_upgrade ''0004'') True e = (err, e') \<Longrightarrow> err \<noteq> None \<and> en_schema e' = en_schema e"
proof -
  have "plan_upgrade ''0004'' schema = Inl PlanError" for schema
  proof -
    have "lineage (length revisions) revisions ''0004'' = None" by code_simp
    then show ?thesis by (simp add: plan_upgrade_def)
  qed
  moreover assume "run_env s config_file offline (plan_upgrade ''0004'') True e = (err, e')"
  ultimately show ?thesis
    by (auto simp: run_env_def run_migrations_offline_def run_migrations_online_async_def do_run_migrations_def
        Let_def split: if_splits option.splits)
qed

definition env_start :: env_state where
  "env_start = \<lparr>en_schema = empty_schema, en_script = [], en_file_config = None, en_context = None,
     en_engines = [], en_connections = [], en_made = 0\<rparr>"

theorem migration_run_atomic_witness:
  "\<exists>err e'. run_env default_settings (Some ''alembic.ini'') False (\<lambda>_. Inr (upgrade_0001 @ [DropTable ''invoices''])) True
       env_start = (err, e')
     \<and> err \<noteq> None \<and> en_schema e' = empty_schema \<and> en_connections e' = [] \<and> en_engines e' = [0]"
proof -
  let ?plan = "\<lambda>_ :: schema. Inr (upgrade_0001 @ [DropTable ''invoices'']) :: env_error + ddl list"
  have fails: "\<exists>x. apply_all (upgrade_0001 @ [DropTable ''invoices'']) empty_schema = Inl x"
  proof -
    have "case apply_all (upgrade_0001 @ [DropTable ''invoices'']) empty_schema of Inl x \<Rightarrow> True | Inr s \<Rightarrow> False"
      by code_simp
    then show ?thesis by (simp split: sum.splits)
  qed
  obtain err e' where r: "run_env default_settings (Some ''alembic.ini'') False ?plan True env_start = (err, e')"
    by (cases "run_env default_settings (Some ''alembic.ini'') False ?plan True env_start") simp
  have "err \<noteq> None"
    using migration_run_atomic [OF r] fails by (auto simp: env_start_def)
  then show ?thesis using migration_run_atomic [OF r] r by (auto simp: env_start_def)
qed

end
